(* ===== verification/Prelude.thy ===== *)
theory Prelude
  imports Main "HOL-Library.Word" "HOL-Library.Char_ord" "HOL-Library.List_Lexorder"
    "HOL-Library.AList" "HOL-Library.Multiset" "HOL-Library.Sublist"
begin

text \<open>
  Shared vocabulary of the development: the machine integers of the source, results as sums,
  Rust strings as their UTF-8 bytes, and the generic lemmas on lists, association lists and
  signed words that several components use.
\<close>

section \<open>Types\<close>

type_synonym i16 = "16 word"
type_synonym i32 = "32 word"
type_synonym i64 = "64 word"
type_synonym u8 = "8 word"
type_synonym u32 = "32 word"
type_synonym u64 = "64 word"
type_synonym usize = "64 word"

text \<open>\<open>Result<T, E>\<close> is \<open>E + T\<close>: \<open>Inl\<close> is \<open>Err\<close>, \<open>Inr\<close> is \<open>Ok\<close>.\<close>

abbreviation is_ok :: "'e + 'a \<Rightarrow> bool" where
  "is_ok r \<equiv> \<not> isl r"

definition map_err :: "('e \<Rightarrow> 'f) \<Rightarrow> 'e + 'a \<Rightarrow> 'f + 'a" where
  "map_err f r = (case r of Inl e \<Rightarrow> Inl (f e) | Inr x \<Rightarrow> Inr x)"

definition and_then :: "'e + 'a \<Rightarrow> ('a \<Rightarrow> 'e + 'b) \<Rightarrow> 'e + 'b" where
  "and_then r f = (case r of Inl e \<Rightarrow> Inl e | Inr x \<Rightarrow> f x)"

definition ok_or :: "'e \<Rightarrow> 'a option \<Rightarrow> 'e + 'a" where
  "ok_or e x = (case x of None \<Rightarrow> Inl e | Some y \<Rightarrow> Inr y)"

named_theorems result_simps \<open>evaluation of results\<close>

lemma map_err_simps [simp, result_simps]:
  "map_err f (Inl e) = Inl (f e)" "map_err f (Inr x) = Inr x"
  by (simp_all add: map_err_def)

lemma and_then_simps [simp, result_simps]:
  "and_then (Inl e) f = Inl e" "and_then (Inr x) f = f x"
  by (simp_all add: and_then_def)

lemma ok_or_simps [simp, result_simps]:
  "ok_or e None = Inl e" "ok_or e (Some y) = Inr y"
  by (simp_all add: ok_or_def)

lemma and_then_Inr_iff: "and_then r f = Inr y \<longleftrightarrow> (\<exists>x. r = Inr x \<and> f x = Inr y)"
  by (cases r) auto

lemma and_then_Inl_iff: "and_then r f = Inl e \<longleftrightarrow> r = Inl e \<or> (\<exists>x. r = Inr x \<and> f x = Inl e)"
  by (cases r) auto

lemma and_then_assoc: "and_then (and_then r f) g = and_then r (\<lambda>x. and_then (f x) g)"
  by (cases r) simp_all

section \<open>Signed words\<close>

text \<open>The bounds of the signed integer types, and \<open>max\<close> in their order.\<close>

definition i32_min :: int where "i32_min = - (2 ^ 31)"
definition i32_max :: int where "i32_max = 2 ^ 31 - 1"
definition i64_min :: int where "i64_min = - (2 ^ 63)"
definition i64_max :: int where "i64_max = 2 ^ 63 - 1"
definition u64_max :: int where "u64_max = 2 ^ 64 - 1"

definition smax :: "i64 \<Rightarrow> i64 \<Rightarrow> i64" where
  "smax a b = (if sint a \<le> sint b then b else a)"

lemma sint_smax: "sint (smax a b) = max (sint a) (sint b)"
  by (simp add: smax_def)

lemma smax_ge [simp]: "sint a \<le> sint (smax a b)" "sint b \<le> sint (smax a b)"
  by (simp_all add: sint_smax)

lemma smax_self [simp]: "smax a a = a"
  by (simp add: smax_def)

lemma smax_cases: "smax a b = a \<or> smax a b = b"
  by (simp add: smax_def)

lemma sint_bounds_32: "i32_min \<le> sint (x :: i32)" "sint x \<le> i32_max"
  using sint_ge [of x] sint_lt [of x] by (simp_all add: i32_min_def i32_max_def)

lemma sint_bounds_64: "i64_min \<le> sint (x :: i64)" "sint x \<le> i64_max"
  using sint_ge [of x] sint_lt [of x] by (simp_all add: i64_min_def i64_max_def)

lemma sint_inj: "sint (x :: 'a::len word) = sint (y :: 'a word) \<longleftrightarrow> x = y"
  by (auto dest: arg_cong [where f = "word_of_int :: int \<Rightarrow> 'a word"])

lemma sint_of_int_32: "i32_min \<le> k \<Longrightarrow> k \<le> i32_max \<Longrightarrow> sint (word_of_int k :: i32) = k"
  by (simp add: i32_min_def i32_max_def sint_sbintrunc' signed_take_bit_int_eq_self)

lemma sint_of_int_64: "i64_min \<le> k \<Longrightarrow> k \<le> i64_max \<Longrightarrow> sint (word_of_int k :: i64) = k"
  by (simp add: i64_min_def i64_max_def sint_sbintrunc' signed_take_bit_int_eq_self)

section \<open>Lists\<close>

lemma not_in_takeWhile: "c \<notin> set (takeWhile (\<lambda>x. x \<noteq> c) xs)"
  by (auto dest: set_takeWhileD)

lemma takeWhile_all_but: "c \<notin> set a \<Longrightarrow> takeWhile (\<lambda>x. x \<noteq> c) (a @ c # b) = a"
  by (induction a) auto

lemma dropWhile_all_but: "c \<notin> set a \<Longrightarrow> dropWhile (\<lambda>x. x \<noteq> c) (a @ c # b) = c # b"
  by (induction a) auto

section \<open>Association lists as hash maps\<close>

text \<open>
  A \<open>HashMap\<close> is an association list with distinct keys: \<open>map_of\<close> is the lookup and the list
  order is the (unspecified) iteration order of the map.
\<close>

lemma map_of_update_same [simp]: "map_of (AList.update k v m) k = Some v"
  by (simp add: update_conv')

lemma map_of_update_other: "k' \<noteq> k \<Longrightarrow> map_of (AList.update k v m) k' = map_of m k'"
  by (simp add: update_conv')

end
