(* ===== verification/Rust_Str.thy ===== *)
theory Rust_Str
  imports Prelude
begin

text \<open>
  The operations of the Rust standard library on \<open>str\<close> that the crate uses. A \<open>str\<close> is the list
  of its UTF-8 bytes, so \<open>char\<close> here is a byte: the patterns the code splits on and searches for
  are ASCII, and an ASCII byte never occurs inside a multi-byte character. \<open>trim\<close> removes the
  UTF-8 encodings of the characters with the Unicode property \<open>White_Space\<close>.
\<close>

section \<open>Bytes and literals\<close>

text \<open>A literal with non-ASCII characters is written as its UTF-8 bytes.\<close>

definition utf8 :: "nat list \<Rightarrow> string" where
  "utf8 bs = map char_of bs"

definition tab :: char where "tab = CHR 0x09"
definition newline :: char where "newline = CHR 0x0A"
definition carriage_return :: char where "carriage_return = CHR 0x0D"

section \<open>Searching and splitting\<close>

definition starts_with :: "string \<Rightarrow> string \<Rightarrow> bool" where
  "starts_with s p = (take (length p) s = p)"

fun contains :: "string \<Rightarrow> string \<Rightarrow> bool" where
  "contains [] p = (p = [])"
| "contains (c # s) p = (starts_with (c # s) p \<or> contains s p)"

definition strip_prefix :: "string \<Rightarrow> string \<Rightarrow> string option" where
  "strip_prefix s p = (if starts_with s p then Some (drop (length p) s) else None)"

definition strip_suffix :: "string \<Rightarrow> string \<Rightarrow> string option" where
  "strip_suffix s p = map_option rev (strip_prefix (rev s) (rev p))"

fun split_on :: "char \<Rightarrow> string \<Rightarrow> string list" where
  "split_on c [] = [[]]"
| "split_on c (x # xs) =
     (if x = c then [] # split_on c xs
      else (x # hd (split_on c xs)) # tl (split_on c xs))"

fun join :: "string \<Rightarrow> string list \<Rightarrow> string" where
  "join sep [] = []"
| "join sep [x] = x"
| "join sep (x # y # zs) = x @ sep @ join sep (y # zs)"

definition rsplit_once :: "char \<Rightarrow> string \<Rightarrow> (string \<times> string) option" where
  "rsplit_once c s =
     (if c \<in> set s
      then Some (rev (tl (dropWhile (\<lambda>x. x \<noteq> c) (rev s))), rev (takeWhile (\<lambda>x. x \<noteq> c) (rev s)))
      else None)"

text \<open>\<open>rsplitn(n, c)\<close>: at most \<open>n\<close> pieces, from the right; the last one is the unsplit rest.\<close>

fun rsplitn :: "nat \<Rightarrow> char \<Rightarrow> string \<Rightarrow> string list" where
  "rsplitn 0 c s = []"
| "rsplitn (Suc 0) c s = [s]"
| "rsplitn (Suc n) c s =
     (case rsplit_once c s of None \<Rightarrow> [s] | Some (pre, post) \<Rightarrow> post # rsplitn n c pre)"

text \<open>\<open>lines()\<close>: pieces ended by a newline, a carriage return before it dropped as well.\<close>

definition strip_cr :: "string \<Rightarrow> string" where
  "strip_cr l = (if l \<noteq> [] \<and> last l = carriage_return then butlast l else l)"

definition lines :: "string \<Rightarrow> string list" where
  "lines s =
     (let ps = split_on newline s
      in map strip_cr (butlast ps) @ (if last ps = [] then [] else [last ps]))"

lemma split_on_not_Nil [simp]: "split_on c s \<noteq> []"
  by (cases s) auto

lemma split_on_no_sep: "c \<notin> set s \<Longrightarrow> split_on c s = [s]"
  by (induction s) auto

lemma split_on_append: "c \<notin> set a \<Longrightarrow> split_on c (a @ c # b) = a # split_on c b"
  by (induction a) auto

lemma join_not_in: "c \<notin> set sep \<Longrightarrow> \<forall>x \<in> set xs. c \<notin> set x \<Longrightarrow> c \<notin> set (join sep xs)"
  by (induction sep xs rule: join.induct) auto

lemma split_on_join:
  assumes "xs \<noteq> []" and "\<forall>x \<in> set xs. c \<notin> set x"
  shows "split_on c (join [c] xs) = xs"
  using assms by (induction "[c]" xs rule: join.induct) (auto simp: split_on_no_sep split_on_append)

lemma split_on_pieces: "x \<in> set (split_on c s) \<Longrightarrow> c \<notin> set x"
proof (induction s arbitrary: x)
  case (Cons y ys)
  have "hd (split_on c ys) \<in> set (split_on c ys)" and "set (tl (split_on c ys)) \<subseteq> set (split_on c ys)"
    by (simp_all add: list.set_sel set_mono_suffix suffix_tl)
  with Cons show ?case by (auto split: if_splits)
qed simp

lemma rsplit_once_append: "c \<notin> set b \<Longrightarrow> rsplit_once c (a @ c # b) = Some (a, b)"
proof -
  assume "c \<notin> set b"
  then have "c \<notin> set (rev b)" by simp
  then show ?thesis
    by (simp add: rsplit_once_def takeWhile_all_but dropWhile_all_but)
qed

lemma rsplit_once_Some: "rsplit_once c s = Some (a, b) \<longleftrightarrow> s = a @ c # b \<and> c \<notin> set b"
proof
  assume *: "rsplit_once c s = Some (a, b)"
  then have "c \<in> set s" by (simp add: rsplit_once_def split: if_splits)
  then obtain u v where "s = u @ c # v" and "c \<notin> set v" by (meson split_list_last)
  with * show "s = a @ c # b \<and> c \<notin> set b" by (simp add: rsplit_once_append)
next
  assume "s = a @ c # b \<and> c \<notin> set b"
  then show "rsplit_once c s = Some (a, b)" by (simp add: rsplit_once_append)
qed

lemma lines_join:
  assumes "xs \<noteq> []" and "\<forall>x \<in> set xs. newline \<notin> set x \<and> x \<noteq> [] \<and> last x \<noteq> carriage_return"
  shows "lines (join [newline] xs) = xs"
proof -
  have split: "split_on newline (join [newline] xs) = xs"
    using assms by (intro split_on_join) auto
  have "map strip_cr (butlast xs) = butlast xs"
    using assms(2) by (intro map_idI) (auto simp: strip_cr_def dest: in_set_butlastD)
  moreover have "last xs \<noteq> []" using assms by simp
  ultimately show ?thesis
    using assms(1) by (simp add: lines_def Let_def split)
qed

section \<open>Trimming\<close>

text \<open>The encodings of the characters with the property \<open>White_Space\<close>.\<close>

definition white_space :: "string list" where
  "white_space =
     [[CHR 0x09], [CHR 0x0A], [CHR 0x0B], [CHR 0x0C], [CHR 0x0D], [CHR 0x20],
      [CHR 0xC2, CHR 0x85], [CHR 0xC2, CHR 0xA0], [CHR 0xE1, CHR 0x9A, CHR 0x80],
      [CHR 0xE2, CHR 0x80, CHR 0x80], [CHR 0xE2, CHR 0x80, CHR 0x81],
      [CHR 0xE2, CHR 0x80, CHR 0x82], [CHR 0xE2, CHR 0x80, CHR 0x83],
      [CHR 0xE2, CHR 0x80, CHR 0x84], [CHR 0xE2, CHR 0x80, CHR 0x85],
      [CHR 0xE2, CHR 0x80, CHR 0x86], [CHR 0xE2, CHR 0x80, CHR 0x87],
      [CHR 0xE2, CHR 0x80, CHR 0x88], [CHR 0xE2, CHR 0x80, CHR 0x89],
      [CHR 0xE2, CHR 0x80, CHR 0x8A], [CHR 0xE2, CHR 0x80, CHR 0xA8],
      [CHR 0xE2, CHR 0x80, CHR 0xA9], [CHR 0xE2, CHR 0x80, CHR 0xAF],
      [CHR 0xE2, CHR 0x81, CHR 0x9F], [CHR 0xE3, CHR 0x80, CHR 0x80]]"

text \<open>The number of bytes of the pattern that begins \<open>s\<close>, or 0.\<close>

definition pattern_length :: "string list \<Rightarrow> string \<Rightarrow> nat" where
  "pattern_length ps s =
     (case find (\<lambda>p. p \<noteq> [] \<and> starts_with s p) ps of None \<Rightarrow> 0 | Some p \<Rightarrow> length p)"

lemma pattern_length_le: "pattern_length ps s \<le> length s"
  by (auto simp: pattern_length_def starts_with_def find_Some_iff split: option.splits)
     (metis length_take min.cobounded1)

function strip_patterns :: "string list \<Rightarrow> string \<Rightarrow> string" where
  "strip_patterns ps s =
     (if pattern_length ps s = 0 then s else strip_patterns ps (drop (pattern_length ps s) s))"
  by pat_completeness auto
termination
proof (relation "measure (\<lambda>(ps, s). length s)")
  fix ps s
  assume "pattern_length ps s \<noteq> 0"
  then show "((ps, drop (pattern_length ps s) s), (ps, s)) \<in> measure (\<lambda>(ps, s). length s)"
    using pattern_length_le [of ps s] by auto
qed simp

declare strip_patterns.simps [simp del]

definition trim_start :: "string \<Rightarrow> string" where
  "trim_start s = strip_patterns white_space s"

definition trim_end :: "string \<Rightarrow> string" where
  "trim_end s = rev (strip_patterns (map rev white_space) (rev s))"

definition trim :: "string \<Rightarrow> string" where
  "trim s = trim_end (trim_start s)"

definition trim_is_empty :: "string \<Rightarrow> bool" where
  "trim_is_empty s = (trim s = [])"

lemma strip_patterns_id: "pattern_length ps s = 0 \<Longrightarrow> strip_patterns ps s = s"
  by (subst strip_patterns.simps) simp

lemma strip_patterns_stop: "pattern_length ps (strip_patterns ps s) = 0"
proof (induction ps s rule: strip_patterns.induct)
  case (1 ps s)
  then show ?case by (cases "pattern_length ps s = 0") (simp_all add: strip_patterns.simps [of ps s])
qed

lemma strip_patterns_idem: "strip_patterns ps (strip_patterns ps s) = strip_patterns ps s"
  by (rule strip_patterns_id) (rule strip_patterns_stop)

lemma strip_patterns_suffix: "suffix (strip_patterns ps s) s"
proof (induction ps s rule: strip_patterns.induct)
  case (1 ps s)
  show ?case
  proof (cases "pattern_length ps s = 0")
    case False
    with 1 have "suffix (strip_patterns ps (drop (pattern_length ps s) s)) (drop (pattern_length ps s) s)"
      by simp
    with False show ?thesis
      by (simp add: strip_patterns.simps [of ps s] suffix_drop suffix_order.trans)
  qed (simp add: strip_patterns_id)
qed

lemma set_strip_patterns: "set (strip_patterns ps s) \<subseteq> set s"
  by (rule set_mono_suffix) (rule strip_patterns_suffix)

lemma set_trim: "set (trim s) \<subseteq> set s"
proof -
  have "set (trim s) \<subseteq> set (trim_start s)"
    using set_strip_patterns [of "map rev white_space" "rev (trim_start s)"]
    by (simp add: trim_def trim_end_def)
  also have "\<dots> \<subseteq> set s" unfolding trim_start_def by (rule set_strip_patterns)
  finally show ?thesis .
qed

lemma strip_patterns_Nil [simp]: "strip_patterns ps [] = []"
  using strip_patterns_suffix [of ps "[]"] by simp

lemma trim_Nil [simp]: "trim_start [] = []" "trim_end [] = []" "trim [] = []"
  by (simp_all add: trim_def trim_start_def trim_end_def)

text \<open>A string whose first and last byte cannot belong to white space is not changed.\<close>

definition graphic :: "char \<Rightarrow> bool" where
  "graphic c = (0x21 \<le> (of_char c :: nat) \<and> (of_char c :: nat) < 0x80)"

lemma pattern_length_hd: "\<forall>p \<in> set ps. p \<noteq> [] \<longrightarrow> hd p \<noteq> c \<Longrightarrow> pattern_length ps (c # s) = 0"
  by (auto simp: pattern_length_def starts_with_def find_Some_iff neq_Nil_conv split: option.splits)
     (metis length_greater_0_conv list.sel(1) list.size(3) nth_mem take_Suc_Cons not_gr_zero)

lemma white_space_not_graphic:
  "\<forall>p \<in> set white_space. \<not> graphic (hd p)" "\<forall>p \<in> set (map rev white_space). \<not> graphic (hd p)"
  by (simp_all add: white_space_def graphic_def)

lemma pattern_length_graphic:
  "graphic c \<Longrightarrow> pattern_length white_space (c # s) = 0"
  "graphic c \<Longrightarrow> pattern_length (map rev white_space) (c # s) = 0"
  using white_space_not_graphic by (blast intro: pattern_length_hd)+

lemma trim_start_graphic: "graphic c \<Longrightarrow> trim_start (c # s) = c # s"
  by (simp add: trim_start_def strip_patterns_id pattern_length_graphic)

lemma trim_end_graphic: "graphic c \<Longrightarrow> trim_end (s @ [c]) = s @ [c]"
  by (simp add: trim_end_def strip_patterns_id pattern_length_graphic)

section \<open>ASCII case\<close>

definition ascii_lower :: "char \<Rightarrow> char" where
  "ascii_lower c =
     (if 0x41 \<le> (of_char c :: nat) \<and> (of_char c :: nat) \<le> 0x5A then char_of ((of_char c :: nat) + 32) else c)"

definition to_ascii_lowercase :: "string \<Rightarrow> string" where
  "to_ascii_lowercase = map ascii_lower"

definition eq_ignore_ascii_case :: "string \<Rightarrow> string \<Rightarrow> bool" where
  "eq_ignore_ascii_case a b = (to_ascii_lowercase a = to_ascii_lowercase b)"

section \<open>Substring search\<close>

lemma starts_with_iff: "starts_with s p \<longleftrightarrow> (\<exists>t. s = p @ t)"
  unfolding starts_with_def by (metis append_eq_conv_conj append_take_drop_id)

lemma contains_iff: "contains s p \<longleftrightarrow> (\<exists>a b. s = a @ p @ b)"
proof (induction s)
  case (Cons c s)
  have "(\<exists>a b. c # s = a @ p @ b) \<longleftrightarrow> (\<exists>b. c # s = p @ b) \<or> (\<exists>a b. s = a @ p @ b)"
    by (metis append_Cons append_Nil list.inject neq_Nil_conv)
  with Cons show ?case by (simp add: starts_with_iff)
qed auto

lemma contains_self [simp]: "contains s s"
  by (metis append_Nil append_Nil2 contains_iff)

lemma contains_append1: "contains a p \<Longrightarrow> contains (a @ b) p"
  by (auto simp: contains_iff) (metis append.assoc)

lemma contains_append2: "contains b p \<Longrightarrow> contains (a @ b) p"
  by (auto simp: contains_iff) (metis append.assoc)

lemma contains_trans: "contains s t \<Longrightarrow> contains t p \<Longrightarrow> contains s p"
  by (auto simp: contains_iff) (metis append.assoc)

section \<open>UTF-8\<close>

text \<open>The byte sequences \<open>str::from_utf8\<close> accepts: no overlong forms, no surrogates.\<close>

definition in_range :: "nat \<Rightarrow> nat \<Rightarrow> char \<Rightarrow> bool" where
  "in_range lo hi c = (lo \<le> (of_char c :: nat) \<and> (of_char c :: nat) \<le> hi)"

definition continuation :: "char \<Rightarrow> bool" where
  "continuation = in_range 0x80 0xBF"

text \<open>The length a first byte announces, and the narrower ranges of some second bytes.\<close>

definition utf8_width :: "char \<Rightarrow> nat" where
  "utf8_width a =
     (if in_range 0x00 0x7F a then 1 else if in_range 0xC2 0xDF a then 2
      else if in_range 0xE0 0xEF a then 3 else if in_range 0xF0 0xF4 a then 4 else 0)"

definition utf8_second :: "char \<Rightarrow> char \<Rightarrow> bool" where
  "utf8_second a b =
     (if in_range 0xE0 0xE0 a then in_range 0xA0 0xBF b
      else if in_range 0xED 0xED a then in_range 0x80 0x9F b
      else if in_range 0xF0 0xF0 a then in_range 0x90 0xBF b
      else if in_range 0xF4 0xF4 a then in_range 0x80 0x8F b
      else continuation b)"

text \<open>The number of bytes of the character that begins a text, 0 when there is no valid one.\<close>

definition utf8_head :: "string \<Rightarrow> nat" where
  "utf8_head s =
     (if s \<noteq> [] \<and> utf8_width (hd s) \<le> length s \<and>
         list_all continuation (take (utf8_width (hd s) - 1) (tl s)) \<and>
         (1 < utf8_width (hd s) \<longrightarrow> utf8_second (hd s) (hd (tl s)))
      then utf8_width (hd s) else 0)"

lemma utf8_head_le: "utf8_head s \<le> length s"
  by (simp add: utf8_head_def)

lemma utf8_head_ascii: "in_range 0x00 0x7F a \<Longrightarrow> utf8_head (a # s) = 1"
  by (simp add: utf8_head_def utf8_width_def)

lemma utf8_head_append: "utf8_head s \<noteq> 0 \<Longrightarrow> utf8_head (s @ t) = utf8_head s"
proof -
  assume "utf8_head s \<noteq> 0"
  then obtain a u where s: "s = a # u" and w: "utf8_width a - 1 \<le> length u"
    and *: "utf8_width a \<le> Suc (length u)" "list_all continuation (take (utf8_width a - 1) u)"
      "1 < utf8_width a \<Longrightarrow> utf8_second a (hd u)"
    by (cases s) (auto simp: utf8_head_def split: if_splits)
  from w have "take (utf8_width a - 1) (u @ t) = take (utf8_width a - 1) u" by simp
  moreover have "1 < utf8_width a \<Longrightarrow> hd (u @ t) = hd u" using * by (cases u) auto
  ultimately show ?thesis using * by (simp add: s utf8_head_def)
qed

function utf8_valid :: "string \<Rightarrow> bool" where
  "utf8_valid s =
     (if s = [] then True else if utf8_head s = 0 then False else utf8_valid (drop (utf8_head s) s))"
  by pat_completeness auto
termination
proof (relation "measure length")
  fix s
  assume "s \<noteq> []" "utf8_head s \<noteq> 0"
  then show "(drop (utf8_head s) s, s) \<in> measure length" by (cases s) auto
qed simp

declare utf8_valid.simps [simp del]

lemma utf8_valid_Nil [simp]: "utf8_valid []"
  by (simp add: utf8_valid.simps)

lemma utf8_valid_ascii: "\<forall>c \<in> set s. in_range 0x00 0x7F c \<Longrightarrow> utf8_valid s"
  by (induction s) (simp_all add: utf8_valid.simps [of "_ # _"] utf8_head_ascii)

lemma utf8_valid_append: "utf8_valid a \<Longrightarrow> utf8_valid b \<Longrightarrow> utf8_valid (a @ b)"
proof (induction a rule: utf8_valid.induct)
  case (1 a)
  show ?case
  proof (cases "a = []")
    case False
    with "1.prems" have h: "utf8_head a \<noteq> 0" and v: "utf8_valid (drop (utf8_head a) a)"
      by (simp_all add: utf8_valid.simps [of a] split: if_splits)
    with False "1.IH" "1.prems"(2) have "utf8_valid (drop (utf8_head a) a @ b)" by blast
    then have "utf8_valid (drop (utf8_head a) (a @ b))" using utf8_head_le [of a] by simp
    with h False show ?thesis
      by (simp add: utf8_valid.simps [of "a @ b"] utf8_head_append)
  qed (use "1.prems" in simp)
qed

end
