(* ===== verification/Rust_Num.thy ===== *)
theory Rust_Num
  imports Rust_Str
begin

text \<open>
  Decimal text of integers: \<open>Display\<close> for the integer types and \<open>FromStr\<close> as the standard
  library defines it (an optional sign, \<open>-\<close> only for signed types, at least one digit, and an
  error when the value is out of range), with the round trip between them.
\<close>

section \<open>Digits\<close>

definition digit :: "nat \<Rightarrow> char" where
  "digit n = char_of (48 + n)"

definition is_digit :: "char \<Rightarrow> bool" where
  "is_digit c = (48 \<le> (of_char c :: nat) \<and> (of_char c :: nat) \<le> 57)"

definition digit_value :: "char \<Rightarrow> nat" where
  "digit_value c = of_char c - 48"

lemma is_digit_digit [simp]: "n < 10 \<Longrightarrow> is_digit (digit n)"
  by (simp add: is_digit_def digit_def)

lemma digit_value_digit [simp]: "n < 10 \<Longrightarrow> digit_value (digit n) = n"
  by (simp add: digit_value_def digit_def)

lemma is_digit_graphic: "is_digit c \<Longrightarrow> graphic c"
  by (simp add: is_digit_def graphic_def)

section \<open>Display\<close>

fun show_nat :: "nat \<Rightarrow> string" where
  "show_nat n = (if n < 10 then [digit n] else show_nat (n div 10) @ [digit (n mod 10)])"

declare show_nat.simps [simp del]

definition show_int :: "int \<Rightarrow> string" where
  "show_int i = (if i < 0 then CHR ''-'' # show_nat (nat (- i)) else show_nat (nat i))"

abbreviation show_i32 :: "i32 \<Rightarrow> string" where "show_i32 x \<equiv> show_int (sint x)"
abbreviation show_i64 :: "i64 \<Rightarrow> string" where "show_i64 x \<equiv> show_int (sint x)"

definition is_int_char :: "char \<Rightarrow> bool" where
  "is_int_char c = (is_digit c \<or> c = CHR ''-'')"

lemma show_nat_digits: "\<forall>c \<in> set (show_nat n). is_digit c"
proof (induction n rule: show_nat.induct)
  case (1 n)
  then show ?case by (cases "n < 10") (simp_all add: show_nat.simps [of n])
qed

lemma show_nat_not_Nil [simp]: "show_nat n \<noteq> []"
  by (simp add: show_nat.simps [of n])

lemma show_int_not_Nil [simp]: "show_int i \<noteq> []"
  by (simp add: show_int_def)

lemma show_int_chars: "\<forall>c \<in> set (show_int i). is_int_char c"
  using show_nat_digits by (auto simp: show_int_def is_int_char_def)

lemma is_int_char_graphic: "is_int_char c \<Longrightarrow> graphic c"
  by (auto simp: is_int_char_def is_digit_graphic) (simp add: graphic_def)

lemma not_int_char [simp]:
  "\<not> is_int_char CHR ''/''" "\<not> is_int_char tab" "\<not> is_int_char newline" "\<not> is_int_char carriage_return"
  by (simp_all add: is_int_char_def is_digit_def tab_def newline_def carriage_return_def)

lemma show_int_not_in: "\<not> is_int_char c \<Longrightarrow> c \<notin> set (show_int i)"
  using show_int_chars by blast

lemma trim_graphic_ends:
  assumes "graphic a" and "graphic b"
  shows "trim (a # s @ [b]) = a # s @ [b]" "trim [a] = [a]"
proof -
  show "trim (a # s @ [b]) = a # s @ [b]"
    using assms trim_end_graphic [of b "a # s"] by (simp add: trim_def trim_start_graphic)
  show "trim [a] = [a]"
    using assms trim_end_graphic [of a "[]"] by (simp add: trim_def trim_start_graphic)
qed

lemma trim_all_graphic: "\<forall>c \<in> set s. graphic c \<Longrightarrow> trim s = s"
proof (cases s)
  case (Cons a t)
  assume *: "\<forall>c \<in> set s. graphic c"
  show ?thesis
  proof (cases t rule: rev_cases)
    case (snoc u b)
    with * Cons show ?thesis using trim_graphic_ends(1) [of a b u] by simp
  qed (use * Cons trim_graphic_ends(2) [of a a] in simp)
qed simp

lemma trim_show_int [simp]: "trim (show_int i) = show_int i"
  using show_int_chars is_int_char_graphic by (intro trim_all_graphic) blast

section \<open>FromStr\<close>

definition digits_value :: "string \<Rightarrow> nat" where
  "digits_value s = foldl (\<lambda>a c. 10 * a + digit_value c) 0 s"

definition parse_digits :: "string \<Rightarrow> nat option" where
  "parse_digits s = (if s \<noteq> [] \<and> list_all is_digit s then Some (digits_value s) else None)"

definition parse_sign :: "bool \<Rightarrow> string \<Rightarrow> int option" where
  "parse_sign sg s =
     (case s of
        [] \<Rightarrow> None
      | c # t \<Rightarrow>
          if c = CHR ''+'' then map_option int (parse_digits t)
          else if c = CHR ''-'' \<and> sg then map_option (\<lambda>n. - int n) (parse_digits t)
          else map_option int (parse_digits s))"

definition parse_range :: "bool \<Rightarrow> int \<Rightarrow> int \<Rightarrow> string \<Rightarrow> int option" where
  "parse_range sg lo hi s =
     (case parse_sign sg s of
        None \<Rightarrow> None
      | Some i \<Rightarrow> if lo \<le> i \<and> i \<le> hi then Some i else None)"

definition parse_i32 :: "string \<Rightarrow> i32 option" where
  "parse_i32 s = map_option word_of_int (parse_range True i32_min i32_max s)"

definition parse_i64 :: "string \<Rightarrow> i64 option" where
  "parse_i64 s = map_option word_of_int (parse_range True i64_min i64_max s)"

definition parse_u64 :: "string \<Rightarrow> u64 option" where
  "parse_u64 s = map_option word_of_int (parse_range False 0 u64_max s)"

lemma digits_value_snoc [simp]: "digits_value (s @ [c]) = 10 * digits_value s + digit_value c"
  by (simp add: digits_value_def)

lemma digits_value_show_nat [simp]: "digits_value (show_nat n) = n"
proof (induction n rule: show_nat.induct)
  case (1 n)
  then show ?case
    by (cases "n < 10") (simp_all add: show_nat.simps [of n], simp add: digits_value_def)
qed

lemma parse_digits_show_nat [simp]: "parse_digits (show_nat n) = Some n"
  using show_nat_digits [of n] by (simp add: parse_digits_def list_all_iff)

lemma hd_show_nat_digit: "show_nat n = c # t \<Longrightarrow> is_digit c"
  using show_nat_digits [of n] by simp

lemma parse_sign_show_int: "parse_sign True (show_int i) = Some i"
proof (cases "i < 0")
  case False
  obtain c t where ct: "show_nat (nat i) = c # t" by (cases "show_nat (nat i)") auto
  then have "is_digit c" by (rule hd_show_nat_digit)
  then have "c \<noteq> CHR ''+''" "c \<noteq> CHR ''-''" by (auto simp: is_digit_def)
  moreover have "parse_digits (c # t) = Some (nat i)" by (simp flip: ct)
  ultimately show ?thesis using False ct by (simp add: show_int_def parse_sign_def)
qed (simp add: show_int_def parse_sign_def)

lemma parse_range_show_int: "lo \<le> i \<Longrightarrow> i \<le> hi \<Longrightarrow> parse_range True lo hi (show_int i) = Some i"
  by (simp add: parse_range_def parse_sign_show_int)

lemma parse_show_i32 [simp]: "parse_i32 (show_i32 x) = Some x"
  by (simp add: parse_i32_def parse_range_show_int sint_bounds_32)

lemma parse_show_i64 [simp]: "parse_i64 (show_i64 x) = Some x"
  by (simp add: parse_i64_def parse_range_show_int sint_bounds_64)

lemma show_int_inj: "show_int i = show_int j \<longleftrightarrow> i = j"
  by (metis option.inject parse_sign_show_int)

lemma parse_range_bounds: "parse_range sg lo hi s = Some i \<Longrightarrow> lo \<le> i \<and> i \<le> hi"
  by (auto simp: parse_range_def split: option.splits if_splits)

end
