(* ===== verification/Messages.thy ===== *)
theory Messages
  imports Rust_Num
begin

text \<open>
  The literal parts of the error messages of the source, byte for byte. They are Chinese; the
  comment on each gives its meaning. The definitions are never unfolded by default: no property
  depends on a text beyond which literal is used.
\<close>

definition disp_config :: string where \<comment> \<open>configuration invalid\<close>
  "disp_config =
     utf8 [0xE9, 0x85, 0x8D, 0xE7, 0xBD, 0xAE, 0xE6, 0x97, 0xA0, 0xE6, 0x95, 0x88] @ '': ''"

definition disp_connection :: string where \<comment> \<open>connection failed\<close>
  "disp_connection =
     utf8 [0xE8, 0xBF, 0x9E, 0xE6, 0x8E, 0xA5, 0xE5, 0xA4, 0xB1, 0xE8, 0xB4, 0xA5] @ '': ''"

definition disp_backend :: string where \<comment> \<open>remote returned an error\<close>
  "disp_backend =
     utf8 [0xE8, 0xBF, 0x9C, 0xE7, 0xAB, 0xAF, 0xE8, 0xBF, 0x94, 0xE5, 0x9B, 0x9E, 0xE9, 0x94,
     0x99, 0xE8, 0xAF, 0xAF] @ '': ''"

definition disp_transient :: string where \<comment> \<open>remote transient fault\<close>
  "disp_transient =
     utf8 [0xE8, 0xBF, 0x9C, 0xE7, 0xAB, 0xAF, 0xE7, 0x9E, 0xAC, 0xE6, 0x97, 0xB6, 0xE6, 0x95,
     0x85, 0xE9, 0x9A, 0x9C] @ '': ''"

definition disp_serialization :: string where \<comment> \<open>serialization failed\<close>
  "disp_serialization =
     utf8 [0xE5, 0xBA, 0x8F, 0xE5, 0x88, 0x97, 0xE5, 0x8C, 0x96, 0xE5, 0xA4, 0xB1, 0xE8, 0xB4,
     0xA5] @ '': ''"

definition disp_io :: string where \<comment> \<open>I/O failed\<close>
  "disp_io =
     ''I/O '' @ utf8 [0xE5, 0xA4, 0xB1, 0xE8, 0xB4, 0xA5] @ '': ''"

definition disp_timeout :: string where \<comment> \<open>operation timed out\<close>
  "disp_timeout =
     utf8 [0xE6, 0x93, 0x8D, 0xE4, 0xBD, 0x9C, 0xE8, 0xB6, 0x85, 0xE6, 0x97, 0xB6] @ '': ''"

definition disp_unsupported :: string where \<comment> \<open>unsupported operation\<close>
  "disp_unsupported =
     utf8 [0xE4, 0xB8, 0x8D, 0xE6, 0x94, 0xAF, 0xE6, 0x8C, 0x81, 0xE7, 0x9A, 0x84, 0xE6, 0x93,
     0x8D, 0xE4, 0xBD, 0x9C] @ '': ''"

definition disp_closed :: string where \<comment> \<open>pool closed\<close>
  "disp_closed =
     utf8 [0xE8, 0xBF, 0x9E, 0xE6, 0x8E, 0xA5, 0xE6, 0xB1, 0xA0, 0xE5, 0xB7, 0xB2, 0xE5, 0x85,
     0xB3, 0xE9, 0x97, 0xAD] @ '': ''"

definition sfx_connection :: string where \<comment> \<open>driver connection failed\<close>
  "sfx_connection =
     '': '' @ utf8 [0xE9, 0xA9, 0xB1, 0xE5, 0x8A, 0xA8, 0xE8, 0xBF, 0x9E, 0xE6, 0x8E, 0xA5, 0xE5,
     0xA4, 0xB1, 0xE8, 0xB4, 0xA5]"

definition sfx_backend :: string where \<comment> \<open>driver rejected the request\<close>
  "sfx_backend =
     '': '' @ utf8 [0xE9, 0xA9, 0xB1, 0xE5, 0x8A, 0xA8, 0xE6, 0x8B, 0x92, 0xE7, 0xBB, 0x9D, 0xE8,
     0xAF, 0xB7, 0xE6, 0xB1, 0x82]"

definition sfx_transient :: string where \<comment> \<open>driver reports a retryable fault\<close>
  "sfx_transient =
     '': '' @ utf8 [0xE9, 0xA9, 0xB1, 0xE5, 0x8A, 0xA8, 0xE6, 0x8A, 0xA5, 0xE5, 0x91, 0x8A, 0xE5,
     0x8F, 0xAF, 0xE9, 0x87, 0x8D, 0xE8, 0xAF, 0x95, 0xE6, 0x95, 0x85, 0xE9, 0x9A, 0x9C]"

definition sfx_timeout :: string where \<comment> \<open>driver request timed out\<close>
  "sfx_timeout =
     '': '' @ utf8 [0xE9, 0xA9, 0xB1, 0xE5, 0x8A, 0xA8, 0xE8, 0xAF, 0xB7, 0xE6, 0xB1, 0x82, 0xE8,
     0xB6, 0x85, 0xE6, 0x97, 0xB6]"

definition sfx_closed :: string where \<comment> \<open>driver request cancelled\<close>
  "sfx_closed =
     '': '' @ utf8 [0xE9, 0xA9, 0xB1, 0xE5, 0x8A, 0xA8, 0xE8, 0xAF, 0xB7, 0xE6, 0xB1, 0x82, 0xE5,
     0xB7, 0xB2, 0xE5, 0x8F, 0x96, 0xE6, 0xB6, 0x88]"

definition msg_pool_closed :: string where \<comment> \<open>pool is closed\<close>
  "msg_pool_closed =
     utf8 [0xE8, 0xBF, 0x9E, 0xE6, 0x8E, 0xA5, 0xE6, 0xB1, 0xA0, 0xE5, 0xB7, 0xB2, 0xE5, 0x85,
     0xB3, 0xE9, 0x97, 0xAD]"

definition msg_pool_closing :: string where \<comment> \<open>pool is closing\<close>
  "msg_pool_closing =
     utf8 [0xE8, 0xBF, 0x9E, 0xE6, 0x8E, 0xA5, 0xE6, 0xB1, 0xA0, 0xE6, 0xAD, 0xA3, 0xE5, 0x9C,
     0xA8, 0xE5, 0x85, 0xB3, 0xE9, 0x97, 0xAD]"

definition msg_close_timeout :: string where \<comment> \<open>close timed out waiting for operations in flight\<close>
  "msg_close_timeout =
     ''close '' @ utf8 [0xE7, 0xAD, 0x89, 0xE5, 0xBE, 0x85, 0xE5, 0x9C, 0xA8, 0xE9, 0x80, 0x94,
     0xE6, 0x93, 0x8D, 0xE4, 0xBD, 0x9C, 0xE8, 0xB6, 0x85, 0xE6, 0x97, 0xB6]"

definition msg_activity_closed :: string where \<comment> \<open>lifecycle notification channel closed\<close>
  "msg_activity_closed =
     utf8 [0xE7, 0x94, 0x9F, 0xE5, 0x91, 0xBD, 0xE5, 0x91, 0xA8, 0xE6, 0x9C, 0x9F, 0xE9, 0x80,
     0x9A, 0xE7, 0x9F, 0xA5, 0xE9, 0x80, 0x9A, 0xE9, 0x81, 0x93, 0xE5, 0xB7, 0xB2, 0xE5, 0x85,
     0xB3, 0xE9, 0x97, 0xAD]"

definition msg_next_negative :: string where \<comment> \<open>next offset must not be negative\<close>
  "msg_next_negative =
     ''next offset '' @ utf8 [0xE4, 0xB8, 0x8D, 0xE8, 0x83, 0xBD, 0xE4, 0xB8, 0xBA, 0xE8, 0xB4,
     0x9F]"

definition msg_commit_negative :: string where \<comment> \<open>commit offset must not be negative\<close>
  "msg_commit_negative =
     ''commit offset '' @ utf8 [0xE4, 0xB8, 0x8D, 0xE8, 0x83, 0xBD, 0xE4, 0xB8, 0xBA, 0xE8, 0xB4,
     0x9F]"

definition msg_commit_overflow :: string where \<comment> \<open>commit offset overflows i64\<close>
  "msg_commit_overflow =
     ''commit offset '' @ utf8 [0xE6, 0xBA, 0xA2, 0xE5, 0x87, 0xBA] @ '' i64''"

definition msg_offset_line :: string where \<comment> \<open>offset line\<close>
  "msg_offset_line =
     ''offset '' @ utf8 [0xE8, 0xA1, 0x8C] @ '' ''"

definition msg_missing :: string where \<comment> \<open>missing\<close>
  "msg_missing =
     '': '' @ utf8 [0xE7, 0xBC, 0xBA, 0xE5, 0xB0, 0x91] @ '' ''"

definition msg_invalid :: string where \<comment> \<open>invalid\<close>
  "msg_invalid =
     '' '' @ utf8 [0xE9, 0x9D, 0x9E, 0xE6, 0xB3, 0x95]"

definition msg_topic_empty :: string where \<comment> \<open>topic must not be empty\<close>
  "msg_topic_empty =
     ''topic '' @ utf8 [0xE4, 0xB8, 0x8D, 0xE8, 0x83, 0xBD, 0xE4, 0xB8, 0xBA, 0xE7, 0xA9, 0xBA]"

definition msg_partition_negative :: string where \<comment> \<open>partition must not be negative\<close>
  "msg_partition_negative =
     ''partition '' @ utf8 [0xE4, 0xB8, 0x8D, 0xE8, 0x83, 0xBD, 0xE4, 0xB8, 0xBA, 0xE8, 0xB4,
     0x9F]"

definition msg_partitions_positive :: string where \<comment> \<open>partitions must be positive\<close>
  "msg_partitions_positive =
     ''partitions '' @ utf8 [0xE5, 0xBF, 0x85, 0xE9, 0xA1, 0xBB, 0xE5, 0xA4, 0xA7, 0xE4, 0xBA,
     0x8E, 0xE9, 0x9B, 0xB6]"

definition msg_replication_positive :: string where \<comment> \<open>replication must be positive\<close>
  "msg_replication_positive =
     ''replication '' @ utf8 [0xE5, 0xBF, 0x85, 0xE9, 0xA1, 0xBB, 0xE5, 0xA4, 0xA7, 0xE4, 0xBA,
     0x8E, 0xE9, 0x9B, 0xB6]"

definition msg_consumer_topic_empty :: string where \<comment> \<open>consumer topic must not be empty\<close>
  "msg_consumer_topic_empty =
     ''consumer topic '' @ utf8 [0xE4, 0xB8, 0x8D, 0xE8, 0x83, 0xBD, 0xE4, 0xB8, 0xBA, 0xE7,
     0xA9, 0xBA]"

definition msg_consumer_partition_negative :: string where \<comment> \<open>consumer partition must not be negative\<close>
  "msg_consumer_partition_negative =
     ''consumer partition '' @ utf8 [0xE4, 0xB8, 0x8D, 0xE8, 0x83, 0xBD, 0xE4, 0xB8, 0xBA, 0xE8,
     0xB4, 0x9F]"

definition msg_alo_topic_empty :: string where \<comment> \<open>at-least-once topic must not be empty\<close>
  "msg_alo_topic_empty =
     ''at-least-once topic '' @ utf8 [0xE4, 0xB8, 0x8D, 0xE8, 0x83, 0xBD, 0xE4, 0xB8, 0xBA, 0xE7,
     0xA9, 0xBA]"

definition msg_alo_partition_negative :: string where \<comment> \<open>at-least-once partition must not be negative\<close>
  "msg_alo_partition_negative =
     ''at-least-once partition '' @ utf8 [0xE4, 0xB8, 0x8D, 0xE8, 0x83, 0xBD, 0xE4, 0xB8, 0xBA,
     0xE8, 0xB4, 0x9F]"

definition msg_no_pending :: string where \<comment> \<open>no pending message to ack\<close>
  "msg_no_pending =
     utf8 [0xE6, 0x97, 0xA0] @ '' pending '' @ utf8 [0xE6, 0xB6, 0x88, 0xE6, 0x81, 0xAF, 0xE5,
     0x8F, 0xAF] @ '' ack''"

definition msg_alo_terminated :: string where \<comment> \<open>session terminated by drop_pending_unacked, reconnect\<close>
  "msg_alo_terminated =
     ''at-least-once '' @ utf8 [0xE4, 0xBC, 0x9A, 0xE8, 0xAF, 0x9D, 0xE5, 0xB7, 0xB2, 0xE5, 0x9B,
     0xA0] @ '' drop_pending_unacked '' @ utf8 [0xE7, 0xBB, 0x88, 0xE6, 0xAD, 0xA2, 0xEF, 0xBC,
     0x9B, 0xE8, 0xAF, 0xB7, 0xE9, 0x87, 0x8D, 0xE8, 0xBF, 0x9E]"

definition msg_recv_timeout :: string where \<comment> \<open>consumer recv timed out\<close>
  "msg_recv_timeout =
     ''consumer recv '' @ utf8 [0xE8, 0xB6, 0x85, 0xE6, 0x97, 0xB6]"

definition msg_produce_cancelled :: string where \<comment> \<open>produce cancelled by pool close\<close>
  "msg_produce_cancelled =
     ''produce '' @ utf8 [0xE5, 0x9B, 0xA0, 0xE8, 0xBF, 0x9E, 0xE6, 0x8E, 0xA5, 0xE6, 0xB1, 0xA0,
     0xE5, 0x85, 0xB3, 0xE9, 0x97, 0xAD, 0xE8, 0x80, 0x8C, 0xE5, 0x8F, 0x96, 0xE6, 0xB6, 0x88]"

definition msg_produce_timeout :: string where \<comment> \<open>produce timed out waiting for the broker\<close>
  "msg_produce_timeout =
     ''produce '' @ utf8 [0xE7, 0xAD, 0x89, 0xE5, 0xBE, 0x85] @ '' broker '' @ utf8 [0xE7, 0xA1,
     0xAE, 0xE8, 0xAE, 0xA4, 0xE8, 0xB6, 0x85, 0xE6, 0x97, 0xB6]"

definition msg_offset_count_a :: string where \<comment> \<open>acknowledged, but the number of offsets is wrong: expected 1, got\<close>
  "msg_offset_count_a =
     ''producer '' @ utf8 [0xE5, 0xB7, 0xB2, 0xE6, 0x94, 0xB6, 0xE5, 0x88, 0xB0] @ '' broker '' @
     utf8 [0xE7, 0xA1, 0xAE, 0xE8, 0xAE, 0xA4, 0xEF, 0xBC, 0x8C, 0xE4, 0xBD, 0x86] @ '' offset ''
     @ utf8 [0xE6, 0x95, 0xB0, 0xE9, 0x87, 0x8F, 0xE5, 0xBC, 0x82, 0xE5, 0xB8, 0xB8, 0xEF, 0xBC,
     0x88, 0xE6, 0x9C, 0x9F, 0xE6, 0x9C, 0x9B] @ '' 1'' @ utf8 [0xEF, 0xBC, 0x8C, 0xE5, 0xAE,
     0x9E, 0xE9, 0x99, 0x85] @ '' ''"

definition msg_offset_count_b :: string where \<comment> \<open>partition\<close>
  "msg_offset_count_b =
     utf8 [0xEF, 0xBC, 0x8C, 0xE5, 0x88, 0x86, 0xE5, 0x8C, 0xBA] @ '' ''"

definition msg_offset_count_c :: string where \<comment> \<open>closing bracket\<close>
  "msg_offset_count_c =
     utf8 [0xEF, 0xBC, 0x89]"

definition msg_unconnected :: string where \<comment> \<open>not connected, use connect or connect_from_env\<close>
  "msg_unconnected =
     utf8 [0xE8, 0xBF, 0x9E, 0xE6, 0x8E, 0xA5, 0xE6, 0x9C, 0xAA, 0xE5, 0xBB, 0xBA, 0xE7, 0xAB, 0x8B, 0xEF, 0xBC, 0x9A, 0xE8, 0xAF, 0xB7, 0xE4, 0xBD, 0xBF, 0xE7, 0x94, 0xA8] @ '' KafkaPool::connect '' @ utf8 [0xE6, 0x88, 0x96] @ '' connect_from_env''"

definition msg_list_topics_cancelled :: string where \<comment> \<open>list_topics cancelled by pool close\<close>
  "msg_list_topics_cancelled =
     ''list_topics '' @ utf8 [0xE5, 0x9B, 0xA0, 0xE8, 0xBF, 0x9E, 0xE6, 0x8E, 0xA5, 0xE6, 0xB1,
     0xA0, 0xE5, 0x85, 0xB3, 0xE9, 0x97, 0xAD, 0xE8, 0x80, 0x8C, 0xE5, 0x8F, 0x96, 0xE6, 0xB6,
     0x88]"

definition msg_list_topics_timeout :: string where \<comment> \<open>list_topics timed out\<close>
  "msg_list_topics_timeout =
     ''list_topics '' @ utf8 [0xE8, 0xB6, 0x85, 0xE6, 0x97, 0xB6]"

definition msg_partition_client_cancelled :: string where \<comment> \<open>partition_client cancelled by pool close\<close>
  "msg_partition_client_cancelled =
     ''partition_client '' @ utf8 [0xE5, 0x9B, 0xA0, 0xE8, 0xBF, 0x9E, 0xE6, 0x8E, 0xA5, 0xE6,
     0xB1, 0xA0, 0xE5, 0x85, 0xB3, 0xE9, 0x97, 0xAD, 0xE8, 0x80, 0x8C, 0xE5, 0x8F, 0x96, 0xE6,
     0xB6, 0x88]"

definition msg_partition_client_timeout :: string where \<comment> \<open>partition_client timed out\<close>
  "msg_partition_client_timeout =
     ''partition_client '' @ utf8 [0xE8, 0xB6, 0x85, 0xE6, 0x97, 0xB6]"

definition msg_create_topic_cancelled :: string where \<comment> \<open>create_topic cancelled by pool close\<close>
  "msg_create_topic_cancelled =
     ''create_topic '' @ utf8 [0xE5, 0x9B, 0xA0, 0xE8, 0xBF, 0x9E, 0xE6, 0x8E, 0xA5, 0xE6, 0xB1,
     0xA0, 0xE5, 0x85, 0xB3, 0xE9, 0x97, 0xAD, 0xE8, 0x80, 0x8C, 0xE5, 0x8F, 0x96, 0xE6, 0xB6,
     0x88]"

definition msg_create_topic_timeout :: string where \<comment> \<open>create_topic timed out\<close>
  "msg_create_topic_timeout =
     ''create_topic '' @ utf8 [0xE8, 0xB6, 0x85, 0xE6, 0x97, 0xB6]"

definition msg_delete_topic_cancelled :: string where \<comment> \<open>delete_topic cancelled by pool close\<close>
  "msg_delete_topic_cancelled =
     ''delete_topic '' @ utf8 [0xE5, 0x9B, 0xA0, 0xE8, 0xBF, 0x9E, 0xE6, 0x8E, 0xA5, 0xE6, 0xB1,
     0xA0, 0xE5, 0x85, 0xB3, 0xE9, 0x97, 0xAD, 0xE8, 0x80, 0x8C, 0xE5, 0x8F, 0x96, 0xE6, 0xB6,
     0x88]"

definition msg_delete_topic_timeout :: string where \<comment> \<open>delete_topic timed out\<close>
  "msg_delete_topic_timeout =
     ''delete_topic '' @ utf8 [0xE8, 0xB6, 0x85, 0xE6, 0x97, 0xB6]"

definition msg_connect_timeout :: string where \<comment> \<open>connect timed out\<close>
  "msg_connect_timeout =
     ''kafkax connect '' @ utf8 [0xE8, 0xB6, 0x85, 0xE6, 0x97, 0xB6]"

definition msg_sasl_incomplete :: string where \<comment> \<open>SASL mechanism set but username or password missing\<close>
  "msg_sasl_incomplete =
     ''SASL '' @ utf8 [0xE6, 0x9C, 0xBA, 0xE5, 0x88, 0xB6, 0xE5, 0xB7, 0xB2, 0xE8, 0xAE, 0xBE, 0xE7, 0xBD, 0xAE, 0xE4, 0xBD, 0x86, 0xE7, 0xBC, 0xBA, 0xE5, 0xB0, 0x91] @ '' username/password''"

definition msg_brokers_empty :: string where \<comment> \<open>brokers must not be empty\<close>
  "msg_brokers_empty =
     ''brokers '' @ utf8 [0xE4, 0xB8, 0x8D, 0xE8, 0x83, 0xBD, 0xE4, 0xB8, 0xBA, 0xE7, 0xA9, 0xBA]"

definition msg_timeout_zero :: string where \<comment> \<open>timeouts must be positive\<close>
  "msg_timeout_zero =
     ''timeout '' @ utf8 [0xE5, 0xBF, 0x85, 0xE9, 0xA1, 0xBB, 0xE5, 0xA4, 0xA7, 0xE4, 0xBA, 0x8E,
     0xE9, 0x9B, 0xB6]"

definition msg_ca_without_tls :: string where \<comment> \<open>tls_ca_file requires TLS\<close>
  "msg_ca_without_tls =
     utf8 [0xE9, 0x85, 0x8D, 0xE7, 0xBD, 0xAE] @ '' tls_ca_file '' @ utf8 [0xE6, 0x97, 0xB6,
     0xE5, 0xBF, 0x85, 0xE9, 0xA1, 0xBB, 0xE5, 0x90, 0xAF, 0xE7, 0x94, 0xA8] @ '' TLS''"

definition msg_no_broker :: string where \<comment> \<open>brokers must hold at least one address\<close>
  "msg_no_broker =
     ''brokers '' @ utf8 [0xE8, 0x87, 0xB3, 0xE5, 0xB0, 0x91, 0xE5, 0x8C, 0x85, 0xE5, 0x90, 0xAB,
     0xE4, 0xB8, 0x80, 0xE4, 0xB8, 0xAA, 0xE6, 0x9C, 0x89, 0xE6, 0x95, 0x88, 0xE5, 0x9C, 0xB0,
     0xE5, 0x9D, 0x80]"

definition msg_remote_plain_a :: string where \<comment> \<open>remote broker\<close>
  "msg_remote_plain_a =
     utf8 [0xE8, 0xBF, 0x9C, 0xE7, 0xA8, 0x8B] @ utf8 [0x20, 0x62, 0x72, 0x6F, 0x6B, 0x65, 0x72,
     0x20, 0x60]"

definition msg_remote_plain_b :: string where \<comment> \<open>must use TLS\<close>
  "msg_remote_plain_b =
     utf8 [0x60, 0x20] @ utf8 [0xE5, 0xBF, 0x85, 0xE9, 0xA1, 0xBB, 0xE5, 0x90, 0xAF, 0xE7, 0x94,
     0xA8] @ '' TLS''"

definition msg_only_plain_a :: string where \<comment> \<open>only SASL/PLAIN is supported, mechanism rejected\<close>
  "msg_only_plain_a =
     utf8 [0xE5, 0xBD, 0x93, 0xE5, 0x89, 0x8D, 0xE4, 0xBB, 0x85, 0xE6, 0x94, 0xAF, 0xE6, 0x8C,
     0x81] @ '' SASL/PLAIN'' @ utf8 [0xEF, 0xBC, 0x8C, 0xE6, 0x8B, 0x92, 0xE7, 0xBB, 0x9D, 0xE6,
     0x9C, 0xBA, 0xE5, 0x88, 0xB6] @ utf8 [0x20, 0x60]"

definition msg_only_plain_b :: string where \<comment> \<open>closing quote\<close>
  "msg_only_plain_b =
     utf8 [0x60]"

definition msg_no_username :: string where \<comment> \<open>SASL enabled but username missing\<close>
  "msg_no_username =
     utf8 [0xE5, 0xB7, 0xB2, 0xE5, 0x90, 0xAF, 0xE7, 0x94, 0xA8] @ '' SASL '' @ utf8 [0xE4, 0xBD,
     0x86, 0xE7, 0xBC, 0xBA, 0xE5, 0xB0, 0x91] @ '' username''"

definition msg_no_password :: string where \<comment> \<open>SASL enabled but password missing\<close>
  "msg_no_password =
     utf8 [0xE5, 0xB7, 0xB2, 0xE5, 0x90, 0xAF, 0xE7, 0x94, 0xA8] @ '' SASL '' @ utf8 [0xE4, 0xBD,
     0x86, 0xE7, 0xBC, 0xBA, 0xE5, 0xB0, 0x91] @ '' password''"

definition msg_stray_credentials :: string where \<comment> \<open>SASL credentials given but PLAIN not enabled\<close>
  "msg_stray_credentials =
     utf8 [0xE6, 0x8F, 0x90, 0xE4, 0xBE, 0x9B, 0xE4, 0xBA, 0x86] @ '' SASL '' @ utf8 [0xE5, 0x87,
     0xAD, 0xE6, 0x8D, 0xAE, 0xE4, 0xBD, 0x86, 0xE6, 0x9C, 0xAA, 0xE5, 0x90, 0xAF, 0xE7, 0x94,
     0xA8] @ '' PLAIN '' @ utf8 [0xE6, 0x9C, 0xBA, 0xE5, 0x88, 0xB6]"

definition msg_client_id_empty :: string where \<comment> \<open>client_id must not be empty\<close>
  "msg_client_id_empty =
     ''client_id '' @ utf8 [0xE4, 0xB8, 0x8D, 0xE8, 0x83, 0xBD, 0xE4, 0xB8, 0xBA, 0xE7, 0xA9,
     0xBA]"

definition msg_broker_invalid :: string where \<comment> \<open>broker address invalid\<close>
  "msg_broker_invalid =
     ''broker '' @ utf8 [0xE5, 0x9C, 0xB0, 0xE5, 0x9D, 0x80, 0xE9, 0x9D, 0x9E, 0xE6, 0xB3, 0x95]
     @ '': ''"

definition msg_userinfo :: string where \<comment> \<open>userinfo in the broker address is forbidden\<close>
  "msg_userinfo =
     ''broker '' @ utf8 [0xE5, 0x9C, 0xB0, 0xE5, 0x9D, 0x80, 0xE7, 0xA6, 0x81, 0xE6, 0xAD, 0xA2,
     0xE5, 0x86, 0x85, 0xE5, 0xB5, 0x8C] @ '' userinfo''"

definition msg_no_host :: string where \<comment> \<open>broker without host\<close>
  "msg_no_host =
     ''broker '' @ utf8 [0xE7, 0xBC, 0xBA, 0xE5, 0xB0, 0x91] @ '' host''"

definition msg_env_invalid :: string where \<comment> \<open>is invalid\<close>
  "msg_env_invalid =
     '' '' @ utf8 [0xE9, 0x9D, 0x9E, 0xE6, 0xB3, 0x95] @ '': ''"

definition msg_toml_parse :: string where \<comment> \<open>TOML parsing failed\<close>
  "msg_toml_parse =
     ''TOML '' @ utf8 [0xE8, 0xA7, 0xA3, 0xE6, 0x9E, 0x90, 0xE5, 0xA4, 0xB1, 0xE8, 0xB4, 0xA5] @
     '': ''"

definition msg_toml_invalid :: string where \<comment> \<open>TOML configuration invalid\<close>
  "msg_toml_invalid =
     ''TOML '' @ utf8 [0xE9, 0x85, 0x8D, 0xE7, 0xBD, 0xAE, 0xE9, 0x9D, 0x9E, 0xE6, 0xB3, 0x95] @
     '': ''"

definition msg_toml_root :: string where \<comment> \<open>TOML root must be a table\<close>
  "msg_toml_root =
     ''TOML '' @ utf8 [0xE6, 0xA0, 0xB9, 0xE5, 0xBF, 0x85, 0xE9, 0xA1, 0xBB, 0xE4, 0xB8, 0xBA,
     0xE8, 0xA1, 0xA8]"

definition msg_toml_forbidden :: string where \<comment> \<open>forbidden TOML field\<close>
  "msg_toml_forbidden =
     ''TOML '' @ utf8 [0xE7, 0xA6, 0x81, 0xE6, 0xAD, 0xA2, 0xE5, 0xAD, 0x97, 0xE6, 0xAE, 0xB5] @
     '' ''"

definition msg_span_a :: string where \<comment> \<open>line\<close>
  "msg_span_a =
     utf8 [0xEF, 0xBC, 0x88, 0xE7, 0xAC, 0xAC] @ '' ''"

definition msg_span_b :: string where \<comment> \<open>byte range\<close>
  "msg_span_b =
     '' '' @ utf8 [0xE8, 0xA1, 0x8C, 0xEF, 0xBC, 0x8C, 0xE5, 0xAD, 0x97, 0xE8, 0x8A, 0x82, 0xE5,
     0x8C, 0xBA, 0xE9, 0x97, 0xB4] @ '' ''"

definition msg_nanos_range :: string where \<comment> \<open>nanos must be in range\<close>
  "msg_nanos_range =
     ''nanos '' @ utf8 [0xE5, 0xBF, 0x85, 0xE9, 0xA1, 0xBB, 0xE5, 0x9C, 0xA8] @ '' 0..=999999999 '' @ utf8 [0xE4, 0xB9, 0x8B, 0xE9, 0x97, 0xB4]"

definition msg_duration_overflow :: string where \<comment> \<open>duration out of range\<close>
  "msg_duration_overflow =
     utf8 [0xE6, 0x97, 0xB6, 0xE9, 0x95, 0xBF, 0xE8, 0xB6, 0x85, 0xE5, 0x87, 0xBA] @ '' Duration '' @ utf8 [0xE8, 0xA1, 0xA8, 0xE7, 0xA4, 0xBA, 0xE8, 0x8C, 0x83, 0xE5, 0x9B, 0xB4]"

definition msg_crypto_provider :: string where \<comment> \<open>TLS crypto provider installation failed\<close>
  "msg_crypto_provider =
     ''TLS crypto provider '' @ utf8 [0xE5, 0xAE, 0x89, 0xE8, 0xA3, 0x85, 0xE5, 0xA4, 0xB1, 0xE8,
     0xB4, 0xA5] @ '': ''"

definition msg_ca_stat :: string where \<comment> \<open>cannot inspect the TLS CA file\<close>
  "msg_ca_stat =
     utf8 [0xE6, 0x97, 0xA0, 0xE6, 0xB3, 0x95, 0xE6, 0xA3, 0x80, 0xE6, 0x9F, 0xA5] @ '' TLS CA ''
     @ utf8 [0xE6, 0x96, 0x87, 0xE4, 0xBB, 0xB6] @ '': ''"

definition msg_ca_not_file :: string where \<comment> \<open>the TLS CA path must be a regular file\<close>
  "msg_ca_not_file =
     ''TLS CA '' @ utf8 [0xE8, 0xB7, 0xAF, 0xE5, 0xBE, 0x84, 0xE5, 0xBF, 0x85, 0xE9, 0xA1, 0xBB,
     0xE6, 0x98, 0xAF, 0xE6, 0x99, 0xAE, 0xE9, 0x80, 0x9A, 0xE6, 0x96, 0x87, 0xE4, 0xBB, 0xB6]"

definition msg_ca_too_large :: string where \<comment> \<open>the TLS CA file must not exceed 1 MiB\<close>
  "msg_ca_too_large =
     ''TLS CA '' @ utf8 [0xE6, 0x96, 0x87, 0xE4, 0xBB, 0xB6, 0xE4, 0xB8, 0x8D, 0xE5, 0xBE, 0x97,
     0xE8, 0xB6, 0x85, 0xE8, 0xBF, 0x87] @ '' 1 MiB''"

definition msg_ca_open :: string where \<comment> \<open>cannot read the TLS CA file\<close>
  "msg_ca_open =
     utf8 [0xE6, 0x97, 0xA0, 0xE6, 0xB3, 0x95, 0xE8, 0xAF, 0xBB, 0xE5, 0x8F, 0x96] @ '' TLS CA ''
     @ utf8 [0xE6, 0x96, 0x87, 0xE4, 0xBB, 0xB6] @ '': ''"

definition msg_ca_pem :: string where \<comment> \<open>TLS CA PEM parsing failed\<close>
  "msg_ca_pem =
     ''TLS CA PEM '' @ utf8 [0xE8, 0xA7, 0xA3, 0xE6, 0x9E, 0x90, 0xE5, 0xA4, 0xB1, 0xE8, 0xB4,
     0xA5] @ '': ''"

definition msg_ca_empty :: string where \<comment> \<open>no certificate in the TLS CA file\<close>
  "msg_ca_empty =
     ''TLS CA '' @ utf8 [0xE6, 0x96, 0x87, 0xE4, 0xBB, 0xB6, 0xE4, 0xB8, 0xAD, 0xE6, 0xB2, 0xA1,
     0xE6, 0x9C, 0x89, 0xE8, 0xAF, 0x81, 0xE4, 0xB9, 0xA6]"

definition msg_ca_cert :: string where \<comment> \<open>TLS CA certificate invalid\<close>
  "msg_ca_cert =
     ''TLS CA '' @ utf8 [0xE8, 0xAF, 0x81, 0xE4, 0xB9, 0xA6, 0xE6, 0x97, 0xA0, 0xE6, 0x95, 0x88]
     @ '': ''"

definition msg_tls_task :: string where \<comment> \<open>TLS configuration task failed\<close>
  "msg_tls_task =
     ''TLS '' @ utf8 [0xE9, 0x85, 0x8D, 0xE7, 0xBD, 0xAE, 0xE4, 0xBB, 0xBB, 0xE5, 0x8A, 0xA1,
     0xE5, 0xA4, 0xB1, 0xE8, 0xB4, 0xA5] @ '': ''"

end
