(* ===== verification/Errors.thy ===== *)
theory Errors
  imports Messages
begin

text \<open>
  \<open>src/error.rs\<close>: the crate's error type, its \<open>Display\<close> text, the retry verdict
  \<open>is_retryable\<close> and the metric label \<open>kind\<close>.
\<close>

section \<open>I/O errors of the standard library\<close>

text \<open>\<open>std::io::ErrorKind\<close>, and an \<open>io::Error\<close> as its kind with its \<open>Display\<close> text.\<close>

datatype (plugins only: code) error_kind =
    NotFound | PermissionDenied | ConnectionRefused | ConnectionReset | HostUnreachable
  | NetworkUnreachable | ConnectionAborted | NotConnected | AddrInUse | AddrNotAvailable
  | NetworkDown | BrokenPipe | AlreadyExists | WouldBlock | NotADirectory | IsADirectory
  | DirectoryNotEmpty | ReadOnlyFilesystem | StaleNetworkFileHandle | InvalidInput | InvalidData
  | TimedOut | WriteZero | StorageFull | NotSeekable | QuotaExceeded | FileTooLarge
  | ResourceBusy | ExecutableFileBusy | Deadlock | CrossesDevices | TooManyLinks
  | InvalidFilename | ArgumentListTooLong | Interrupted | UnsupportedOperation | UnexpectedEof
  | OutOfMemory | Other

datatype io_error = IoError (io_kind: error_kind) (io_text: string)

section \<open>The error type\<close>

datatype kafka_error =
    Config string
  | Connection string
  | Backend string
  | Transient string
  | Serialization string
  | Io io_error
  | Timeout string
  | Unsupported string
  | Closed string

type_synonym 'a kafka_result = "kafka_error + 'a"

definition display_error :: "kafka_error \<Rightarrow> string" where
  "display_error e =
     (case e of
        Config m \<Rightarrow> disp_config @ m
      | Connection m \<Rightarrow> disp_connection @ m
      | Backend m \<Rightarrow> disp_backend @ m
      | Transient m \<Rightarrow> disp_transient @ m
      | Serialization m \<Rightarrow> disp_serialization @ m
      | Io io \<Rightarrow> disp_io @ io_text io
      | Timeout m \<Rightarrow> disp_timeout @ m
      | Unsupported m \<Rightarrow> disp_unsupported @ m
      | Closed m \<Rightarrow> disp_closed @ m)"

text \<open>The retry verdict: the I/O kinds are those of the \<open>matches!\<close> in the source.\<close>

definition is_retryable :: "kafka_error \<Rightarrow> bool" where
  "is_retryable e =
     (case e of
        Connection _ \<Rightarrow> True
      | Transient _ \<Rightarrow> True
      | Timeout _ \<Rightarrow> True
      | Config _ \<Rightarrow> False
      | Backend _ \<Rightarrow> False
      | Serialization _ \<Rightarrow> False
      | Unsupported _ \<Rightarrow> False
      | Closed _ \<Rightarrow> False
      | Io io \<Rightarrow>
          (case io_kind io of
             TimedOut \<Rightarrow> True
           | Interrupted \<Rightarrow> True
           | WouldBlock \<Rightarrow> True
           | WriteZero \<Rightarrow> True
           | StorageFull \<Rightarrow> True
           | _ \<Rightarrow> False))"

definition error_kind_name :: "kafka_error \<Rightarrow> string" where
  "error_kind_name e =
     (case e of
        Config _ \<Rightarrow> ''config''
      | Connection _ \<Rightarrow> ''connection''
      | Backend _ \<Rightarrow> ''backend''
      | Transient _ \<Rightarrow> ''transient''
      | Serialization _ \<Rightarrow> ''serialization''
      | Io _ \<Rightarrow> ''io''
      | Timeout _ \<Rightarrow> ''timeout''
      | Unsupported _ \<Rightarrow> ''unsupported''
      | Closed _ \<Rightarrow> ''closed'')"

definition is_closed_error :: "kafka_error \<Rightarrow> bool" where
  "is_closed_error e = (case e of Closed _ \<Rightarrow> True | _ \<Rightarrow> False)"

definition is_config_error :: "kafka_error \<Rightarrow> bool" where
  "is_config_error e = (case e of Config _ \<Rightarrow> True | _ \<Rightarrow> False)"

section \<open>Facts\<close>

lemma is_retryable_simps [simp, result_simps]:
  "is_retryable (Connection m)" "is_retryable (Transient m)" "is_retryable (Timeout m)"
  "\<not> is_retryable (Config m)" "\<not> is_retryable (Backend m)" "\<not> is_retryable (Serialization m)"
  "\<not> is_retryable (Unsupported m)" "\<not> is_retryable (Closed m)"
  by (simp_all add: is_retryable_def)

lemma is_closed_error_simps [simp, result_simps]:
  "is_closed_error (Closed m)" "\<not> is_closed_error (Connection m)" "\<not> is_closed_error (Transient m)"
  "\<not> is_closed_error (Timeout m)" "\<not> is_closed_error (Config m)" "\<not> is_closed_error (Backend m)"
  "\<not> is_closed_error (Serialization m)" "\<not> is_closed_error (Unsupported m)" "\<not> is_closed_error (Io io)"
  by (simp_all add: is_closed_error_def)

lemma is_config_error_simps [simp, result_simps]:
  "is_config_error (Config m)" "\<not> is_config_error (Connection m)" "\<not> is_config_error (Transient m)"
  "\<not> is_config_error (Timeout m)" "\<not> is_config_error (Closed m)" "\<not> is_config_error (Backend m)"
  "\<not> is_config_error (Serialization m)" "\<not> is_config_error (Unsupported m)" "\<not> is_config_error (Io io)"
  by (simp_all add: is_config_error_def)

lemma is_retryable_io:
  "is_retryable (Io io) \<longleftrightarrow> io_kind io \<in> {TimedOut, Interrupted, WouldBlock, WriteZero, StorageFull}"
  by (cases "io_kind io") (simp_all add: is_retryable_def)

text \<open>A retry verdict is a function of the label, except for I/O errors.\<close>

lemma is_retryable_kind_name:
  "error_kind_name e \<noteq> ''io'' \<Longrightarrow>
     is_retryable e \<longleftrightarrow> error_kind_name e \<in> {''connection'', ''transient'', ''timeout''}"
  by (cases e) (simp_all add: error_kind_name_def)

end
