(* ===== verification/Error_Map.thy ===== *)
theory Error_Map
  imports Errors
begin

text \<open>
  \<open>src/error_map.rs\<close>: driver errors to \<open>KafkaError\<close>. The variants of \<open>rskafka\<close>'s error and
  protocol error enumerations are those the source names, with one constructor each for the
  variants it leaves to its wildcard arm. A driver error is what the mapping reads of it: the
  outcome of the downcast to the \<open>rskafka\<close> error and its \<open>Display\<close> text.
\<close>

section \<open>Driver errors\<close>

datatype (plugins only: code) protocol_error =
    UnknownServerError | LeaderNotAvailable | NotLeaderOrFollower | RequestTimedOut
    | BrokerNotAvailable | ReplicaNotAvailable | NetworkException | KafkaStorageError
    | NotEnoughReplicas | NotEnoughReplicasAfterAppend | StaleControllerEpoch | NotController
    | UnknownTopicOrPartition | UnknownLeaderEpoch | FencedLeaderEpoch | StaleBrokerEpoch
    | PreferredLeaderNotAvailable | EligibleLeadersNotAvailable | UnstableOffsetCommit
    | ThrottlingQuotaExceeded | ConcurrentTransactions | OutOfOrderSequenceNumber
    | DuplicateSequenceNumber | ReassignmentInProgress | InvalidProducerEpoch | UnknownProducerId
    | MessageTooLarge | RecordListTooLarge | OffsetMetadataTooLarge | InvalidTopicException
    | UnknownTopicId | ResourceNotFound | TopicAlreadyExists | InvalidPartitions
    | InvalidReplicationFactor | InvalidReplicaAssignment | InvalidConfig | InvalidRequest
    | InvalidRecord | CorruptMessage | InvalidFetchSize | InvalidTimestamp
    | UnsupportedForMessageFormat | UnsupportedVersion | UnsupportedCompressionType
    | PolicyViolation | TopicAuthorizationFailed | GroupAuthorizationFailed
    | ClusterAuthorizationFailed | TransactionalIdAuthorizationFailed | SaslAuthenticationFailed
    | UnsupportedSaslMechanism | IllegalSaslState | UnacceptableCredential | SecurityDisabled
    | TopicDeletionDisabled | ListenerNotFound | OffsetOutOfRange | PositionOutOfRange
    | InvalidPrincipalType | UnlistedProtocolError

datatype rskafka_error =
    RkConnection | RkRequest | RkRetryFailed | RkTimeout | RkInvalidResponse
  | RkServerError protocol_error | RkUnlisted

record driver_error =
  downcast_rskafka :: "rskafka_error option"
  driver_text :: string

section \<open>Classification\<close>

datatype classified = ClConnection | ClBackend | ClTransient | ClTimeout | ClClosed

fun classify_protocol :: "protocol_error \<Rightarrow> classified" where
  "classify_protocol UnknownServerError = ClTransient"
| "classify_protocol LeaderNotAvailable = ClTransient"
| "classify_protocol NotLeaderOrFollower = ClTransient"
| "classify_protocol RequestTimedOut = ClTransient"
| "classify_protocol BrokerNotAvailable = ClTransient"
| "classify_protocol ReplicaNotAvailable = ClTransient"
| "classify_protocol NetworkException = ClTransient"
| "classify_protocol KafkaStorageError = ClTransient"
| "classify_protocol NotEnoughReplicas = ClTransient"
| "classify_protocol NotEnoughReplicasAfterAppend = ClTransient"
| "classify_protocol StaleControllerEpoch = ClTransient"
| "classify_protocol NotController = ClTransient"
| "classify_protocol UnknownTopicOrPartition = ClTransient"
| "classify_protocol UnknownLeaderEpoch = ClTransient"
| "classify_protocol FencedLeaderEpoch = ClTransient"
| "classify_protocol StaleBrokerEpoch = ClTransient"
| "classify_protocol PreferredLeaderNotAvailable = ClTransient"
| "classify_protocol EligibleLeadersNotAvailable = ClTransient"
| "classify_protocol UnstableOffsetCommit = ClTransient"
| "classify_protocol ThrottlingQuotaExceeded = ClTransient"
| "classify_protocol ConcurrentTransactions = ClTransient"
| "classify_protocol OutOfOrderSequenceNumber = ClTransient"
| "classify_protocol DuplicateSequenceNumber = ClTransient"
| "classify_protocol ReassignmentInProgress = ClTransient"
| "classify_protocol InvalidProducerEpoch = ClTransient"
| "classify_protocol UnknownProducerId = ClTransient"
| "classify_protocol MessageTooLarge = ClBackend"
| "classify_protocol RecordListTooLarge = ClBackend"
| "classify_protocol OffsetMetadataTooLarge = ClBackend"
| "classify_protocol InvalidTopicException = ClBackend"
| "classify_protocol UnknownTopicId = ClBackend"
| "classify_protocol ResourceNotFound = ClBackend"
| "classify_protocol TopicAlreadyExists = ClBackend"
| "classify_protocol InvalidPartitions = ClBackend"
| "classify_protocol InvalidReplicationFactor = ClBackend"
| "classify_protocol InvalidReplicaAssignment = ClBackend"
| "classify_protocol InvalidConfig = ClBackend"
| "classify_protocol InvalidRequest = ClBackend"
| "classify_protocol InvalidRecord = ClBackend"
| "classify_protocol CorruptMessage = ClBackend"
| "classify_protocol InvalidFetchSize = ClBackend"
| "classify_protocol InvalidTimestamp = ClBackend"
| "classify_protocol UnsupportedForMessageFormat = ClBackend"
| "classify_protocol UnsupportedVersion = ClBackend"
| "classify_protocol UnsupportedCompressionType = ClBackend"
| "classify_protocol PolicyViolation = ClBackend"
| "classify_protocol TopicAuthorizationFailed = ClBackend"
| "classify_protocol GroupAuthorizationFailed = ClBackend"
| "classify_protocol ClusterAuthorizationFailed = ClBackend"
| "classify_protocol TransactionalIdAuthorizationFailed = ClBackend"
| "classify_protocol SaslAuthenticationFailed = ClBackend"
| "classify_protocol UnsupportedSaslMechanism = ClBackend"
| "classify_protocol IllegalSaslState = ClBackend"
| "classify_protocol UnacceptableCredential = ClBackend"
| "classify_protocol SecurityDisabled = ClBackend"
| "classify_protocol TopicDeletionDisabled = ClBackend"
| "classify_protocol ListenerNotFound = ClBackend"
| "classify_protocol OffsetOutOfRange = ClBackend"
| "classify_protocol PositionOutOfRange = ClBackend"
| "classify_protocol InvalidPrincipalType = ClBackend"
| "classify_protocol UnlistedProtocolError = ClBackend"

fun classify_rskafka :: "rskafka_error \<Rightarrow> classified" where
  "classify_rskafka RkConnection = ClConnection"
| "classify_rskafka RkRequest = ClConnection"
| "classify_rskafka RkRetryFailed = ClTransient"
| "classify_rskafka RkTimeout = ClTimeout"
| "classify_rskafka RkInvalidResponse = ClBackend"
| "classify_rskafka (RkServerError protocol_error) = classify_protocol protocol_error"
| "classify_rskafka RkUnlisted = ClBackend"

definition contains_any :: "string \<Rightarrow> string list \<Rightarrow> bool" where
  "contains_any text ps = list_ex (contains text) ps"

definition classify_message :: "string \<Rightarrow> classified" where
  "classify_message message =
     (let text = to_ascii_lowercase message in
      if contains_any text
           [''too large'', ''toolarge'', ''too_large'', ''message_size'', ''record_too_large'',
            ''unknown_topic_id'', ''unknown topic id'', ''invalid topic'', ''does not exist'',
            ''not_exist'', ''not found'', ''already exists'']
      then ClBackend
      else if contains_any text [''timeout'', ''timed out''] then ClTimeout
      else if contains_any text [''cancel''] then ClClosed
      else if contains_any text
           [''unknown_topic'', ''unknown topic'', ''not leader'', ''leader'', ''retriable'',
            ''rebalance'', ''network'', ''coordinator'']
      then ClTransient
      else if contains_any text
           [''auth'', ''sasl'', ''ssl'', ''tls'', ''permission'', ''invalid'', ''unsupported'']
      then ClBackend
      else ClConnection)"

definition classify_driver :: "driver_error \<Rightarrow> classified" where
  "classify_driver err =
     (case downcast_rskafka err of
        None \<Rightarrow> classify_message (driver_text err)
      | Some e \<Rightarrow> classify_rskafka e)"

definition map_kafka_error :: "string \<Rightarrow> driver_error \<Rightarrow> kafka_error" where
  "map_kafka_error ctx err =
     (case classify_driver err of
        ClConnection \<Rightarrow> Connection (ctx @ sfx_connection)
      | ClBackend \<Rightarrow> Backend (ctx @ sfx_backend)
      | ClTransient \<Rightarrow> Transient (ctx @ sfx_transient)
      | ClTimeout \<Rightarrow> Timeout (ctx @ sfx_timeout)
      | ClClosed \<Rightarrow> Closed (ctx @ sfx_closed))"

section \<open>Facts\<close>

lemma ascii_lower_idem [simp]: "ascii_lower (ascii_lower c) = ascii_lower c"
proof (cases "0x41 \<le> (of_char c :: nat) \<and> (of_char c :: nat) \<le> 0x5A")
  case True
  then have "(of_char (char_of ((of_char c :: nat) + 32) :: char) :: nat) = of_char c + 32"
    by (simp add: of_char_of)
  with True show ?thesis by (simp add: ascii_lower_def)
qed (auto simp: ascii_lower_def)

lemma to_ascii_lowercase_idem [simp]: "to_ascii_lowercase (to_ascii_lowercase s) = to_ascii_lowercase s"
  by (simp add: to_ascii_lowercase_def)

lemma map_kafka_error_retryable:
  "is_retryable (map_kafka_error ctx err) \<longleftrightarrow>
     classify_driver err \<in> {ClConnection, ClTransient, ClTimeout}"
  by (simp add: map_kafka_error_def split: classified.split)

text \<open>The cascade of \<open>classify_message\<close> as an ordered table of patterns.\<close>

definition message_rules :: "(string list \<times> classified) list" where
  "message_rules =
     [([''too large'', ''toolarge'', ''too_large'', ''message_size'', ''record_too_large'',
        ''unknown_topic_id'', ''unknown topic id'', ''invalid topic'', ''does not exist'',
        ''not_exist'', ''not found'', ''already exists''], ClBackend),
      ([''timeout'', ''timed out''], ClTimeout),
      ([''cancel''], ClClosed),
      ([''unknown_topic'', ''unknown topic'', ''not leader'', ''leader'', ''retriable'',
        ''rebalance'', ''network'', ''coordinator''], ClTransient),
      ([''auth'', ''sasl'', ''ssl'', ''tls'', ''permission'', ''invalid'', ''unsupported''],
        ClBackend)]"

lemma contains_any_iff: "contains_any text ps \<longleftrightarrow> (\<exists>p \<in> set ps. contains text p)"
  by (simp add: contains_any_def list_ex_iff)

section \<open>Properties\<close>

text \<open>C26. Whatever the driver error, the public error is one of five values that are built from
  the context and a fixed text: nothing of the driver's own text reaches the caller.\<close>

theorem public_error_hides_driver_text:
  "map_kafka_error ctx err
     \<in> {Connection (ctx @ sfx_connection), Backend (ctx @ sfx_backend),
        Transient (ctx @ sfx_transient), Timeout (ctx @ sfx_timeout), Closed (ctx @ sfx_closed)}"
  by (simp add: map_kafka_error_def split: classified.split)

text \<open>C35. The retry verdict is exact. For an \<open>rskafka\<close> error the text is never consulted: a lost
  connection, a failed request, exhausted retries and a timeout are retryable, and of the errors the
  server reports exactly the 26 codes listed here, as transient faults; every other code, listed in the
  source or not, is a permanent refusal. Any other driver error is judged by its lower-cased text: it is
  retryable if it has no permanent pattern and either names a timeout, or names no cancellation and
  either has a transient pattern or no pattern of a refusal.\<close>

theorem retry_verdict_exact:
  "(let transient_codes =
        {UnknownServerError, LeaderNotAvailable, NotLeaderOrFollower, RequestTimedOut, BrokerNotAvailable,
         ReplicaNotAvailable, NetworkException, KafkaStorageError, NotEnoughReplicas, NotEnoughReplicasAfterAppend,
         StaleControllerEpoch, NotController, UnknownTopicOrPartition, UnknownLeaderEpoch, FencedLeaderEpoch,
         StaleBrokerEpoch, PreferredLeaderNotAvailable, EligibleLeadersNotAvailable, UnstableOffsetCommit,
         ThrottlingQuotaExceeded, ConcurrentTransactions, OutOfOrderSequenceNumber, DuplicateSequenceNumber,
         ReassignmentInProgress, InvalidProducerEpoch, UnknownProducerId};
        reported = map_kafka_error ctx \<lparr>downcast_rskafka = Some e, driver_text = t\<rparr>
    in (is_retryable reported \<longleftrightarrow>
          e \<in> {RkConnection, RkRequest, RkRetryFailed, RkTimeout} \<union> RkServerError ` transient_codes) \<and>
       reported =
         (if e = RkConnection \<or> e = RkRequest then Connection (ctx @ sfx_connection)
          else if e = RkTimeout then Timeout (ctx @ sfx_timeout)
          else if e = RkRetryFailed \<or> e \<in> RkServerError ` transient_codes then Transient (ctx @ sfx_transient)
          else Backend (ctx @ sfx_backend))) \<and>
   (let has = list_ex (contains (to_ascii_lowercase t))
    in is_retryable (map_kafka_error ctx \<lparr>downcast_rskafka = None, driver_text = t\<rparr>) \<longleftrightarrow>
      \<not> has [''too large'', ''toolarge'', ''too_large'', ''message_size'', ''record_too_large'',
             ''unknown_topic_id'', ''unknown topic id'', ''invalid topic'', ''does not exist'',
             ''not_exist'', ''not found'', ''already exists''] \<and>
      (has [''timeout'', ''timed out''] \<or>
       \<not> has [''cancel''] \<and>
       (has [''unknown_topic'', ''unknown topic'', ''not leader'', ''leader'', ''retriable'',
             ''rebalance'', ''network'', ''coordinator''] \<or>
        \<not> has [''auth'', ''sasl'', ''ssl'', ''tls'', ''permission'', ''invalid'', ''unsupported''])))"
  (is "?structured \<and> ?text")
proof
  show ?text
    unfolding map_kafka_error_retryable classify_driver_def classify_message_def contains_any_def Let_def
    by simp
  show ?structured
  proof (cases e)
    case (RkServerError c)
    then show ?thesis by (cases c) (simp_all add: map_kafka_error_def classify_driver_def image_iff)
  qed (auto simp: map_kafka_error_def classify_driver_def)
qed

lemma retry_verdict_exact_witness:
  "is_retryable (map_kafka_error ''fetch'' \<lparr>downcast_rskafka = Some (RkServerError UnknownTopicOrPartition), driver_text = ''timeout''\<rparr>) \<and>
   \<not> is_retryable (map_kafka_error ''fetch'' \<lparr>downcast_rskafka = Some (RkServerError MessageTooLarge), driver_text = ''timeout''\<rparr>) \<and>
   is_retryable (map_kafka_error ''fetch'' \<lparr>downcast_rskafka = None, driver_text = ''TimeOut, Cancelled''\<rparr>)"
proof -
  have has: "let has = list_ex (contains (to_ascii_lowercase ''TimeOut, Cancelled''))
    in \<not> has [''too large'', ''toolarge'', ''too_large'', ''message_size'', ''record_too_large'',
         ''unknown_topic_id'', ''unknown topic id'', ''invalid topic'', ''does not exist'',
         ''not_exist'', ''not found'', ''already exists''] \<and> has [''timeout'', ''timed out'']"
    by code_simp
  have word: "is_retryable (map_kafka_error ''fetch'' \<lparr>downcast_rskafka = None, driver_text = ''TimeOut, Cancelled''\<rparr>)"
    using retry_verdict_exact [of "''fetch''" RkTimeout "''TimeOut, Cancelled''", THEN conjunct2] has by (simp only: Let_def simp_thms)
  have "is_retryable (map_kafka_error ''fetch'' \<lparr>downcast_rskafka = Some (RkServerError UnknownTopicOrPartition), driver_text = ''timeout''\<rparr>)"
    "\<not> is_retryable (map_kafka_error ''fetch'' \<lparr>downcast_rskafka = Some (RkServerError MessageTooLarge), driver_text = ''timeout''\<rparr>)"
    using retry_verdict_exact [of "''fetch''" "RkServerError UnknownTopicOrPartition" "''timeout''", THEN conjunct1]
      retry_verdict_exact [of "''fetch''" "RkServerError MessageTooLarge" "''timeout''", THEN conjunct1]
    by (simp_all only: Let_def) auto
  with word show ?thesis by blast
qed

text \<open>The text heuristic is the first match of an ordered table of patterns over the
  lower-cased text, a lost connection when nothing matches; in particular it ignores case.\<close>

theorem classify_message_first_match:
  "classify_message m =
     (case find (\<lambda>(ps, c). contains_any (to_ascii_lowercase m) ps) message_rules of
        None \<Rightarrow> ClConnection
      | Some (ps, c) \<Rightarrow> c) \<and>
   classify_message (to_ascii_lowercase m) = classify_message m"
  by (simp add: classify_message_def message_rules_def Let_def)

text \<open>A text that matches a permanent pattern is never retryable, whatever else it contains:
  an \<open>unknown topic id\<close> is not taken for the retryable \<open>unknown topic\<close>.\<close>

theorem permanent_text_not_retryable:
  assumes "downcast_rskafka err = None"
    and "contains_any (to_ascii_lowercase (driver_text err)) (fst (hd message_rules))"
  shows "map_kafka_error ctx err = Backend (ctx @ sfx_backend) \<and>
         \<not> is_retryable (map_kafka_error ctx err)"
proof -
  have "classify_driver err = ClBackend"
    using assms by (simp add: classify_driver_def classify_message_def message_rules_def Let_def)
  then show ?thesis by (simp add: map_kafka_error_def)
qed

theorem permanent_text_not_retryable_witness:
  "\<not> is_retryable (map_kafka_error ''fetch''
      \<lparr>downcast_rskafka = None, driver_text = ''timeout: UNKNOWN topic ID''\<rparr>)"
  by (rule permanent_text_not_retryable [THEN conjunct2]) (simp, code_simp)

end
