(* ===== verification/Message.thy ===== *)
theory Message
  imports Rust_Num
begin

text \<open>
  \<open>src/message.rs\<close>: the broker location codec \<open>topic/partition/offset\<close>, key routing, and the
  record and message types with their builders and accessors. The value of the standard
  library's \<open>DefaultHasher\<close> is not specified by its documentation: the routing is defined for
  any hash function of the key bytes.
\<close>

type_synonym bytes = "u8 list"

text \<open>A record timestamp is opaque to the crate: an instant as an integer.\<close>

type_synonym timestamp = int

section \<open>Broker locations\<close>

definition encode_bus_id :: "string \<Rightarrow> i32 \<Rightarrow> i64 \<Rightarrow> string" where
  "encode_bus_id topic part offset =
     topic @ ''/'' @ show_i32 part @ ''/'' @ show_i64 offset"

definition parse_bus_id :: "string \<Rightarrow> (string \<times> i32 \<times> i64) option" where
  "parse_bus_id s =
     (case rsplitn 3 (CHR ''/'') s of
        [] \<Rightarrow> None
      | p1 # parts1 \<Rightarrow>
          (case parse_i64 p1 of
             None \<Rightarrow> None
           | Some offset \<Rightarrow>
               (case parts1 of
                  [] \<Rightarrow> None
                | p2 # parts2 \<Rightarrow>
                    (case parse_i32 p2 of
                       None \<Rightarrow> None
                     | Some part \<Rightarrow>
                         (case parts2 of
                            [] \<Rightarrow> None
                          | topic # _ \<Rightarrow>
                              if topic = [] then None else Some (topic, part, offset))))))"

section \<open>Key routing\<close>

definition partition_for_key :: "(bytes \<Rightarrow> u64) \<Rightarrow> bytes \<Rightarrow> i32 \<Rightarrow> i32" where
  "partition_for_key finish key partitions =
     (if sint partitions \<le> 1 then 0
      else ucast (finish key mod (scast partitions :: u64)))"

section \<open>Records and messages\<close>

record delivery =
  dl_partition :: i32
  dl_offset :: i64

record publish_record =
  pr_topic :: string
  pr_partition :: i32
  pr_payload :: bytes
  pr_key :: "bytes option"
  pr_headers :: "string \<rightharpoonup> bytes"

definition publish_payload :: "string \<Rightarrow> i32 \<Rightarrow> bytes \<Rightarrow> publish_record" where
  "publish_payload topic part payload =
     \<lparr>pr_topic = topic, pr_partition = part, pr_payload = payload, pr_key = None,
      pr_headers = Map.empty\<rparr>"

definition with_key :: "publish_record \<Rightarrow> bytes \<Rightarrow> publish_record" where
  "with_key r key = r\<lparr>pr_key := Some key\<rparr>"

definition add_header :: "publish_record \<Rightarrow> string \<Rightarrow> bytes \<Rightarrow> publish_record" where
  "add_header r name value = r\<lparr>pr_headers := (pr_headers r)(name \<mapsto> value)\<rparr>"

record kafka_message =
  km_topic :: string
  km_partition :: i32
  km_offset :: i64
  km_payload :: "bytes option"
  km_key :: "bytes option"
  km_headers :: "string \<rightharpoonup> bytes"
  km_timestamp :: "timestamp option"

definition bus_id :: "kafka_message \<Rightarrow> string" where
  "bus_id m = encode_bus_id (km_topic m) (km_partition m) (km_offset m)"

definition message_header :: "kafka_message \<Rightarrow> string \<Rightarrow> bytes option" where
  "message_header m name = km_headers m name"

definition payload_bytes :: "kafka_message \<Rightarrow> bytes" where
  "payload_bytes m = (case km_payload m of Some payload \<Rightarrow> payload | None \<Rightarrow> [])"

section \<open>Facts\<close>

lemma uint_scast_i32:
  assumes "0 \<le> sint (n :: i32)"
  shows "uint (scast n :: u64) = sint n"
proof -
  have "sint n < 2 ^ 31" using sint_lt [of n] by simp
  with assms have "uint (word_of_int (sint n) :: u64) = sint n"
    by (subst uint_word_of_int) (simp add: take_bit_int_eq_self)
  then show ?thesis by (simp only: scast_eq)
qed

lemma rsplitn_encode:
  "rsplitn 3 (CHR ''/'') (encode_bus_id t p off) = [show_i64 off, show_i32 p, t]"
proof -
  have "rsplit_once (CHR ''/'') (encode_bus_id t p off) = Some (t @ ''/'' @ show_i32 p, show_i64 off)"
    using rsplit_once_append [OF show_int_not_in [of "CHR ''/''"], of "t @ ''/'' @ show_i32 p" "sint off"]
    by (simp add: encode_bus_id_def)
  moreover have "rsplit_once (CHR ''/'') (t @ ''/'' @ show_i32 p) = Some (t, show_i32 p)"
    using rsplit_once_append [OF show_int_not_in [of "CHR ''/''"], of t "sint p"] by simp
  ultimately show ?thesis by (simp add: numeral_3_eq_3)
qed

lemma rsplitn_3_pieces:
  "rsplitn 3 c s = [z, y, x] \<longleftrightarrow> s = x @ c # y @ c # z \<and> c \<notin> set y \<and> c \<notin> set z"
proof -
  have "rsplitn 3 c s = [z, y, x] \<longleftrightarrow>
          (\<exists>u. rsplit_once c s = Some (u, z) \<and> rsplit_once c u = Some (x, y))"
    by (auto simp: numeral_3_eq_3 split: option.splits)
  then show ?thesis by (auto simp: rsplit_once_Some)
qed

lemma rsplitn_3_length: "length (rsplitn 3 c s) \<le> 3"
  by (auto simp: numeral_3_eq_3 split: option.splits)

lemma parse_bus_id_Some:
  "parse_bus_id s = Some (t, p, off) \<longleftrightarrow>
     (\<exists>ps os. rsplitn 3 (CHR ''/'') s = [os, ps, t] \<and> t \<noteq> [] \<and>
        parse_i32 ps = Some p \<and> parse_i64 os = Some off)"
  using rsplitn_3_length [of "CHR ''/''" s]
  by (auto simp: parse_bus_id_def split: list.splits option.splits if_splits)

lemma parse_encoded:
  "parse_bus_id (encode_bus_id topic part offset) =
     (if topic = [] then None else Some (topic, part, offset))"
  by (simp add: parse_bus_id_def rsplitn_encode)

section \<open>Properties\<close>

text \<open>Round trip: every location with a non-empty topic, slashes and negative numbers
  included, is read back exactly, and a location with an empty topic is refused.\<close>

theorem bus_id_roundtrip:
  "parse_bus_id (encode_bus_id topic part offset) =
     (if topic = [] then None else Some (topic, part, offset))"
  by (rule parse_encoded)

text \<open>C38. The accepted language: a location is read as \<open>(t, p, o)\<close> exactly when it is a non-empty
  \<open>t\<close>, a slash, slash-free text that \<open>FromStr\<close> reads as the \<open>i32\<close> \<open>p\<close>, a slash, and
  slash-free text it reads as the \<open>i64\<close> \<open>o\<close>; everything else is refused.\<close>

theorem parse_bus_id_iff:
  "parse_bus_id s = Some (t, p, off) \<longleftrightarrow>
     (\<exists>ps os. s = t @ CHR ''/'' # ps @ CHR ''/'' # os \<and> t \<noteq> [] \<and>
        CHR ''/'' \<notin> set ps \<and> CHR ''/'' \<notin> set os \<and>
        parse_i32 ps = Some p \<and> parse_i64 os = Some off)"
  unfolding parse_bus_id_Some rsplitn_3_pieces by blast

text \<open>Two messages have the same location text exactly when topic, partition and offset
  agree, although topics may themselves contain slashes.\<close>

theorem bus_id_injective:
  "bus_id m = bus_id m' \<longleftrightarrow>
     km_topic m = km_topic m' \<and> km_partition m = km_partition m' \<and> km_offset m = km_offset m'"
proof
  assume "bus_id m = bus_id m'"
  then have "[show_i64 (km_offset m), show_i32 (km_partition m), km_topic m] =
             [show_i64 (km_offset m'), show_i32 (km_partition m'), km_topic m']"
    unfolding bus_id_def by (simp only: rsplitn_encode [symmetric])
  then show "km_topic m = km_topic m' \<and> km_partition m = km_partition m' \<and> km_offset m = km_offset m'"
    by (simp add: show_int_inj sint_inj)
qed (simp add: bus_id_def)

text \<open>Key routing is total and in bounds for any hash: partition 0 when at most one partition
  is given, else the unsigned hash modulo the number of partitions. The conversion to \<open>u64\<close>,
  the unsigned remainder and the truncation to \<open>i32\<close> lose nothing.\<close>

theorem partition_for_key_spec:
  "sint (partition_for_key finish key n) =
     (if sint n \<le> 1 then 0 else uint (finish key) mod sint n) \<and>
   0 \<le> sint (partition_for_key finish key n) \<and>
   sint (partition_for_key finish key n) < max 1 (sint n)"
proof (cases "sint n \<le> 1")
  case False
  have n: "sint n < 2 ^ 31" using sint_lt [of n] by simp
  define r where "r = uint (finish key) mod sint n"
  have r: "0 \<le> r" "r < sint n" using False by (simp_all add: r_def)
  have "uint (finish key mod (scast n :: u64)) = r"
    using uint_scast_i32 [of n] False by (simp add: uint_mod r_def)
  then have "ucast (finish key mod (scast n :: u64)) = (word_of_int r :: i32)"
    by (simp only: ucast_eq)
  then have "partition_for_key finish key n = word_of_int r"
    using False by (simp add: partition_for_key_def)
  moreover have "sint (word_of_int r :: i32) = r"
    using r n by (intro sint_of_int_32) (simp_all add: i32_min_def i32_max_def)
  ultimately show ?thesis using r False by (simp add: r_def)
qed (simp add: partition_for_key_def)

text \<open>A tombstone and an empty payload have the same \<open>payload_bytes\<close> and are told apart by
  \<open>payload\<close> alone; every other payload is returned as it is.\<close>

theorem payload_bytes_tombstone:
  "payload_bytes m = [] \<longleftrightarrow> km_payload m = None \<or> km_payload m = Some []"
  by (auto simp: payload_bytes_def split: option.splits)

end
