(* ===== verification/Offset_Store.thy ===== *)
theory Offset_Store
  imports Errors
begin

text \<open>
  \<open>src/offset.rs\<close>, the contract and the in-memory provider. The trait \<open>OffsetCommitStore\<close> is the
  locale \<open>offset_store\<close>: its laws say what a client may rely on, and every client lemma is proved
  from them alone. A stored offset is the next one to read.
\<close>

section \<open>The next offset to read\<close>

definition checked_add_1 :: "i64 \<Rightarrow> i64 option" where
  "checked_add_1 x = (if sint x + 1 \<le> i64_max then Some (x + 1) else None)"

definition next_offset_of :: "i64 \<Rightarrow> i64 kafka_result" where
  "next_offset_of offset =
     (if sint offset < 0 then Inl (Config msg_commit_negative)
      else ok_or (Config msg_commit_overflow) (checked_add_1 offset))"

lemma sint_plus_1: "sint (x :: i64) < i64_max \<Longrightarrow> sint (x + 1) = sint x + 1"
  using sint_bounds_64 [of x]
  by (simp add: sint_word_add i64_max_def i64_min_def signed_take_bit_int_eq_self)

text \<open>The offsets a commit accepts, and the position it then stores.\<close>

definition committable :: "i64 \<Rightarrow> bool" where
  "committable offset = (0 \<le> sint offset \<and> sint offset < i64_max)"

lemma next_offset_of_cases:
  "next_offset_of offset =
     (if sint offset < 0 then Inl (Config msg_commit_negative)
      else if committable offset then Inr (offset + 1)
      else Inl (Config msg_commit_overflow))"
  using sint_bounds_64 [of offset]
  by (auto simp: next_offset_of_def committable_def checked_add_1_def)

lemma next_offset_of_committable [simp]: "committable offset \<Longrightarrow> next_offset_of offset = Inr (offset + 1)"
  by (simp add: next_offset_of_cases committable_def)

lemma next_offset_of_Inr: "next_offset_of offset = Inr n \<longleftrightarrow> committable offset \<and> n = offset + 1"
  by (auto simp: next_offset_of_cases committable_def)

lemma next_offset_of_Inl: "next_offset_of offset = Inl e \<Longrightarrow> \<not> committable offset \<and> is_config_error e"
  by (auto simp: next_offset_of_cases split: if_splits) (simp add: committable_def)

lemma sint_committable: "committable offset \<Longrightarrow> sint (offset + 1) = sint offset + 1"
  by (simp add: committable_def sint_plus_1)

section \<open>Offset tables\<close>

type_synonym offset_key = "string \<times> i32"
type_synonym offset_map = "(offset_key \<times> i64) list"

text \<open>\<open>entry(k).or_insert(n)\<close> followed by \<open>*entry = (*entry).max(n)\<close>.\<close>

definition advance :: "i64 option \<Rightarrow> i64 \<Rightarrow> i64" where
  "advance old n = smax (case old of None \<Rightarrow> n | Some v \<Rightarrow> v) n"

definition entry_max :: "offset_map \<Rightarrow> offset_key \<Rightarrow> i64 \<Rightarrow> offset_map" where
  "entry_max m k n = AList.update k (advance (map_of m k) n) m"

lemma advance_simps [simp]: "advance None n = n" "advance (Some v) n = smax v n"
  by (simp_all add: advance_def)

lemma map_of_entry_max: "map_of (entry_max m k n) = (map_of m)(k \<mapsto> advance (map_of m k) n)"
  by (simp add: entry_max_def update_conv')

lemma keys_entry_max: "fst ` set (entry_max m k n) = insert k (fst ` set m)"
  by (simp add: entry_max_def dom_update image_Un dom_map_of_conv_image_fst [symmetric] update_conv')

lemma distinct_entry_max: "distinct (map fst m) \<Longrightarrow> distinct (map fst (entry_max m k n))"
  by (simp add: entry_max_def distinct_update)

text \<open>One table holds at least the positions of another.\<close>

definition view_le :: "('k \<Rightarrow> i64 option) \<Rightarrow> ('k \<Rightarrow> i64 option) \<Rightarrow> bool" where
  "view_le v w = (\<forall>k a. v k = Some a \<longrightarrow> (\<exists>b. w k = Some b \<and> sint a \<le> sint b))"

lemma view_le_refl [simp, intro]: "view_le v v"
  by (simp add: view_le_def)

lemma view_le_trans [trans]: "view_le u v \<Longrightarrow> view_le v w \<Longrightarrow> view_le u w"
  unfolding view_le_def by (meson order.trans)

lemma view_le_advance [simp, intro]: "view_le v (v(k \<mapsto> advance (v k) n))"
  by (auto simp: view_le_def)

section \<open>The contract\<close>

text \<open>
  \<open>view\<close> is the table a store holds, \<open>inv\<close> what it keeps true, \<open>storable\<close> the topics it can
  represent. A failed commit may have taken effect (the file store can fail after the rename);
  it never has another effect.
\<close>

locale offset_store =
  fixes committed :: "'s \<Rightarrow> string \<Rightarrow> i32 \<Rightarrow> i64 option kafka_result \<times> 's"
    and commit :: "'s \<Rightarrow> string \<Rightarrow> i32 \<Rightarrow> i64 \<Rightarrow> unit kafka_result \<times> 's"
    and view :: "'s \<Rightarrow> offset_key \<Rightarrow> i64 option"
    and inv :: "'s \<Rightarrow> bool"
    and storable :: "string \<Rightarrow> bool"
  assumes committed_frame: "inv s \<Longrightarrow> committed s t p = (r, s') \<Longrightarrow> inv s' \<and> view s' = view s"
    and committed_ok: "inv s \<Longrightarrow> committed s t p = (Inr x, s') \<Longrightarrow> x = view s (t, p)"
    and commit_rejects: "inv s \<Longrightarrow> \<not> committable off \<Longrightarrow>
          \<exists>e. commit s t p off = (Inl e, s) \<and> is_config_error e"
    and commit_ok: "inv s \<Longrightarrow> storable t \<Longrightarrow> committable off \<Longrightarrow>
          commit s t p off = (Inr (), s') \<Longrightarrow>
          view s' = (view s)((t, p) \<mapsto> advance (view s (t, p)) (off + 1))"
    and commit_fails: "inv s \<Longrightarrow> storable t \<Longrightarrow> committable off \<Longrightarrow>
          commit s t p off = (Inl e, s') \<Longrightarrow>
          view s' = view s \<or> view s' = (view s)((t, p) \<mapsto> advance (view s (t, p)) (off + 1))"
    and commit_inv: "inv s \<Longrightarrow> storable t \<Longrightarrow> commit s t p off = (res, s') \<Longrightarrow> inv s'"
begin

lemma commit_cases:
  assumes "inv s" and "storable t" and "commit s t p off = (r, s')"
  obtains (unchanged) "view s' = view s" "\<not> is_ok r"
  | (advanced) "committable off" "view s' = (view s)((t, p) \<mapsto> advance (view s (t, p)) (off + 1))"
proof (cases "committable off")
  case False
  with assms commit_rejects [of s off t p] that(1) show ?thesis by auto
next
  case True
  with assms that show ?thesis
    using commit_ok [of s t off p s'] commit_fails [of s t off p _ s'] by (cases r) auto
qed

lemma commit_monotone:
  assumes "inv s" and "storable t" and "commit s t p off = (r, s')"
  shows "view_le (view s) (view s')"
  using assms by (cases rule: commit_cases) auto

lemma commit_other_keys:
  assumes "inv s" and "storable t" and "commit s t p off = (r, s')" and "k \<noteq> (t, p)"
  shows "view s' k = view s k"
  using assms(1-3) by (cases rule: commit_cases) (use assms(4) in auto)

lemma commit_ok_committable:
  assumes "inv s" and "commit s t p off = (Inr (), s')"
  shows "committable off"
  using commit_rejects [of s off t p] assms by fastforce

lemma commit_reaches:
  assumes "inv s" and "storable t" and "commit s t p off = (Inr (), s')"
  shows "\<exists>n. view s' (t, p) = Some n \<and> sint off + 1 \<le> sint n"
proof -
  have c: "committable off" using assms commit_ok_committable by blast
  with assms have "view s' (t, p) = Some (advance (view s (t, p)) (off + 1))"
    using commit_ok by simp
  then show ?thesis
    using sint_committable [OF c] by (cases "view s (t, p)") (auto simp: sint_smax)
qed

text \<open>A position is only ever written by a commit of the offset just before it.\<close>

lemma commit_origin:
  assumes "inv s" and "storable t" and "commit s t p off = (r, s')"
    and "view s' k = Some n"
  shows "view s k = Some n \<or> (k = (t, p) \<and> committable off \<and> n = off + 1)"
  using assms(1-3)
proof (cases rule: commit_cases)
  case advanced
  then show ?thesis
    using assms(4) smax_cases by (cases "k = (t, p)"; cases "view s k") (auto, metis)
qed (use assms(4) in simp)

end

text \<open>A run of commits against any store, ignoring the results (as a caller that retries may).\<close>

fun commit_all ::
  "('s \<Rightarrow> string \<Rightarrow> i32 \<Rightarrow> i64 \<Rightarrow> unit kafka_result \<times> 's) \<Rightarrow> 's \<Rightarrow> (string \<times> i32 \<times> i64) list \<Rightarrow> 's"
where
  "commit_all cm s [] = s"
| "commit_all cm s ((t, p, off) # rest) = commit_all cm (snd (cm s t p off)) rest"

context offset_store
begin

lemma commit_all_inv:
  "inv s \<Longrightarrow> \<forall>(t, p, off) \<in> set cs. storable t \<Longrightarrow> inv (commit_all commit s cs)"
proof (induction cs arbitrary: s)
  case (Cons c cs)
  obtain t p off where c: "c = (t, p, off)" by (cases c)
  obtain r s' where "commit s t p off = (r, s')" by fastforce
  with Cons c commit_inv show ?case by auto
qed simp

lemma commit_all_monotone:
  "inv s \<Longrightarrow> \<forall>(t, p, off) \<in> set cs. storable t \<Longrightarrow> view_le (view s) (view (commit_all commit s cs))"
proof (induction cs arbitrary: s)
  case (Cons c cs)
  obtain t p off where c: "c = (t, p, off)" by (cases c)
  obtain r s' where s': "commit s t p off = (r, s')" by fastforce
  then have "view_le (view s) (view s')" "inv s'"
    using Cons.prems c commit_monotone commit_inv by auto
  with Cons s' c show ?case by (auto intro: view_le_trans)
qed simp

end

section \<open>The in-memory store\<close>

type_synonym memory_store = offset_map

definition memory_new :: memory_store where
  "memory_new = []"

definition memory_put_next :: "memory_store \<Rightarrow> string \<Rightarrow> i32 \<Rightarrow> i64 \<Rightarrow> unit kafka_result \<times> memory_store" where
  "memory_put_next s topic part next_offset =
     (if sint next_offset < 0 then (Inl (Config msg_next_negative), s)
      else (Inr (), entry_max s (topic, part) next_offset))"

definition memory_committed :: "memory_store \<Rightarrow> string \<Rightarrow> i32 \<Rightarrow> i64 option kafka_result \<times> memory_store" where
  "memory_committed s topic part = (Inr (map_of s (topic, part)), s)"

definition memory_commit :: "memory_store \<Rightarrow> string \<Rightarrow> i32 \<Rightarrow> i64 \<Rightarrow> unit kafka_result \<times> memory_store" where
  "memory_commit s topic part offset =
     (case next_offset_of offset of
        Inl e \<Rightarrow> (Inl e, s)
      | Inr n \<Rightarrow> (Inr (), entry_max s (topic, part) n))"

interpretation memory: offset_store memory_committed memory_commit map_of
  "\<lambda>s. distinct (map fst s)" "\<lambda>_. True"
proof (unfold_locales, goal_cases)
  case (3 s off t p)
  then show ?case
    by (auto simp: memory_commit_def next_offset_of_cases)
next
  case (6 s t p off r s')
  then show ?case
    by (auto simp: memory_commit_def distinct_entry_max split: sum.splits)
qed (auto simp: memory_committed_def memory_commit_def map_of_entry_max)

lemma map_of_commit_all_memory:
  "map_of (commit_all memory_commit s (cs @ [(t, p, off)])) k =
     (let v = map_of (commit_all memory_commit s cs) k in
      if k = (t, p) \<and> committable off then Some (advance v (off + 1)) else v)"
  by (induction cs arbitrary: s) (auto simp: memory_commit_def next_offset_of_cases map_of_entry_max
      committable_def Let_def)

section \<open>Properties\<close>

text \<open>The next offset is computed in \<open>i64\<close> without wrapping: it is exactly \<open>offset + 1\<close>, and a
  negative offset or the largest \<open>i64\<close> is refused with a configuration error instead.\<close>

theorem next_offset_of_exact:
  "(next_offset_of off = Inr n \<longleftrightarrow> 0 \<le> sint off \<and> sint n = sint off + 1) \<and>
   (isl (next_offset_of off) \<longleftrightarrow> sint off < 0 \<or> sint off = i64_max) \<and>
   (case next_offset_of off of Inl e \<Rightarrow> is_config_error e | Inr _ \<Rightarrow> True)"
proof -
  have "sint n = sint off + 1 \<Longrightarrow> 0 \<le> sint off \<Longrightarrow> committable off \<and> n = off + 1"
    using sint_bounds_64 [of n] sint_plus_1 [of off] by (simp add: committable_def flip: sint_inj)
  moreover have "sint off \<le> i64_max" by (rule sint_bounds_64)
  ultimately show ?thesis
    using next_offset_of_Inl [of off]
    by (auto simp: next_offset_of_Inr sint_committable) (auto simp: next_offset_of_cases committable_def
        split: if_splits)
qed

text \<open>The positions that the accepted commits of a run stand for, for one partition.\<close>

definition accepted_positions :: "(string \<times> i32 \<times> i64) list \<Rightarrow> string \<Rightarrow> i32 \<Rightarrow> int set" where
  "accepted_positions cs t p =
     set (map (\<lambda>(_, _, off). sint off + 1) (filter (\<lambda>(t', p', off). t' = t \<and> p' = p \<and> committable off) cs))"

lemma accepted_positions_snoc:
  "accepted_positions (cs @ [(t', p', off)]) t p =
     (if t' = t \<and> p' = p \<and> committable off then insert (sint off + 1) (accepted_positions cs t p)
      else accepted_positions cs t p)"
  by (simp add: accepted_positions_def)

lemma finite_accepted_positions [simp]: "finite (accepted_positions cs t p)"
  by (simp add: accepted_positions_def)

text \<open>After any run of commits against a new in-memory store, the position of a partition is
  the largest accepted offset plus one, none if no commit of it was accepted. The order of the
  commits, repeated commits, refused offsets and other partitions do not matter.\<close>

theorem memory_commits_reach_maximum:
  "map_option sint (map_of (commit_all memory_commit memory_new cs) (t, p)) =
     (if accepted_positions cs t p = {} then None else Some (Max (accepted_positions cs t p)))"
proof (induction cs rule: rev_induct)
  case (snoc c cs)
  obtain t' p' off where c: "c = (t', p', off)" by (cases c)
  show ?case
  proof (cases "t' = t \<and> p' = p \<and> committable off")
    case True
    with snoc.IH show ?thesis
      by (cases "map_of (commit_all memory_commit memory_new cs) (t, p)")
        (auto simp: c map_of_commit_all_memory accepted_positions_snoc sint_committable sint_smax
          max.commute split: if_splits)
  next
    case False
    then have "map_of (commit_all memory_commit memory_new (cs @ [c])) (t, p) =
        map_of (commit_all memory_commit memory_new cs) (t, p)"
      by (auto simp: c map_of_commit_all_memory Let_def)
    moreover have "accepted_positions (cs @ [c]) t p = accepted_positions cs t p"
      using False by (auto simp: c accepted_positions_snoc)
    ultimately show ?thesis using snoc.IH by simp
  qed
qed (simp add: memory_new_def accepted_positions_def)

end
