(* ===== verification/Offset_Text.thy ===== *)
theory Offset_Text
  imports Offset_Store
begin

text \<open>
  \<open>src/offset.rs\<close>, the text of the file provider: the tab-separated lines of an offset table as
  \<open>save_map\<close> writes them and their parser in \<open>load_map\<close>, with the round trip for the topics the
  format can represent.
\<close>

section \<open>The text of an offset table\<close>

definition offset_line :: "offset_key \<times> i64 \<Rightarrow> string" where
  "offset_line e = fst (fst e) @ [tab] @ show_i32 (snd (fst e)) @ [tab] @ show_i64 (snd e)"

definition offset_body :: "offset_map \<Rightarrow> string" where
  "offset_body m = join [newline] (sort (map offset_line m))"

definition parse_field :: "(string \<Rightarrow> 'a option) \<Rightarrow> string option \<Rightarrow> nat \<Rightarrow> string \<Rightarrow> 'a kafka_result" where
  "parse_field from_str value lineno name =
     (case value of
        None \<Rightarrow> Inl (Config (msg_offset_line @ show_nat lineno @ msg_missing @ name))
      | Some raw \<Rightarrow>
          (case from_str (trim raw) of
             None \<Rightarrow> Inl (Config (msg_offset_line @ show_nat lineno @ '': '' @ name @ msg_invalid))
           | Some v \<Rightarrow> Inr v))"

definition nth_part :: "string list \<Rightarrow> nat \<Rightarrow> string option" where
  "nth_part parts i = (if i < length parts then Some (parts ! i) else None)"

definition parse_offset_line :: "nat \<Rightarrow> string \<Rightarrow> (offset_key \<times> i64) kafka_result" where
  "parse_offset_line lineno line =
     (let parts = split_on tab line in
      case nth_part parts 0 of
        None \<Rightarrow> Inl (Config (msg_offset_line @ show_nat lineno @ msg_missing @ ''topic''))
      | Some topic \<Rightarrow>
          and_then (parse_field parse_i32 (nth_part parts 1) lineno ''partition'') (\<lambda>part.
          and_then (parse_field parse_i64 (nth_part parts 2) lineno ''next_offset'') (\<lambda>n.
          Inr ((topic, part), n))))"

definition skipped_line :: "string \<Rightarrow> bool" where
  "skipped_line line = (line = [] \<or> starts_with line ''#'')"

fun load_lines :: "nat \<Rightarrow> string list \<Rightarrow> offset_map \<Rightarrow> offset_map kafka_result" where
  "load_lines index [] m = Inr m"
| "load_lines index (l # ls) m =
     (let line = trim l in
      if skipped_line line then load_lines (Suc index) ls m
      else and_then (parse_offset_line (index + 1) line) (\<lambda>(k, n).
           load_lines (Suc index) ls (AList.update k n m)))"

definition load_text :: "string \<Rightarrow> offset_map kafka_result" where
  "load_text text = load_lines 0 (lines text) []"

section \<open>Topics the text can represent\<close>

text \<open>
  The format has no escapes: a topic must not be empty, hold a tab or a newline, begin with white
  space (lines are trimmed) or begin with the comment sign.
\<close>

definition clean_topic :: "string \<Rightarrow> bool" where
  "clean_topic t =
     (t \<noteq> [] \<and> tab \<notin> set t \<and> newline \<notin> set t \<and> trim_start t = t \<and> hd t \<noteq> CHR ''#'' \<and> utf8_valid t)"

definition clean_map :: "offset_map \<Rightarrow> bool" where
  "clean_map m = (distinct (map fst m) \<and> (\<forall>((t, p), n) \<in> set m. clean_topic t))"

lemma tab_not_after_first: "\<forall>p \<in> set white_space. tab \<notin> set (tl p)"
  by (simp add: white_space_def tab_def)

lemma trim_start_fix: "trim_start t = t \<longleftrightarrow> pattern_length white_space t = 0"
  unfolding trim_start_def by (metis strip_patterns_id strip_patterns_stop)

lemma pattern_length_0_iff:
  "pattern_length ps s = 0 \<longleftrightarrow> (\<forall>p \<in> set ps. p = [] \<or> \<not> starts_with s p)"
  by (auto simp: pattern_length_def find_None_iff find_Some_iff split: option.splits)

lemma trim_start_append_tab:
  assumes "t \<noteq> []" and "trim_start t = t"
  shows "trim_start (t @ tab # r) = t @ tab # r"
proof -
  have "\<not> starts_with (t @ tab # r) p" if p: "p \<in> set white_space" "p \<noteq> []" for p
  proof
    assume "starts_with (t @ tab # r) p"
    then obtain q where q: "t @ tab # r = p @ q" by (auto simp: starts_with_iff)
    have "\<not> starts_with t p"
      using assms(2) p by (auto simp: trim_start_fix pattern_length_0_iff)
    with q have "\<exists>u. u \<noteq> [] \<and> p = t @ u \<and> tab # r = u @ q"
      by (auto simp: append_eq_append_conv2 starts_with_iff)
    then obtain u where u: "u \<noteq> []" "p = t @ u" "tab # r = u @ q" by blast
    then have "tab \<in> set (tl p)" using assms(1) by (cases t; cases u) auto
    with tab_not_after_first p(1) show False by blast
  qed
  then have "pattern_length white_space (t @ tab # r) = 0" by (auto simp: pattern_length_0_iff)
  then show ?thesis by (simp add: trim_start_fix)
qed

lemma show_int_last: "\<exists>u c. show_int i = u @ [c] \<and> graphic c"
proof (cases "show_int i" rule: rev_cases)
  case (snoc u c)
  then show ?thesis using show_int_chars [of i] by (auto intro: is_int_char_graphic)
qed simp

lemma trim_offset_line:
  assumes "clean_topic t"
  shows "trim (offset_line ((t, p), n)) = offset_line ((t, p), n)"
proof -
  obtain u c where uc: "show_i64 n = u @ [c]" "graphic c" using show_int_last by blast
  have "trim_start (offset_line ((t, p), n)) = offset_line ((t, p), n)"
    using assms trim_start_append_tab by (simp add: clean_topic_def offset_line_def)
  moreover have "offset_line ((t, p), n) = (t @ [tab] @ show_i32 p @ [tab] @ u) @ [c]"
    by (simp add: offset_line_def uc)
  ultimately show ?thesis unfolding trim_def by (metis trim_end_graphic [OF uc(2)])
qed

lemma split_offset_line:
  assumes "clean_topic t"
  shows "split_on tab (offset_line ((t, p), n)) = [t, show_i32 p, show_i64 n]"
  using assms show_int_not_in [of tab]
  by (simp add: offset_line_def clean_topic_def split_on_append split_on_no_sep)

lemma parse_offset_line_offset_line:
  assumes "clean_topic t"
  shows "parse_offset_line i (offset_line ((t, p), n)) = Inr ((t, p), n)"
  by (simp add: parse_offset_line_def split_offset_line [OF assms] nth_part_def parse_field_def)

lemma offset_line_not_skipped: "clean_topic t \<Longrightarrow> \<not> skipped_line (offset_line ((t, p), n))"
  by (cases t) (auto simp: skipped_line_def offset_line_def clean_topic_def starts_with_def)

lemma offset_line_no_newline: "newline \<notin> set t \<Longrightarrow> newline \<notin> set (offset_line ((t, p), n))"
  using show_int_not_in [OF not_int_char(3)]
  by (simp add: offset_line_def) (simp add: tab_def newline_def)

lemma offset_line_last:
  "offset_line ((t, p), n) \<noteq> [] \<and> last (offset_line ((t, p), n)) \<noteq> carriage_return"
  using show_int_last [of "sint n"]
  by (auto simp: offset_line_def carriage_return_def graphic_def)

text \<open>Loading the lines of clean entries inserts exactly these entries.\<close>

lemma load_lines_entries:
  "\<forall>((t, p), n) \<in> set es. clean_topic t \<Longrightarrow>
     load_lines i (map offset_line es) m = Inr (fold (\<lambda>(k, n). AList.update k n) es m)"
proof (induction es arbitrary: i m)
  case (Cons e es)
  obtain t p n where e: "e = ((t, p), n)" by (metis surj_pair)
  with Cons have "clean_topic t" by simp
  with Cons e show ?case
    by (simp add: trim_offset_line offset_line_not_skipped parse_offset_line_offset_line)
qed simp

lemma map_of_fold_update:
  "distinct (map fst es) \<Longrightarrow> map_of (fold (\<lambda>(k, n). AList.update k n) es m) = map_of m ++ map_of es"
proof (induction es arbitrary: m)
  case (Cons e es)
  obtain k n where e: "e = (k, n)" by (cases e)
  with Cons have "map_of (fold (\<lambda>(k, n). AList.update k n) es (AList.update k n m))
      = map_of (AList.update k n m) ++ map_of es" by simp
  moreover have "k \<notin> dom (map_of es)" using Cons.prems e by (simp add: dom_map_of_conv_image_fst)
  ultimately show ?case
    by (simp add: e update_conv' map_add_upd_left del: fun_upd_apply)
qed simp

lemma fst_fold_update:
  "distinct (map fst m) \<Longrightarrow> distinct (map fst (fold (\<lambda>(k, n). AList.update k n) es m)) \<and>
     fst ` set (fold (\<lambda>(k, n). AList.update k n) es m) = fst ` set m \<union> fst ` set es"
proof (induction es arbitrary: m)
  case (Cons e es)
  then show ?case
    by (cases e) (auto simp: distinct_update dom_update)
qed simp

text \<open>The sorted lines of a table are the lines of a permutation of it.\<close>

lemma sorted_lines_entries:
  "sort (map offset_line m) = map offset_line (sort_key offset_line m)"
  by (rule properties_for_sort) simp_all

lemma map_of_mset:
  assumes "mset es = mset m" and "distinct (map fst m)"
  shows "map_of es = map_of m" "distinct (map fst es)"
proof -
  show d: "distinct (map fst es)"
    using assms by (metis mset_eq_imp_distinct_iff mset_map)
  have "set es = set m" using assms(1) by (rule mset_eq_setD)
  then show "map_of es = map_of m"
    using map_of_inject_set [OF d assms(2)] by simp
qed

lemma lines_of_entries:
  assumes "\<forall>((t, p), n) \<in> set es. newline \<notin> set t"
  shows "lines (join [newline] (map offset_line es)) = map offset_line es"
proof (cases "es = []")
  case False
  have "newline \<notin> set l \<and> l \<noteq> [] \<and> last l \<noteq> carriage_return" if "l \<in> set (map offset_line es)" for l
  proof -
    from that obtain t p n where l: "l = offset_line ((t, p), n)" "((t, p), n) \<in> set es" by auto
    with assms have "newline \<notin> set t" by auto
    then show ?thesis using offset_line_no_newline offset_line_last by (simp add: l(1))
  qed
  then have "\<forall>l \<in> set (map offset_line es). newline \<notin> set l \<and> l \<noteq> [] \<and> last l \<noteq> carriage_return"
    by blast
  with False show ?thesis by (intro lines_join) simp_all
qed (simp add: lines_def)

lemma load_text_entries:
  assumes "\<forall>((t, p), n) \<in> set es. clean_topic t"
  shows "load_text (join [newline] (map offset_line es)) =
           Inr (fold (\<lambda>(k, n). AList.update k n) es [])"
proof -
  have "\<forall>((t, p), n) \<in> set es. newline \<notin> set t" using assms by (auto simp: clean_topic_def)
  then show ?thesis using load_lines_entries [OF assms] by (simp add: load_text_def lines_of_entries)
qed

lemma load_body:
  assumes "clean_map m"
  obtains m' where "load_text (offset_body m) = Inr m'" "map_of m' = map_of m" "clean_map m'"
proof -
  define es where "es = sort_key offset_line m"
  have mset: "mset es = mset m" by (simp add: es_def)
  have d: "distinct (map fst m)" and c: "\<forall>((t, p), n) \<in> set m. clean_topic t"
    using assms by (simp_all add: clean_map_def)
  have c': "\<forall>((t, p), n) \<in> set es. clean_topic t" using c by (simp add: es_def)
  have d': "distinct (map fst es)" using map_of_mset(2) [OF mset d] .
  define m' where "m' = fold (\<lambda>(k, n). AList.update k n) es []"
  have "load_text (offset_body m) = Inr m'"
    using load_text_entries [OF c'] by (simp add: offset_body_def sorted_lines_entries es_def m'_def)
  moreover have "map_of m' = map_of m"
    using map_of_fold_update [OF d', of "[]"] map_of_mset(1) [OF mset d] by (simp add: m'_def)
  moreover have "clean_map m'"
  proof -
    have dm: "distinct (map fst m')" and keys: "fst ` set m' = fst ` set es"
      using fst_fold_update [of "[]" es] by (simp_all add: m'_def)
    have "clean_topic t" if "((t, p), n) \<in> set m'" for t p n
    proof -
      from that have "(t, p) \<in> fst ` set es" unfolding keys [symmetric] by force
      with c' show ?thesis by auto
    qed
    with dm show ?thesis by (auto simp: clean_map_def)
  qed
  ultimately show ?thesis by (rule that)
qed

lemma utf8_offset_line: "clean_topic t \<Longrightarrow> utf8_valid (offset_line ((t, p), n))"
proof -
  assume "clean_topic t"
  moreover have "utf8_valid (show_int i)" for i
    using show_int_chars [of i] is_int_char_graphic
    by (intro utf8_valid_ascii) (force simp: in_range_def graphic_def)
  moreover have "utf8_valid [tab]" by (rule utf8_valid_ascii) (simp add: in_range_def tab_def)
  ultimately show ?thesis
    unfolding offset_line_def clean_topic_def fst_conv snd_conv by (blast intro: utf8_valid_append)
qed

lemma utf8_join:
  "\<forall>l \<in> set ls. utf8_valid l \<Longrightarrow> utf8_valid sep \<Longrightarrow> utf8_valid (join sep ls)"
  by (induction sep ls rule: join.induct) (simp_all add: utf8_valid_append)

lemma utf8_offset_body:
  assumes "clean_map m"
  shows "utf8_valid (offset_body m)"
proof -
  have "utf8_valid [newline]" by (rule utf8_valid_ascii) (simp add: in_range_def newline_def)
  moreover have "\<forall>l \<in> set (sort (map offset_line m)). utf8_valid l"
    using assms utf8_offset_line by (auto simp: clean_map_def)
  ultimately show ?thesis unfolding offset_body_def by (intro utf8_join)
qed

section \<open>Comment lines\<close>

lemma trim_comment_line: "trim (offset_line ((CHR ''#'' # t, p), n)) = offset_line ((CHR ''#'' # t, p), n)"
proof -
  obtain u c where uc: "show_i64 n = u @ [c]" "graphic c" using show_int_last by blast
  have "graphic CHR ''#''" by (simp add: graphic_def)
  then have "trim_start (offset_line ((CHR ''#'' # t, p), n)) = offset_line ((CHR ''#'' # t, p), n)"
    by (simp add: offset_line_def trim_start_graphic)
  moreover have "offset_line ((CHR ''#'' # t, p), n) = (CHR ''#'' # t @ [tab] @ show_i32 p @ [tab] @ u) @ [c]"
    by (simp add: offset_line_def uc)
  ultimately show ?thesis unfolding trim_def by (metis trim_end_graphic [OF uc(2)])
qed

definition is_comment_topic :: "string \<Rightarrow> bool" where
  "is_comment_topic t = (newline \<notin> set t \<and> starts_with t ''#'')"

lemma is_comment_topic_Cons: "is_comment_topic t \<Longrightarrow> \<exists>u. t = CHR ''#'' # u \<and> newline \<notin> set u"
  by (cases t) (auto simp: is_comment_topic_def starts_with_def)

lemma load_lines_with_comments:
  "\<forall>((t, p), n) \<in> set es. clean_topic t \<or> is_comment_topic t \<Longrightarrow>
     load_lines i (map offset_line es) m =
       Inr (fold (\<lambda>(k, n). AList.update k n) (filter (\<lambda>((t, p), n). \<not> is_comment_topic t) es) m)"
proof (induction es arbitrary: i m)
  case (Cons e es)
  obtain t p n where e: "e = ((t, p), n)" by (metis surj_pair)
  have IH: "load_lines i' (map offset_line es) m' =
       Inr (fold (\<lambda>(k, n). AList.update k n) (filter (\<lambda>((t, p), n). \<not> is_comment_topic t) es) m')" for i' m'
    using Cons by auto
  show ?case
  proof (cases "is_comment_topic t")
    case True
    then obtain u where u: "t = CHR ''#'' # u" using is_comment_topic_Cons by blast
    have "skipped_line (offset_line ((t, p), n))"
      by (simp add: skipped_line_def offset_line_def starts_with_def u)
    then show ?thesis using IH True e trim_comment_line [of u p n] by (simp add: u Let_def)
  next
    case False
    with Cons.prems e have "clean_topic t" by auto
    with IH False e show ?thesis
      by (simp add: trim_offset_line offset_line_not_skipped parse_offset_line_offset_line)
  qed
qed simp

lemma load_text_lines:
  assumes "\<forall>((t, p), n) \<in> set es. clean_topic t \<or> is_comment_topic t"
  shows "load_text (join [newline] (map offset_line es)) =
           Inr (fold (\<lambda>(k, n). AList.update k n) (filter (\<lambda>((t, p), n). \<not> is_comment_topic t) es) [])"
proof -
  have "\<forall>((t, p), n) \<in> set es. newline \<notin> set t"
    using assms by (auto simp: clean_topic_def is_comment_topic_def)
  then show ?thesis using load_lines_with_comments [OF assms] by (simp add: load_text_def lines_of_entries)
qed

lemma map_of_filter_keys: "map_of (filter (\<lambda>e. P (fst e)) xs) k = (if P k then map_of xs k else None)"
  by (induction xs) auto

lemma clean_map_no_comment: "clean_map m \<Longrightarrow> is_comment_topic (fst k) \<Longrightarrow> map_of m k = None"
  using is_comment_topic_Cons [of "fst k"]
  by (cases k) (force simp: clean_map_def clean_topic_def map_of_eq_None_iff)

section \<open>Properties\<close>

text \<open>C32. The file format is faithful for the topics it can represent: parsing the text written for
  a table gives back the same positions, whatever the number and order of its entries.\<close>

theorem offset_text_roundtrip:
  assumes "clean_map m"
  shows "\<exists>m'. load_text (offset_body m) = Inr m' \<and> map_of m' = map_of m"
  using load_body [OF assms] by metis

theorem offset_text_roundtrip_witness:
  "\<exists>m'. load_text (offset_body [((''orders'', 2), 100), ((''a/b'', 0), 7)]) = Inr m' \<and>
     map_of m' = map_of [((''orders'', 2), 100), ((''a/b'', 0), 7)]"
  by (rule offset_text_roundtrip) code_simp

text \<open>C36. The written text is a function of the table alone: the iteration order of the hash map
  does not reach the file.\<close>

theorem offset_body_order_independent:
  assumes "mset m = mset m'"
  shows "offset_body m = offset_body m'"
proof -
  have "sort (map offset_line m) = sort (map offset_line m')"
    by (rule properties_for_sort) (simp_all add: assms)
  then show ?thesis by (simp add: offset_body_def)
qed

theorem offset_body_order_independent_witness:
  "offset_body [((''a'', 0), 1), ((''b'', 1), 2)] = offset_body [((''b'', 1), 2), ((''a'', 0), 1)]"
  by (rule offset_body_order_independent) simp

text \<open>A topic that begins with the comment sign is written like any other and then skipped by
  the parser: its position is not in the table that is read back, while all others are.\<close>

theorem comment_topic_not_reloaded:
  assumes "clean_map m" and "is_comment_topic t"
  shows "\<exists>m'. load_text (offset_body (entry_max m (t, p) n)) = Inr m' \<and>
           map_of m' (t, p) = None \<and> map_of m' = map_of m"
proof -
  define E where "E = entry_max m (t, p) n"
  define es where "es = sort_key offset_line E"
  define kept where "kept = filter (\<lambda>((t, p), n). \<not> is_comment_topic t) es"
  have E: "distinct (map fst E)" "map_of E = (map_of m)((t, p) \<mapsto> advance (map_of m (t, p)) n)"
    using assms(1) by (simp_all add: E_def distinct_entry_max clean_map_def map_of_entry_max)
  have es: "mset es = mset E" by (simp add: es_def)
  have "clean_topic u \<or> is_comment_topic u" if "((u, q), v) \<in> set es" for u q v
  proof -
    from that have "(u, q) \<in> fst ` set (entry_max m (t, p) n)" by (force simp: es_def E_def)
    then have "(u, q) \<in> insert (t, p) (fst ` set m)" by (simp only: keys_entry_max)
    with assms show ?thesis by (auto simp: clean_map_def)
  qed
  then have "load_text (offset_body E) = Inr (fold (\<lambda>(k, n). AList.update k n) kept [])"
    unfolding offset_body_def sorted_lines_entries es_def [symmetric] kept_def
    by (intro load_text_lines) auto
  moreover have "map_of (fold (\<lambda>(k, n). AList.update k n) kept []) = map_of kept"
    using map_of_mset(2) [OF es E(1)] by (simp add: map_of_fold_update kept_def distinct_map_filter)
  moreover have "map_of kept k = (if is_comment_topic (fst k) then None else map_of E k)" for k
    using map_of_filter_keys [of "\<lambda>k. \<not> is_comment_topic (fst k)" es k] map_of_mset(1) [OF es E(1)]
    by (simp add: kept_def case_prod_unfold)
  moreover have "map_of m k = None" if "is_comment_topic (fst k)" for k
    using clean_map_no_comment [OF assms(1) that] .
  ultimately show ?thesis
    using assms(2) by (auto simp: E_def [symmetric] E(2) fun_eq_iff)
qed

theorem comment_topic_not_reloaded_witness:
  "\<exists>m'. load_text (offset_body (entry_max [((''orders'', 2), 100)] (''#audit'', 0) 8)) = Inr m' \<and>
     map_of m' (''#audit'', 0) = None \<and> map_of m' = map_of [((''orders'', 2), 100)]"
  by (rule comment_topic_not_reloaded) (code_simp, code_simp)

end
