(* ===== verification/Rust_Fs.thy ===== *)
theory Rust_Fs
  imports Errors
begin

text \<open>
  The part of \<open>std::fs\<close> and \<open>std::path\<close> that the file store uses: one directory with its files,
  the system calls on it, and what a crash may leave behind. A file is an inode with its current
  data and whether that data has been synced; the directory has its current entries and the
  older versions that may still be the ones on disk. A crash keeps one of those versions and
  replaces the data of every inode that was not synced by arbitrary bytes; a directory whose own
  entry is not durable may disappear as a whole. Every system call can fail: the outcomes are an
  input of the model. The trace collects the states after each call, the points a crash can hit.
\<close>

section \<open>Paths\<close>

text \<open>A path with a file name: its parent directory (empty for a bare name) and the name.\<close>

record path_buf =
  pb_parent :: string
  pb_name :: string

definition file_stem :: "string \<Rightarrow> string" where
  "file_stem name =
     (case rsplit_once (CHR ''.'') name of
        None \<Rightarrow> name
      | Some (before, after) \<Rightarrow> if before = [] then name else before)"

definition with_extension :: "string \<Rightarrow> string \<Rightarrow> string" where
  "with_extension name ext = file_stem name @ ''.'' @ ext"

section \<open>The directory\<close>

record inode =
  in_data :: string
  in_synced :: bool

type_synonym directory = "string \<rightharpoonup> nat"

record fs =
  fs_inodes :: "nat \<rightharpoonup> inode"
  fs_next :: nat
  fs_dir :: directory
  fs_older :: "directory list"
  fs_present :: bool
  fs_durable :: bool

definition fs_read :: "fs \<Rightarrow> string \<Rightarrow> string option" where
  "fs_read s name =
     (case fs_dir s name of None \<Rightarrow> None | Some n \<Rightarrow> map_option in_data (fs_inodes s n))"

definition fs_change_dir :: "fs \<Rightarrow> directory \<Rightarrow> fs" where
  "fs_change_dir s d = s\<lparr>fs_dir := d, fs_older := fs_dir s # fs_older s\<rparr>"

definition fs_create_dir_all :: "fs \<Rightarrow> (io_error + unit) \<times> fs" where
  "fs_create_dir_all s =
     (Inr (), if fs_present s then s else s\<lparr>fs_present := True, fs_durable := False\<rparr>)"

text \<open>\<open>create(true).truncate(true).write(true)\<close>: an existing file keeps its inode.\<close>

definition fs_open_truncate :: "string \<Rightarrow> fs \<Rightarrow> (io_error + nat) \<times> fs" where
  "fs_open_truncate name s =
     (if \<not> fs_present s then (Inl (IoError NotFound []), s)
      else case fs_dir s name of
        Some n \<Rightarrow> (Inr n, s\<lparr>fs_inodes := (fs_inodes s)(n \<mapsto> \<lparr>in_data = [], in_synced = False\<rparr>)\<rparr>)
      | None \<Rightarrow>
          (Inr (fs_next s),
           fs_change_dir
             (s\<lparr>fs_inodes := (fs_inodes s)(fs_next s \<mapsto> \<lparr>in_data = [], in_synced = False\<rparr>),
                fs_next := Suc (fs_next s)\<rparr>)
             ((fs_dir s)(name \<mapsto> fs_next s))))"

definition fs_append :: "nat \<Rightarrow> string \<Rightarrow> fs \<Rightarrow> fs" where
  "fs_append n bytes s =
     (case fs_inodes s n of
        None \<Rightarrow> s
      | Some i \<Rightarrow> s\<lparr>fs_inodes := (fs_inodes s)(n \<mapsto> \<lparr>in_data = in_data i @ bytes, in_synced = False\<rparr>)\<rparr>)"

definition fs_sync_file :: "nat \<Rightarrow> fs \<Rightarrow> fs" where
  "fs_sync_file n s =
     (case fs_inodes s n of
        None \<Rightarrow> s
      | Some i \<Rightarrow> s\<lparr>fs_inodes := (fs_inodes s)(n \<mapsto> i\<lparr>in_synced := True\<rparr>)\<rparr>)"

definition fs_rename :: "string \<Rightarrow> string \<Rightarrow> fs \<Rightarrow> (io_error + unit) \<times> fs" where
  "fs_rename from_name to_name s =
     (case fs_dir s from_name of
        None \<Rightarrow> (Inl (IoError NotFound []), s)
      | Some n \<Rightarrow>
          (Inr (),
           if from_name = to_name then s
           else fs_change_dir s ((fs_dir s)(from_name := None, to_name \<mapsto> n))))"

definition fs_sync_dir :: "fs \<Rightarrow> fs" where
  "fs_sync_dir s = s\<lparr>fs_older := []\<rparr>"

section \<open>Crashes\<close>

record crash_choice =
  cc_version :: nat
  cc_garbage :: "nat \<Rightarrow> string"
  cc_lose_directory :: bool

definition fs_versions :: "fs \<Rightarrow> directory list" where
  "fs_versions s = fs_dir s # fs_older s"

definition fs_crash :: "crash_choice \<Rightarrow> fs \<Rightarrow> fs" where
  "fs_crash c s =
     (if cc_lose_directory c \<and> \<not> fs_durable s
      then s\<lparr>fs_inodes := Map.empty, fs_dir := Map.empty, fs_older := [], fs_present := False,
             fs_durable := False\<rparr>
      else s\<lparr>fs_inodes :=
               (\<lambda>n. map_option (\<lambda>i. \<lparr>in_data = (if in_synced i then in_data i else cc_garbage c n),
                                      in_synced = True\<rparr>) (fs_inodes s n)),
             fs_dir := fs_versions s ! (cc_version c mod length (fs_versions s)),
             fs_older := [],
             fs_durable := True\<rparr>)"

section \<open>System calls with outcomes and a trace\<close>

text \<open>
  A failing write leaves the first \<open>flt_written\<close> bytes. \<open>w_faults\<close> gives the outcome of the next
  calls, \<open>w_stat_faults\<close> that of the next \<open>Path::exists\<close>, which answers \<open>false\<close> when the query
  fails, and \<open>w_joins\<close> that of the next blocking tasks (\<open>Some\<close> the error of a task that did not
  run). Calls beyond the end of a list succeed.
\<close>

record fault =
  flt_error :: io_error
  flt_written :: nat

record world =
  w_fs :: fs
  w_faults :: "fault option list"
  w_stat_faults :: "bool list"
  w_joins :: "string option list"
  w_trace :: "fs list"

type_synonym 'a io = "world \<Rightarrow> 'a kafka_result \<times> world"

definition set_fs :: "world \<Rightarrow> fs \<Rightarrow> world" where
  "set_fs w s = w\<lparr>w_fs := s, w_trace := s # w_trace w\<rparr>"

definition syscall ::
  "(fault \<Rightarrow> fs \<Rightarrow> fs) \<Rightarrow> (fs \<Rightarrow> (io_error + 'a) \<times> fs) \<Rightarrow> 'a io" where
  "syscall failed call w =
     (case w_faults w of
        Some f # rest \<Rightarrow>
          (Inl (Io (flt_error f)), set_fs (w\<lparr>w_faults := rest\<rparr>) (failed f (w_fs w)))
      | faults \<Rightarrow>
          (case call (w_fs w) of
             (r, s) \<Rightarrow> (map_err Io r, set_fs (w\<lparr>w_faults := tl faults\<rparr>) s)))"

definition io_bind :: "'a io \<Rightarrow> ('a \<Rightarrow> 'b io) \<Rightarrow> 'b io" where
  "io_bind m f w = (case m w of (Inl e, w') \<Rightarrow> (Inl e, w') | (Inr x, w') \<Rightarrow> f x w')"

definition io_return :: "'a kafka_result \<Rightarrow> 'a io" where
  "io_return r w = (r, w)"

definition sys_create_dir_all :: "unit io" where
  "sys_create_dir_all = syscall (\<lambda>_ s. s) fs_create_dir_all"

definition sys_open_truncate :: "string \<Rightarrow> nat io" where
  "sys_open_truncate name = syscall (\<lambda>_ s. s) (fs_open_truncate name)"

definition sys_write_all :: "nat \<Rightarrow> string \<Rightarrow> unit io" where
  "sys_write_all fd bytes =
     syscall (\<lambda>f s. fs_append fd (take (flt_written f) bytes) s) (\<lambda>s. (Inr (), fs_append fd bytes s))"

definition sys_sync_all :: "nat \<Rightarrow> unit io" where
  "sys_sync_all fd = syscall (\<lambda>_ s. s) (\<lambda>s. (Inr (), fs_sync_file fd s))"

definition sys_rename :: "string \<Rightarrow> string \<Rightarrow> unit io" where
  "sys_rename from_name to_name = syscall (\<lambda>_ s. s) (fs_rename from_name to_name)"

definition sys_open_dir :: "unit io" where
  "sys_open_dir =
     syscall (\<lambda>_ s. s) (\<lambda>s. (if fs_present s then Inr () else Inl (IoError NotFound []), s))"

definition sys_sync_dir :: "unit io" where
  "sys_sync_dir = syscall (\<lambda>_ s. s) (\<lambda>s. (Inr (), fs_sync_dir s))"

definition sys_exists :: "string \<Rightarrow> bool io" where
  "sys_exists name w =
     (case w_stat_faults w of
        [] \<Rightarrow> (Inr (fs_read (w_fs w) name \<noteq> None), w)
      | f # rest \<Rightarrow> (Inr (\<not> f \<and> fs_read (w_fs w) name \<noteq> None), w\<lparr>w_stat_faults := rest\<rparr>))"

definition sys_read_to_string :: "string \<Rightarrow> string io" where
  "sys_read_to_string name =
     syscall (\<lambda>_ s. s)
       (\<lambda>s. (case fs_read s name of
               None \<Rightarrow> Inl (IoError NotFound [])
             | Some bytes \<Rightarrow> if utf8_valid bytes then Inr bytes else Inl (IoError InvalidData []), s))"

text \<open>\<open>spawn_blocking(task).await\<close>: a task that did not run is reported as \<open>io::Error::other\<close>.\<close>

definition spawn_blocking :: "'a io \<Rightarrow> 'a io" where
  "spawn_blocking task w =
     (case w_joins w of
        Some e # rest \<Rightarrow> (Inl (Io (IoError Other e)), w\<lparr>w_joins := rest\<rparr>)
      | joins \<Rightarrow> task (w\<lparr>w_joins := tl joins\<rparr>))"

section \<open>Reasoning about actions\<close>

text \<open>\<open>runs P m Q E\<close>: from \<open>P\<close>, the action ends in \<open>Q\<close> with its result, or fails in \<open>E\<close>.\<close>

definition runs :: "(world \<Rightarrow> bool) \<Rightarrow> 'a io \<Rightarrow> ('a \<Rightarrow> world \<Rightarrow> bool) \<Rightarrow> (world \<Rightarrow> bool) \<Rightarrow> bool" where
  "runs P m Q E =
     (\<forall>w. P w \<longrightarrow> (case m w of (Inr x, w') \<Rightarrow> Q x w' | (Inl e, w') \<Rightarrow> E w'))"

lemma runs_bind [intro]:
  "runs P m Q E \<Longrightarrow> (\<And>x. runs (Q x) (f x) R E) \<Longrightarrow> runs P (io_bind m f) R E"
  unfolding runs_def io_bind_def
  by (auto split: prod.splits sum.splits) (metis (no_types, lifting) case_prod_conv old.sum.simps sum.exhaust)+

lemma runs_return: "(\<And>w. P w \<Longrightarrow> (case r of Inr x \<Rightarrow> Q x w | Inl e \<Rightarrow> E w)) \<Longrightarrow> runs P (io_return r) Q E"
  by (auto simp: runs_def io_return_def split: sum.splits)

lemma runsD: "runs P m Q E \<Longrightarrow> P w \<Longrightarrow> m w = (r, w') \<Longrightarrow> case r of Inr x \<Rightarrow> Q x w' | Inl e \<Rightarrow> E w'"
  by (auto simp: runs_def)

lemma runs_pre: "runs P m Q E \<Longrightarrow> (\<And>w. P' w \<Longrightarrow> P w) \<Longrightarrow> runs P' m Q E"
  by (auto simp: runs_def)

lemma runs_post:
  "runs P m Q E \<Longrightarrow> (\<And>x w. Q x w \<Longrightarrow> Q' x w) \<Longrightarrow> (\<And>w. E w \<Longrightarrow> E' w) \<Longrightarrow> runs P m Q' E'"
  unfolding runs_def by (fastforce split: prod.splits sum.splits)

text \<open>A system call keeps a property of the states it adds to the trace \<open>B\<close> when both its outcomes do.\<close>

definition traced :: "fs set \<Rightarrow> (fs \<Rightarrow> bool) \<Rightarrow> (fs \<Rightarrow> bool) \<Rightarrow> world \<Rightarrow> bool" where
  "traced B I P w = (P (w_fs w) \<and> (\<forall>s \<in> set (w_trace w). s \<in> B \<or> I s) \<and> I (w_fs w))"

lemma runs_syscall:
  assumes "\<And>f s. I s \<Longrightarrow> P s \<Longrightarrow> I (failed f s)"
    and "\<And>s x s'. I s \<Longrightarrow> P s \<Longrightarrow> call s = (Inr x, s') \<Longrightarrow> I s' \<and> Q x s'"
    and "\<And>s e s'. I s \<Longrightarrow> P s \<Longrightarrow> call s = (Inl e, s') \<Longrightarrow> I s'"
  shows "runs (traced B I P) (syscall failed call) (\<lambda>x. traced B I (Q x)) (traced B I (\<lambda>_. True))"
  unfolding runs_def
proof (intro allI impI)
  fix w assume w: "traced B I P w"
  obtain r s where call: "call (w_fs w) = (r, s)" by fastforce
  show "case syscall failed call w of (Inr x, w') \<Rightarrow> traced B I (Q x) w'
      | (Inl e, w') \<Rightarrow> traced B I (\<lambda>_. True) w'"
    using w assms(1) [of "w_fs w"] assms(2) [of "w_fs w" _ s] assms(3) [of "w_fs w" _ s]
    by (cases r; cases "w_faults w"; cases "hd (w_faults w)")
      (auto simp: syscall_def set_fs_def traced_def call)
qed

end
