(* ===== verification/File_Store.thy ===== *)
theory File_Store
  imports Offset_Text Rust_Fs
begin

text \<open>
  \<open>src/offset.rs\<close>, the file provider: \<open>load_map\<close>, the atomic write \<open>save_map\<close> and the two trait
  operations, as sequences of system calls that may each fail. The first part shows what the
  states between the calls, and so a crash, can leave in the file; the second that the store
  meets the contract of \<open>offset_store\<close>. The async lock of the store makes its operations atomic
  with respect to each other: each is one state transition here.
\<close>

section \<open>The operations\<close>

definition tmp_name :: "path_buf \<Rightarrow> string" where
  "tmp_name path = with_extension (pb_name path) ''tmp''"

definition load_map :: "path_buf \<Rightarrow> offset_map io" where
  "load_map path =
     io_bind (sys_exists (pb_name path)) (\<lambda>there.
     if \<not> there then io_return (Inr [])
     else io_bind (sys_read_to_string (pb_name path)) (\<lambda>text.
          io_return (load_text text)))"

definition save_map :: "path_buf \<Rightarrow> offset_map \<Rightarrow> unit io" where
  "save_map path m =
     io_bind (if pb_parent path \<noteq> [] then sys_create_dir_all else io_return (Inr ())) (\<lambda>_.
     io_bind (sys_open_truncate (tmp_name path)) (\<lambda>file.
     io_bind (sys_write_all file (offset_body m)) (\<lambda>_.
     io_bind (sys_sync_all file) (\<lambda>_.
     io_bind (sys_rename (tmp_name path) (pb_name path)) (\<lambda>_.
     io_bind sys_open_dir (\<lambda>_.
     sys_sync_dir))))))"

definition file_committed :: "path_buf \<Rightarrow> world \<Rightarrow> string \<Rightarrow> i32 \<Rightarrow> i64 option kafka_result \<times> world" where
  "file_committed path w topic part =
     spawn_blocking
       (io_bind (load_map path) (\<lambda>m. io_return (Inr (map_of m (topic, part))))) w"

definition file_commit :: "path_buf \<Rightarrow> world \<Rightarrow> string \<Rightarrow> i32 \<Rightarrow> i64 \<Rightarrow> unit kafka_result \<times> world" where
  "file_commit path w topic part offset =
     (case next_offset_of offset of
        Inl e \<Rightarrow> (Inl e, w)
      | Inr n \<Rightarrow>
          spawn_blocking
            (io_bind (load_map path) (\<lambda>m. save_map path (entry_max m (topic, part) n))) w)"

section \<open>What a crash can leave\<close>

definition entry_content :: "fs \<Rightarrow> directory \<Rightarrow> string \<Rightarrow> string option" where
  "entry_content s d name = (case d name of None \<Rightarrow> None | Some n \<Rightarrow> map_option in_data (fs_inodes s n))"

text \<open>The contents of \<open>name\<close> that can be on disk, when its inodes are synced.\<close>

definition possible_contents :: "fs \<Rightarrow> string \<Rightarrow> string option set" where
  "possible_contents s name =
     set (map (\<lambda>d. entry_content s d name) (fs_versions s)) \<union> (if fs_durable s then {} else {None})"

text \<open>
  The invariant: whatever version of the directory is on disk, \<open>name\<close> refers to a synced inode and
  \<open>tmp\<close> to another one; the inode that \<open>tmp\<close> refers to now is not one that \<open>name\<close> refers to in any
  version. An absent directory has no entries.
\<close>

definition fs_inv :: "string \<Rightarrow> string \<Rightarrow> fs \<Rightarrow> bool" where
  "fs_inv name tmp s =
     (name \<noteq> tmp \<and>
      (\<forall>d \<in> set (fs_versions s). \<forall>n. d name = Some n \<longrightarrow>
         (\<exists>i. fs_inodes s n = Some i \<and> in_synced i)) \<and>
      (\<forall>n. fs_dir s tmp = Some n \<longrightarrow> (\<forall>d \<in> set (fs_versions s). d name \<noteq> Some n)) \<and>
      (\<forall>d \<in> set (fs_versions s). \<forall>n. d tmp = Some n \<longrightarrow> d name \<noteq> Some n \<and> fs_inodes s n \<noteq> None) \<and>
      (\<forall>n. fs_inodes s n \<noteq> None \<longrightarrow> n < fs_next s) \<and>
      (\<forall>d \<in> set (fs_versions s). \<not> fs_present s \<longrightarrow> d name = None \<and> d tmp = None))"

lemma fs_read_entry: "fs_read s name = entry_content s (fs_dir s) name"
  by (simp add: fs_read_def entry_content_def)

lemma fs_read_possible: "fs_read s name \<in> possible_contents s name"
  by (simp add: fs_read_entry possible_contents_def fs_versions_def)

lemma entry_content_cong: "fs_inodes s = fs_inodes s' \<Longrightarrow> entry_content s = entry_content s'"
  by (auto simp: fun_eq_iff entry_content_def split: option.splits)

lemma entry_content_change_dir [simp]: "entry_content (fs_change_dir s d) = entry_content s"
  by (auto simp: fun_eq_iff fs_change_dir_def entry_content_def split: option.splits)

lemma versions_change_dir [simp]:
  "fs_versions (fs_change_dir s d) = d # fs_versions s" "fs_dir (fs_change_dir s d) = d"
  "fs_inodes (fs_change_dir s d) = fs_inodes s" "fs_next (fs_change_dir s d) = fs_next s"
  "fs_durable (fs_change_dir s d) = fs_durable s" "fs_present (fs_change_dir s d) = fs_present s"
  by (simp_all add: fs_change_dir_def fs_versions_def)

lemma crash_reads:
  assumes "fs_inv name tmp s"
  shows "fs_read (fs_crash c s) name \<in> possible_contents s name"
proof (cases "cc_lose_directory c \<and> \<not> fs_durable s")
  case True
  then show ?thesis by (simp add: fs_crash_def fs_read_def possible_contents_def)
next
  case False
  define d where "d = fs_versions s ! (cc_version c mod length (fs_versions s))"
  have d: "d \<in> set (fs_versions s)"
    unfolding d_def by (rule nth_mem) (simp add: fs_versions_def)
  have "fs_read (fs_crash c s) name = entry_content s d name"
  proof (cases "d name")
    case (Some n)
    moreover have "\<forall>n. d name = Some n \<longrightarrow> (\<exists>i. fs_inodes s n = Some i \<and> in_synced i)"
      using assms d by (simp add: fs_inv_def)
    ultimately obtain i where "fs_inodes s n = Some i" "in_synced i" by blast
    with Some False show ?thesis by (simp add: fs_crash_def fs_read_def entry_content_def d_def [symmetric])
  qed (use False in \<open>simp add: fs_crash_def fs_read_def entry_content_def d_def [symmetric]\<close>)
  with d show ?thesis by (auto simp: possible_contents_def)
qed

text \<open>After a crash the invariant holds again, and the directory that survived is on disk.\<close>

lemma fs_inv_crash:
  assumes "fs_inv name tmp s"
  shows "fs_inv name tmp (fs_crash c s)"
    and "possible_contents (fs_crash c s) name =
      (if fs_durable s \<or> \<not> cc_lose_directory c then {fs_read (fs_crash c s) name} else {None})"
proof -
  show "fs_inv name tmp (fs_crash c s)"
  proof (cases "cc_lose_directory c \<and> \<not> fs_durable s")
    case True
    with assms show ?thesis by (simp add: fs_crash_def fs_inv_def fs_versions_def)
  next
    case False
    define d where "d = fs_versions s ! (cc_version c mod length (fs_versions s))"
    have d: "d \<in> set (fs_versions s)"
      unfolding d_def by (rule nth_mem) (simp add: fs_versions_def)
    have same: "fs_versions (fs_crash c s) = [d]" "fs_dir (fs_crash c s) = d"
      "fs_next (fs_crash c s) = fs_next s" "fs_present (fs_crash c s) = fs_present s"
      using False by (auto simp: fs_crash_def d_def fs_versions_def)
    have inode: "fs_inodes (fs_crash c s) n =
        map_option (\<lambda>i. \<lparr>in_data = (if in_synced i then in_data i else cc_garbage c n), in_synced = True\<rparr>) (fs_inodes s n)" for n
      using False by (auto simp: fs_crash_def)
    have there: "\<exists>i. fs_inodes (fs_crash c s) n = Some i \<and> in_synced i" if entry: "d name = Some n \<or> d tmp = Some n" for n
    proof -
      have "\<exists>i. fs_inodes s n = Some i" using assms d entry unfolding fs_inv_def by blast
      then obtain i where "fs_inodes s n = Some i" ..
      then show ?thesis by (simp add: inode)
    qed
    have old: "d tmp = Some n \<Longrightarrow> d name \<noteq> Some n" "\<not> fs_present s \<Longrightarrow> d name = None \<and> d tmp = None" for n
      using assms d by (simp_all add: fs_inv_def)
    have new: "name \<noteq> tmp" "fs_inodes (fs_crash c s) n \<noteq> None \<Longrightarrow> n < fs_next s" for n
      using assms by (simp_all add: fs_inv_def inode)
    have "d tmp = Some n \<Longrightarrow> fs_inodes (fs_crash c s) n \<noteq> None" for n
      using there by (metis option.distinct(1))
    then show ?thesis unfolding fs_inv_def same using there old new by simp
  qed
  have "fs_older (fs_crash c s) = []" "fs_durable (fs_crash c s) \<longleftrightarrow> fs_durable s \<or> \<not> cc_lose_directory c"
    "cc_lose_directory c \<Longrightarrow> \<not> fs_durable s \<Longrightarrow> fs_read (fs_crash c s) name = None"
    by (auto simp: fs_crash_def fs_read_def)
  then show "possible_contents (fs_crash c s) name =
      (if fs_durable s \<or> \<not> cc_lose_directory c then {fs_read (fs_crash c s) name} else {None})"
    by (simp add: possible_contents_def fs_versions_def fs_read_entry)
qed

text \<open>A change of an inode that \<open>name\<close> never refers to changes none of its contents.\<close>

lemma other_inode_changed:
  assumes "\<forall>d \<in> set (fs_versions s). d name \<noteq> Some n"
  shows "possible_contents (s\<lparr>fs_inodes := (fs_inodes s)(n := x)\<rparr>) name = possible_contents s name"
    and "fs_read (s\<lparr>fs_inodes := (fs_inodes s)(n := x)\<rparr>) name = fs_read s name"
proof -
  have "entry_content (s\<lparr>fs_inodes := (fs_inodes s)(n := x)\<rparr>) d name = entry_content s d name"
    if "d \<in> set (fs_versions s)" for d
    using assms that by (auto simp: entry_content_def split: option.splits)
  then show "possible_contents (s\<lparr>fs_inodes := (fs_inodes s)(n := x)\<rparr>) name = possible_contents s name"
    and "fs_read (s\<lparr>fs_inodes := (fs_inodes s)(n := x)\<rparr>) name = fs_read s name"
    by (auto simp: possible_contents_def fs_versions_def fs_read_entry)
qed

text \<open>
  \<open>holds C V\<close> is what every state of a write satisfies: the invariant, disk contents within \<open>C\<close>
  and current contents within \<open>V\<close>.
\<close>

definition holds :: "string \<Rightarrow> string \<Rightarrow> string option set \<Rightarrow> string option set \<Rightarrow> fs \<Rightarrow> bool" where
  "holds name tmp C V s =
     (fs_inv name tmp s \<and> possible_contents s name \<subseteq> C \<and> fs_read s name \<in> V)"

lemma holds_inode:
  assumes "holds name tmp C V s" and "fs_dir s tmp = Some n"
  shows "holds name tmp C V (s\<lparr>fs_inodes := (fs_inodes s)(n \<mapsto> i)\<rparr>)"
proof -
  have n: "\<forall>d \<in> set (fs_versions s). d name \<noteq> Some n"
    using assms by (auto simp: holds_def fs_inv_def)
  have "fs_inv name tmp (s\<lparr>fs_inodes := (fs_inodes s)(n \<mapsto> i)\<rparr>)"
    using assms n by (auto simp: holds_def fs_inv_def fs_versions_def)
  then show ?thesis using assms(1) other_inode_changed [OF n] by (simp add: holds_def)
qed

lemma holds_mkdir:
  assumes h: "holds name tmp C V s" and mk: "fs_create_dir_all s = (r, s')"
  shows "holds name tmp C V s'"
proof (cases "fs_present s")
  case False
  then have s': "s' = s\<lparr>fs_present := True, fs_durable := False\<rparr>"
    using mk by (simp add: fs_create_dir_all_def)
  then have e: "entry_content s' = entry_content s" "fs_versions s' = fs_versions s" "fs_dir s' = fs_dir s"
    by (auto intro!: entry_content_cong simp: fs_versions_def)
  have "fs_read s name = None" using False h by (simp add: holds_def fs_inv_def fs_read_def fs_versions_def)
  then have "None \<in> C" using h fs_read_possible [of s name] by (auto simp: holds_def)
  moreover have "possible_contents s' name \<subseteq> insert None (possible_contents s name)"
    by (simp add: possible_contents_def e) auto
  moreover have "fs_inv name tmp s'" using h by (simp add: holds_def fs_inv_def e) (simp add: s')
  ultimately show ?thesis using h by (auto simp: holds_def fs_read_entry e)
qed (use h mk in \<open>auto simp: fs_create_dir_all_def\<close>)

lemma holds_open:
  assumes h: "holds name tmp C V s" and op: "fs_open_truncate tmp s = (r, s')"
  shows "holds name tmp C V s'"
    and "r = Inr n \<Longrightarrow> fs_dir s' tmp = Some n \<and> fs_inodes s' n = Some \<lparr>in_data = [], in_synced = False\<rparr>"
proof -
  show "r = Inr n \<Longrightarrow> fs_dir s' tmp = Some n \<and> fs_inodes s' n = Some \<lparr>in_data = [], in_synced = False\<rparr>"
    using op by (auto simp: fs_open_truncate_def fs_change_dir_def split: if_splits option.splits)
  show "holds name tmp C V s'"
  proof (cases "fs_present s \<and> fs_dir s tmp = None")
    case False
    with op h holds_inode [OF h] show ?thesis
      by (auto simp: fs_open_truncate_def split: if_splits option.splits)
  next
    case True
    define s1 where "s1 = s\<lparr>fs_inodes := (fs_inodes s)(fs_next s \<mapsto> \<lparr>in_data = [], in_synced = False\<rparr>)\<rparr>"
    have fresh: "\<forall>d \<in> set (fs_versions s). d name \<noteq> Some (fs_next s)"
      using h by (fastforce simp: holds_def fs_inv_def)
    have ne: "name \<noteq> tmp" using h by (simp add: holds_def fs_inv_def)
    have s': "s' = fs_change_dir (s1\<lparr>fs_next := Suc (fs_next s)\<rparr>) ((fs_dir s)(tmp \<mapsto> fs_next s))"
      using op True by (simp add: fs_open_truncate_def s1_def)
    have e: "entry_content (s1\<lparr>fs_next := Suc (fs_next s)\<rparr>) = entry_content s1"
      by (rule entry_content_cong) simp
    have v: "fs_versions (s1\<lparr>fs_next := Suc (fs_next s)\<rparr>) = fs_dir s1 # fs_older s1"
      by (simp add: fs_versions_def)
    have "entry_content s1 ((fs_dir s)(tmp \<mapsto> fs_next s)) name = entry_content s1 (fs_dir s1) name"
      using ne by (simp add: entry_content_def s1_def)
    then have "possible_contents s' name = possible_contents s1 name" "fs_read s' name = fs_read s1 name"
      by (simp_all add: s' possible_contents_def fs_read_entry e v) (simp_all add: s1_def fs_versions_def insert_commute)
    moreover have "fs_inv name tmp s'"
      using h fresh ne True
      by (auto simp: s' s1_def fs_change_dir_def fs_inv_def fs_versions_def holds_def less_Suc_eq)
    ultimately show ?thesis
      using h other_inode_changed [OF fresh, of "Some \<lparr>in_data = [], in_synced = False\<rparr>"]
      by (simp add: holds_def s1_def)
  qed
qed

lemma holds_rename:
  assumes h: "holds name tmp C V s" and n: "fs_dir s tmp = Some n"
    and i: "fs_inodes s n = Some \<lparr>in_data = body, in_synced = True\<rparr>"
    and rn: "fs_rename tmp name s = (r, s')" and body: "Some body \<in> C" "Some body \<in> V"
  shows "holds name tmp C V s' \<and> fs_read s' name = Some body"
proof -
  have ne: "name \<noteq> tmp" using h by (simp add: holds_def fs_inv_def)
  have s': "s' = fs_change_dir s ((fs_dir s)(tmp := None, name \<mapsto> n))"
    using rn n ne by (auto simp: fs_rename_def)
  have read: "fs_read s' name = Some body" using i by (simp add: s' fs_change_dir_def fs_read_def)
  have "entry_content s ((fs_dir s)(tmp := None, name \<mapsto> n)) name = Some body"
    using i by (simp add: entry_content_def)
  then have "possible_contents s' name = insert (Some body) (possible_contents s name)"
    by (simp add: s' possible_contents_def)
  moreover have "fs_present s" using h n by (auto simp: holds_def fs_inv_def fs_versions_def)
  then have "fs_inv name tmp s'"
    using h ne i n by (auto simp: s' fs_inv_def holds_def)
  ultimately show ?thesis using h body read by (simp add: holds_def)
qed

lemma holds_sync_dir:
  assumes "holds name tmp C V s"
  shows "holds name tmp C V (fs_sync_dir s) \<and> fs_read (fs_sync_dir s) name = fs_read s name"
proof -
  have "entry_content (fs_sync_dir s) = entry_content s"
    by (rule entry_content_cong) (simp add: fs_sync_dir_def)
  moreover have "fs_versions (fs_sync_dir s) = [fs_dir s]" "fs_dir (fs_sync_dir s) = fs_dir s"
    "fs_durable (fs_sync_dir s) = fs_durable s" "fs_inodes (fs_sync_dir s) = fs_inodes s"
    "fs_next (fs_sync_dir s) = fs_next s" "fs_present (fs_sync_dir s) = fs_present s"
    by (simp_all add: fs_sync_dir_def fs_versions_def)
  ultimately show ?thesis
    using assms by (auto simp: holds_def fs_inv_def possible_contents_def fs_read_entry fs_versions_def
        split: if_splits)
qed

section \<open>The write, call by call\<close>

lemma tracedD: "traced B I P w \<Longrightarrow> traced B I (\<lambda>_. True) w"
  by (simp add: traced_def)

lemma runs_mkdir: "runs (traced B (holds name tmp C V) (\<lambda>_. True)) sys_create_dir_all
    (\<lambda>_. traced B (holds name tmp C V) (\<lambda>_. True)) (traced B (holds name tmp C V) (\<lambda>_. True))"
  unfolding sys_create_dir_all_def by (rule runs_syscall) (auto intro: holds_mkdir)

lemma runs_open: "runs (traced B (holds name tmp C V) (\<lambda>_. True)) (sys_open_truncate tmp)
    (\<lambda>n. traced B (holds name tmp C V)
       (\<lambda>s. fs_dir s tmp = Some n \<and> fs_inodes s n = Some \<lparr>in_data = [], in_synced = False\<rparr>))
    (traced B (holds name tmp C V) (\<lambda>_. True))"
  unfolding sys_open_truncate_def by (rule runs_syscall) (auto intro: holds_open(1) dest: holds_open(2))

lemma runs_write: "runs
    (traced B (holds name tmp C V)
       (\<lambda>s. fs_dir s tmp = Some n \<and> fs_inodes s n = Some \<lparr>in_data = [], in_synced = False\<rparr>))
    (sys_write_all n body)
    (\<lambda>_. traced B (holds name tmp C V)
       (\<lambda>s. fs_dir s tmp = Some n \<and> fs_inodes s n = Some \<lparr>in_data = body, in_synced = False\<rparr>))
    (traced B (holds name tmp C V) (\<lambda>_. True))"
  unfolding sys_write_all_def
  by (rule runs_syscall) (auto simp: fs_append_def intro: holds_inode)

lemma runs_sync: "runs
    (traced B (holds name tmp C V)
       (\<lambda>s. fs_dir s tmp = Some n \<and> fs_inodes s n = Some \<lparr>in_data = body, in_synced = False\<rparr>))
    (sys_sync_all n)
    (\<lambda>_. traced B (holds name tmp C V)
       (\<lambda>s. fs_dir s tmp = Some n \<and> fs_inodes s n = Some \<lparr>in_data = body, in_synced = True\<rparr>))
    (traced B (holds name tmp C V) (\<lambda>_. True))"
  unfolding sys_sync_all_def
  by (rule runs_syscall) (auto simp: fs_sync_file_def intro: holds_inode)

lemma runs_rename:
  assumes "Some body \<in> C" and "Some body \<in> V"
  shows "runs
    (traced B (holds name tmp C V)
       (\<lambda>s. fs_dir s tmp = Some n \<and> fs_inodes s n = Some \<lparr>in_data = body, in_synced = True\<rparr>))
    (sys_rename tmp name)
    (\<lambda>_. traced B (holds name tmp C V) (\<lambda>s. fs_read s name = Some body))
    (traced B (holds name tmp C V) (\<lambda>_. True))"
  unfolding sys_rename_def using assms
  by (intro runs_syscall) (auto dest: holds_rename)

lemma runs_open_dir: "runs (traced B (holds name tmp C V) P) sys_open_dir
    (\<lambda>_. traced B (holds name tmp C V) P) (traced B (holds name tmp C V) (\<lambda>_. True))"
  unfolding sys_open_dir_def by (rule runs_syscall) (auto split: if_splits)

lemma runs_sync_dir: "runs
    (traced B (holds name tmp C V) (\<lambda>s. fs_read s name = Some body)) sys_sync_dir
    (\<lambda>_. traced B (holds name tmp C V) (\<lambda>s. fs_read s name = Some body \<and> fs_older s = []))
    (traced B (holds name tmp C V) (\<lambda>_. True))"
  unfolding sys_sync_dir_def
  by (rule runs_syscall) (auto dest: holds_sync_dir simp: fs_sync_dir_def)

text \<open>Every state of the write satisfies \<open>holds\<close>; a write that returns has replaced the file.\<close>

lemma runs_save_map:
  fixes path :: path_buf
  assumes "Some (offset_body m) \<in> C" and "Some (offset_body m) \<in> V"
  defines "H \<equiv> holds (pb_name path) (tmp_name path) C V"
  shows "runs (traced B H (\<lambda>_. True)) (save_map path m)
    (\<lambda>_. traced B H (\<lambda>s. fs_read s (pb_name path) = Some (offset_body m) \<and> fs_older s = []))
    (traced B H (\<lambda>_. True))"
proof -
  have start: "runs (traced B H (\<lambda>_. True))
      (if pb_parent path \<noteq> [] then sys_create_dir_all else io_return (Inr ()))
      (\<lambda>_. traced B H (\<lambda>_. True)) (traced B H (\<lambda>_. True))"
    using runs_mkdir by (auto simp: H_def intro: runs_return)
  show ?thesis
    unfolding save_map_def H_def
    by (rule runs_bind [OF start [unfolded H_def]], rule runs_bind [OF runs_open],
        rule runs_bind [OF runs_write], rule runs_bind [OF runs_sync],
        rule runs_bind [OF runs_rename [OF assms(1,2)]],
        rule runs_bind [OF runs_open_dir], rule runs_sync_dir)
qed

section \<open>Queries of the file's existence\<close>

text \<open>Only \<open>Path::exists\<close> consumes the outcomes of \<open>w_stat_faults\<close>.\<close>

definition keeps_stat :: "'a io \<Rightarrow> bool" where
  "keeps_stat m = (\<forall>w. w_stat_faults (snd (m w)) = w_stat_faults w)"

lemma keeps_stat_syscall: "keeps_stat (syscall failed call)"
  by (auto simp: keeps_stat_def syscall_def set_fs_def split: list.splits option.splits prod.splits)

lemma keeps_stat_bind: "keeps_stat m \<Longrightarrow> (\<And>x. keeps_stat (f x)) \<Longrightarrow> keeps_stat (io_bind m f)"
  by (auto simp: keeps_stat_def io_bind_def split: prod.splits sum.splits) (metis snd_conv)+

lemma keeps_stat_return: "keeps_stat (io_return r)"
  by (simp add: keeps_stat_def io_return_def)

lemmas keeps_stat_intros = keeps_stat_bind keeps_stat_return keeps_stat_syscall

lemma keeps_stat_save_map: "keeps_stat (save_map path m)"
  unfolding save_map_def sys_create_dir_all_def sys_open_truncate_def sys_write_all_def
    sys_sync_all_def sys_rename_def sys_open_dir_def sys_sync_dir_def
  by (auto intro!: keeps_stat_intros)

end
