(* ===== verification/File_Contract.thy ===== *)
theory File_Contract
  imports File_Store
begin

text \<open>
  The file store meets the contract of \<open>offset_store\<close> for the topics its text can represent, and
  its writes are atomic against crashes; then the inputs and faults outside these conditions for
  which it loses positions although \<open>commit\<close> returns \<open>Ok\<close>.
\<close>

section \<open>The table a file holds\<close>

definition text_table :: "string option \<Rightarrow> offset_map option" where
  "text_table content =
     (case content of
        None \<Rightarrow> Some []
      | Some text \<Rightarrow>
          if utf8_valid text then (case load_text text of Inl _ \<Rightarrow> None | Inr m \<Rightarrow> Some m) else None)"

definition file_table :: "path_buf \<Rightarrow> world \<Rightarrow> offset_map option" where
  "file_table path w = text_table (fs_read (w_fs w) (pb_name path))"

definition file_view :: "path_buf \<Rightarrow> world \<Rightarrow> offset_key \<Rightarrow> i64 option" where
  "file_view path w = (case file_table path w of None \<Rightarrow> Map.empty | Some m \<Rightarrow> map_of m)"

text \<open>
  A healthy store: the file system invariant, a table of representable topics in the file, and
  queries of the file's existence that do not fail.
\<close>

definition file_inv :: "path_buf \<Rightarrow> world \<Rightarrow> bool" where
  "file_inv path w =
     (fs_inv (pb_name path) (tmp_name path) (w_fs w) \<and> w_stat_faults w = [] \<and>
      (case file_table path w of None \<Rightarrow> False | Some m \<Rightarrow> clean_map m))"

lemma clean_entry_max: "clean_map m \<Longrightarrow> clean_topic t \<Longrightarrow> clean_map (entry_max m (t, p) n)"
proof -
  assume m: "clean_map m" and t: "clean_topic t"
  have "clean_topic u" if "((u, q), v) \<in> set (entry_max m (t, p) n)" for u q v
  proof -
    from that have "(u, q) \<in> fst ` set (entry_max m (t, p) n)" by force
    then have "(u, q) \<in> insert (t, p) (fst ` set m)" by (simp only: keys_entry_max)
    with m t show ?thesis by (auto simp: clean_map_def)
  qed
  with m show ?thesis by (auto simp: clean_map_def distinct_entry_max)
qed

lemma text_table_body:
  assumes "clean_map m"
  obtains m' where "text_table (Some (offset_body m)) = Some m'" "map_of m' = map_of m" "clean_map m'"
proof -
  obtain m' where m': "load_text (offset_body m) = Inr m'" "map_of m' = map_of m" "clean_map m'"
    using load_body [OF assms] by blast
  with utf8_offset_body [OF assms] have "text_table (Some (offset_body m)) = Some m'"
    by (simp add: text_table_def)
  with m' show ?thesis using that by blast
qed

lemma file_view_body:
  assumes "clean_map m" and "fs_read (w_fs w) (pb_name path) = Some (offset_body m)"
  shows "file_view path w = map_of m"
    and "fs_inv (pb_name path) (tmp_name path) (w_fs w) \<Longrightarrow> w_stat_faults w = [] \<Longrightarrow> file_inv path w"
proof -
  obtain m' where "file_table path w = Some m'" "map_of m' = map_of m" "clean_map m'"
    using text_table_body [OF assms(1)] assms(2) by (metis file_table_def)
  then show "file_view path w = map_of m"
    and "fs_inv (pb_name path) (tmp_name path) (w_fs w) \<Longrightarrow> w_stat_faults w = [] \<Longrightarrow> file_inv path w"
    by (simp_all add: file_view_def file_inv_def)
qed

section \<open>Loading\<close>

text \<open>A load changes neither the files nor the pending existence outcomes.\<close>

lemma load_map_result:
  assumes "load_map path w = (r, w')" and "w_stat_faults w = []"
  shows "w_fs w' = w_fs w \<and> w_stat_faults w' = [] \<and> set (w_trace w') \<subseteq> insert (w_fs w) (set (w_trace w))"
    and "r = Inr m \<Longrightarrow> file_table path w = Some m"
  using assms
  by (auto simp: load_map_def io_bind_def io_return_def sys_exists_def sys_read_to_string_def
      syscall_def set_fs_def file_table_def text_table_def
      split: list.splits option.splits prod.splits sum.splits if_splits)

lemma load_map_ok:
  assumes "w_stat_faults w = []" and "w_faults w = []" and "file_table path w = Some m"
  shows "\<exists>w'. load_map path w = (Inr m, w') \<and> w_fs w' = w_fs w \<and> w_faults w' = []"
  using assms
  by (auto simp: load_map_def io_bind_def io_return_def sys_exists_def sys_read_to_string_def
      syscall_def set_fs_def file_table_def text_table_def
      split: list.splits option.splits prod.splits sum.splits if_splits)

section \<open>Committing\<close>

text \<open>
  The states a commit of a healthy store goes through: all satisfy \<open>holds\<close> for the contents
  before it and the new text; a commit that returns has written the new text and synced it.
\<close>

lemma file_commit_states:
  assumes inv: "file_inv path w" and c: "committable off"
    and run: "file_commit path w t p off = (r, w')"
    and m: "file_table path w = Some m"
  defines "text \<equiv> offset_body (entry_max m (t, p) (off + 1))"
  defines "H \<equiv> holds (pb_name path) (tmp_name path)
      (insert (Some text) (possible_contents (w_fs w) (pb_name path)))
      {Some text, fs_read (w_fs w) (pb_name path)}"
  shows "H (w_fs w') \<and> w_stat_faults w' = [] \<and>
         (\<forall>s \<in> set (w_trace w'). s \<in> set (w_trace w) \<or> H s) \<and>
         (r = Inr () \<longrightarrow> fs_read (w_fs w') (pb_name path) = Some text \<and> fs_older (w_fs w') = [])"
proof -
  define w1 where "w1 = w\<lparr>w_joins := tl (w_joins w)\<rparr>"
  have H0: "H (w_fs w)"
    using inv fs_read_possible by (auto simp: H_def holds_def file_inv_def)
  have w1: "w_fs w1 = w_fs w" "w_trace w1 = w_trace w" "w_stat_faults w1 = []" "file_table path w1 = Some m"
    using inv m by (simp_all add: w1_def file_inv_def file_table_def)
  obtain r2 w2 where load: "load_map path w1 = (r2, w2)" by fastforce
  note w2 = load_map_result [OF load w1(3)]
  have w2_H: "w_fs w2 = w_fs w" "w_stat_faults w2 = []" "\<forall>s \<in> set (w_trace w2). s \<in> set (w_trace w) \<or> H s"
    using w2(1) w1 H0 by auto
  consider (unspawned) e where "r = Inl e" "w_fs w' = w_fs w" "w_trace w' = w_trace w" "w_stat_faults w' = []"
    | (load_failed) e where "r = Inl e" "w' = w2"
    | (saved) "save_map path (entry_max m (t, p) (off + 1)) w2 = (r, w')"
    using run c load w2(2) w1 inv
    by (auto simp: file_commit_def spawn_blocking_def io_bind_def w1_def file_inv_def
        split: list.splits option.splits prod.splits sum.splits)
  then show ?thesis
  proof cases
    case saved
    define B where "B = set (w_trace w)"
    have "runs (traced B H (\<lambda>_. True)) (save_map path (entry_max m (t, p) (off + 1)))
        (\<lambda>_. traced B H (\<lambda>s. fs_read s (pb_name path) = Some text \<and> fs_older s = []))
        (traced B H (\<lambda>_. True))"
      unfolding H_def text_def by (rule runs_save_map) simp_all
    moreover have "traced B H (\<lambda>_. True) w2" using w2_H H0 by (simp add: traced_def B_def)
    ultimately have "case r of Inr x \<Rightarrow> traced B H (\<lambda>s. fs_read s (pb_name path) = Some text \<and> fs_older s = []) w'
        | Inl e \<Rightarrow> traced B H (\<lambda>_. True) w'"
      using saved by (rule runsD)
    moreover have "w_stat_faults w' = []"
      using keeps_stat_save_map w2_H(2) saved by (metis keeps_stat_def snd_conv)
    ultimately show ?thesis by (cases r) (simp_all add: traced_def B_def)
  qed (use H0 w2_H in auto)
qed

lemma committable_or_rejected:
  "\<not> committable off \<Longrightarrow> \<exists>e. file_commit path w t p off = (Inl e, w) \<and> is_config_error e"
  by (auto simp: file_commit_def next_offset_of_cases)

lemma file_commit_result:
  assumes inv: "file_inv path w" and t: "clean_topic t" and c: "committable off"
    and run: "file_commit path w t p off = (r, w')"
  shows "file_inv path w'"
    and "file_view path w' = (file_view path w)((t, p) \<mapsto> advance (file_view path w (t, p)) (off + 1)) \<or>
         (r \<noteq> Inr () \<and> file_view path w' = file_view path w)"
proof -
  obtain m where m: "file_table path w = Some m" "clean_map m"
    using inv by (auto simp: file_inv_def split: option.splits)
  define m2 where "m2 = entry_max m (t, p) (off + 1)"
  have m2: "clean_map m2" using m t by (simp add: m2_def clean_entry_max)
  have view: "file_view path w = map_of m" by (simp add: file_view_def m)
  note st = file_commit_states [OF inv c run m(1), folded m2_def]
  then have fsi: "fs_inv (pb_name path) (tmp_name path) (w_fs w')" "w_stat_faults w' = []"
    by (simp_all add: holds_def)
  consider (new) "fs_read (w_fs w') (pb_name path) = Some (offset_body m2)"
    | (old) "r \<noteq> Inr ()" "fs_read (w_fs w') (pb_name path) = fs_read (w_fs w) (pb_name path)"
    using st by (cases "r = Inr ()") (auto simp: holds_def)
  then have "file_inv path w' \<and> (file_view path w' = map_of m2 \<or> (r \<noteq> Inr () \<and> file_view path w' = file_view path w))"
  proof cases
    case new
    then show ?thesis using file_view_body [OF m2 new] fsi by simp
  next
    case old
    then have "file_table path w' = file_table path w" by (simp add: file_table_def)
    with old fsi m show ?thesis by (simp add: file_inv_def file_view_def)
  qed
  then show "file_inv path w'"
    and "file_view path w' = (file_view path w)((t, p) \<mapsto> advance (file_view path w (t, p)) (off + 1)) \<or>
         (r \<noteq> Inr () \<and> file_view path w' = file_view path w)"
    by (auto simp: view m2_def map_of_entry_max)
qed

lemma file_committed_result:
  assumes inv: "file_inv path w" and run: "file_committed path w t p = (r, w')"
  shows "file_inv path w' \<and> file_view path w' = file_view path w"
    and "r = Inr x \<Longrightarrow> x = file_view path w (t, p)"
proof -
  define w1 where "w1 = w\<lparr>w_joins := tl (w_joins w)\<rparr>"
  have w1: "w_fs w1 = w_fs w" "w_stat_faults w1 = []" "file_table path w1 = file_table path w"
    using inv by (simp_all add: w1_def file_inv_def file_table_def)
  obtain r2 w2 where load: "load_map path w1 = (r2, w2)" by fastforce
  note w2 = load_map_result [OF load w1(2)]
  have "w_fs w' = w_fs w \<and> w_stat_faults w' = [] \<and>
      (\<forall>x. r = Inr x \<longrightarrow> (\<exists>m. r2 = Inr m \<and> x = map_of m (t, p)))"
    using run inv load w2(1) w1
    by (auto simp: file_committed_def spawn_blocking_def io_bind_def io_return_def w1_def file_inv_def
        split: list.splits option.splits prod.splits sum.splits)
  moreover from this have "file_table path w' = file_table path w" by (simp add: file_table_def)
  ultimately show "file_inv path w' \<and> file_view path w' = file_view path w"
    and "r = Inr x \<Longrightarrow> x = file_view path w (t, p)"
    using inv w2(2) w1(3) by (auto simp: file_inv_def file_view_def)
qed

interpretation file_provider: offset_store "file_committed path" "file_commit path" "file_view path"
  "file_inv path" clean_topic for path
proof (unfold_locales, goal_cases)
  case (3 s off t p)
  then show ?case by (simp add: committable_or_rejected)
next
  case (6 s t p off r s')
  then show ?case
    using committable_or_rejected [of off path s t p] file_commit_result(1) [of path s t off p r s']
    by (cases "committable off") auto
qed (use file_committed_result file_commit_result(2) in blast)+

section \<open>A concrete store\<close>

text \<open>A store on \<open>data/offsets.tsv\<close> whose file holds one position, and one with an empty directory.\<close>

definition sample_path :: path_buf where
  "sample_path = \<lparr>pb_parent = ''data'', pb_name = ''offsets.tsv''\<rparr>"

definition sample_fs :: fs where
  "sample_fs =
     \<lparr>fs_inodes = [0 \<mapsto> \<lparr>in_data = offset_body [((''orders'', 2), 100)], in_synced = True\<rparr>],
      fs_next = 1, fs_dir = [''offsets.tsv'' \<mapsto> 0], fs_older = [], fs_present = True,
      fs_durable = True\<rparr>"

definition quiet_world :: "fs \<Rightarrow> world" where
  "quiet_world s = \<lparr>w_fs = s, w_faults = [], w_stat_faults = [], w_joins = [], w_trace = []\<rparr>"

lemma sample_tmp_name: "tmp_name sample_path = ''offsets.tmp''"
  by code_simp

lemma sample_table: "file_table sample_path (quiet_world sample_fs) = Some [((''orders'', 2), 100)]"
  by code_simp

lemma sample_inv: "file_inv sample_path (quiet_world sample_fs)"
proof -
  have "fs_inv (pb_name sample_path) (tmp_name sample_path) sample_fs"
    unfolding sample_tmp_name
    by (auto simp: fs_inv_def sample_path_def sample_fs_def fs_versions_def split: if_splits)
  moreover have "clean_map [((''orders'', 2), 100)]" by code_simp
  ultimately show ?thesis
    by (simp add: file_inv_def sample_table) (simp add: quiet_world_def)
qed

lemma sample_clean: "clean_topic ''orders''"
  by code_simp

lemma sample_commit: "fst (file_commit sample_path (quiet_world sample_fs) ''orders'' 2 150) = Inr ()"
  by code_simp

section \<open>Properties\<close>

text \<open>C6. Atomicity of a commit: start from a healthy store whose directory is settled on disk, let
  any system calls but the query of the file's existence fail, and crash in any state the commit passes through, with any directory
  version surviving and any data in the inodes that were not synced. The file then holds its old
  text or the complete new text, never a part of one and never garbage.\<close>

theorem file_commit_crash_atomic:
  assumes "file_inv path w" and "file_table path w = Some m" and "w_trace w = []"
    and "fs_older (w_fs w) = []" and "fs_durable (w_fs w) \<or> fs_read (w_fs w) (pb_name path) = None"
    and "file_commit path w t p off = (r, w')"
    and "s \<in> set (w_fs w' # w_trace w')"
  shows "fs_read (fs_crash c s) (pb_name path)
           \<in> {fs_read (w_fs w) (pb_name path), Some (offset_body (entry_max m (t, p) (off + 1)))}"
proof -
  define old where "old = fs_read (w_fs w) (pb_name path)"
  define new_text where "new_text = offset_body (entry_max m (t, p) (off + 1))"
  have settled: "possible_contents (w_fs w) (pb_name path) = {old}"
    using assms(4,5) by (auto simp: possible_contents_def fs_versions_def fs_read_entry old_def)
  have "fs_inv (pb_name path) (tmp_name path) s \<and> possible_contents s (pb_name path) \<subseteq> {old, Some new_text}"
  proof (cases "committable off")
    case True
    show ?thesis
      using file_commit_states [OF assms(1) True assms(6,2)] assms(3,7)
      by (auto simp: holds_def settled new_text_def [symmetric])
  next
    case False
    then have "w' = w" using committable_or_rejected [of off path w t p] assms(6) by auto
    with assms(1,3,7) settled show ?thesis by (simp add: file_inv_def)
  qed
  then show ?thesis using crash_reads [of "pb_name path" "tmp_name path" s c]
    by (auto simp: old_def new_text_def)
qed

theorem file_commit_crash_atomic_witness:
  "let w = quiet_world sample_fs; c = \<lparr>cc_version = 1, cc_garbage = \<lambda>_. ''junk'', cc_lose_directory = True\<rparr>;
       w' = snd (file_commit sample_path w ''orders'' 2 150) in
   \<forall>s \<in> set (w_fs w' # w_trace w'). fs_read (fs_crash c s) ''offsets.tsv''
     \<in> {fs_read sample_fs ''offsets.tsv'', Some (offset_body (entry_max [((''orders'', 2), 100)] (''orders'', 2) 151))}"
  using file_commit_crash_atomic [OF sample_inv sample_table _ _ _ prod.collapse [symmetric],
      where t = "''orders''" and p = 2 and off = 150]
  by (simp add: Let_def sample_path_def quiet_world_def sample_fs_def)

text \<open>Durability: once a commit has returned \<open>Ok\<close> and the directory's own entry is on disk, a
  crash of any kind leaves a store that holds the advanced position and all others unchanged.\<close>

theorem file_commit_durable:
  assumes "file_inv path w" and "clean_topic t" and "file_commit path w t p off = (Inr (), w')"
    and "fs_durable (w_fs w')"
  shows "file_view path (w'\<lparr>w_fs := fs_crash c (w_fs w')\<rparr>) =
           (file_view path w)((t, p) \<mapsto> advance (file_view path w (t, p)) (off + 1))"
proof -
  have c: "committable off" using file_provider.commit_ok_committable assms(1,3) by blast
  obtain m where m: "file_table path w = Some m" using assms(1) by (auto simp: file_inv_def split: option.splits)
  note st = file_commit_states [OF assms(1) c assms(3) m]
  have fsi: "fs_inv (pb_name path) (tmp_name path) (w_fs w')" using st by (simp add: holds_def)
  have "possible_contents (w_fs w') (pb_name path) = {fs_read (w_fs w') (pb_name path)}"
    using st assms(4) by (simp add: possible_contents_def fs_versions_def fs_read_entry)
  then have "fs_read (fs_crash c (w_fs w')) (pb_name path) = fs_read (w_fs w') (pb_name path)"
    using crash_reads [OF fsi, of c] by simp
  then have "file_view path (w'\<lparr>w_fs := fs_crash c (w_fs w')\<rparr>) = file_view path w'"
    by (simp add: file_view_def file_table_def)
  then show ?thesis using file_commit_result(2) [OF assms(1,2) c assms(3)] by simp
qed

theorem file_commit_durable_witness:
  "let w' = snd (file_commit sample_path (quiet_world sample_fs) ''orders'' 2 150) in
   file_view sample_path (w'\<lparr>w_fs := fs_crash \<lparr>cc_version = 3, cc_garbage = \<lambda>_. [], cc_lose_directory = True\<rparr> (w_fs w')\<rparr>) =
     (file_view sample_path (quiet_world sample_fs))((''orders'', 2) \<mapsto>
        advance (file_view sample_path (quiet_world sample_fs) (''orders'', 2)) (150 + 1))"
proof -
  obtain w' where w': "file_commit sample_path (quiet_world sample_fs) ''orders'' 2 150 = (Inr (), w')"
    using sample_commit by (metis prod.collapse)
  have "fs_durable (w_fs (snd (file_commit sample_path (quiet_world sample_fs) ''orders'' 2 150)))"
    by code_simp
  then show ?thesis using file_commit_durable [OF sample_inv sample_clean w'] by (simp add: w')
qed

text \<open>Read after write: after a commit that returned \<open>Ok\<close>, every read that succeeds reports the
  larger of the old position and \<open>offset + 1\<close> for the committed partition and the old position
  for every other one. Nothing is cached, so this holds for a store reopened on the path.\<close>

theorem file_commit_then_committed:
  assumes "file_inv path w" and "clean_topic t"
    and "file_commit path w t p off = (Inr (), w')" and "file_committed path w' u q = (Inr x, w'')"
  shows "x = (if (u, q) = (t, p) then Some (advance (file_view path w (t, p)) (off + 1))
              else file_view path w (u, q))"
proof -
  have "committable off" using file_provider.commit_ok_committable assms(1,3) by blast
  then have "file_view path w' = (file_view path w)((t, p) \<mapsto> advance (file_view path w (t, p)) (off + 1))"
    using file_provider.commit_ok assms(1-3) by blast
  moreover have "x = file_view path w' (u, q)"
    using file_provider.commit_inv [OF assms(1-3)] file_provider.committed_ok assms(4) by blast
  ultimately show ?thesis by auto
qed

theorem file_commit_then_committed_witness:
  "fst (file_committed sample_path (snd (file_commit sample_path (quiet_world sample_fs) ''orders'' 2 150)) ''orders'' 2)
     = Inr (Some 151)"
proof -
  obtain w' where w': "file_commit sample_path (quiet_world sample_fs) ''orders'' 2 150 = (Inr (), w')"
    using sample_commit by (metis prod.collapse)
  have ok: "is_ok (fst (file_committed sample_path (snd (file_commit sample_path (quiet_world sample_fs) ''orders'' 2 150)) ''orders'' 2))"
    by code_simp
  then obtain x w'' where x: "file_committed sample_path w' ''orders'' 2 = (Inr x, w'')"
    by (cases "file_committed sample_path w' ''orders'' 2"; cases "fst (file_committed sample_path w' ''orders'' 2)") (auto simp: w')
  have "file_view sample_path (quiet_world sample_fs) (''orders'', 2) = Some 100"
    by (simp add: file_view_def sample_table)
  then have "x = Some 151"
    using file_commit_then_committed [OF sample_inv sample_clean w' x] by (simp add: smax_def)
  then show ?thesis by (simp add: w' x)
qed

text \<open>C23. Positions never move back: over any run of commits on a healthy store, whatever offsets are
  given and whatever system calls and blocking tasks fail, except for the query of the file's existence,
  no stored position decreases or disappears. The exception is needed: the code takes a failed query for
  an absent file, and a commit then drops all other positions (\<open>failed_existence_query_drops_positions\<close>).\<close>

theorem file_store_never_regresses:
  assumes "file_inv path w" and "\<forall>(t, p, off) \<in> set cs. clean_topic t"
    and "file_view path w k = Some a"
  shows "\<exists>b. file_view path (commit_all (file_commit path) w cs) k = Some b \<and> sint a \<le> sint b"
  using file_provider.commit_all_monotone [OF assms(1,2)] assms(3) unfolding view_le_def by blast

theorem file_store_never_regresses_witness:
  "\<exists>b. file_view sample_path (commit_all (file_commit sample_path) (quiet_world sample_fs)
          [(''orders'', 2, 3), (''orders'', 2, - 7), (''a'', 0, 12)]) (''orders'', 2) = Some b \<and> sint (100 :: i64) \<le> sint b"
proof (rule file_store_never_regresses [OF sample_inv])
  show "\<forall>(t, p, off) \<in> set [(''orders'', 2, 3), (''orders'', 2, - 7), (''a'', 0, 12)]. clean_topic t"
    by code_simp
  show "file_view sample_path (quiet_world sample_fs) (''orders'', 2) = Some 100"
    by (simp add: file_view_def sample_table)
qed

text \<open>The atomic write needs a temporary name of its own: for a store file whose extension is
  already \<open>tmp\<close> the temporary file is the store file, and there is a commit that returns \<open>Ok\<close> and
  passes through a state in which a crash leaves neither the old nor the new text.\<close>

theorem tmp_extension_not_atomic:
  "tmp_name \<lparr>pb_parent = d, pb_name = stem @ ''.tmp''\<rparr> = (if stem = [] then ''.tmp.tmp'' else stem @ ''.tmp'') \<and>
   (let path = \<lparr>pb_parent = [], pb_name = ''offsets.tmp''\<rparr>;
        s0 = sample_fs\<lparr>fs_dir := [''offsets.tmp'' \<mapsto> 0]\<rparr>;
        w' = snd (file_commit path (quiet_world s0) ''orders'' 2 150);
        c = \<lparr>cc_version = 0, cc_garbage = \<lambda>_. ''junk'', cc_lose_directory = False\<rparr> in
    fst (file_commit path (quiet_world s0) ''orders'' 2 150) = Inr () \<and>
    (\<exists>s \<in> set (w_trace w'). fs_read (fs_crash c s) ''offsets.tmp'' = Some ''junk''))"
proof -
  have "rsplit_once (CHR ''.'') (stem @ ''.tmp'') = Some (stem, ''tmp'')"
    using rsplit_once_append [of "CHR ''.''" "''tmp''" stem] by simp
  then have "tmp_name \<lparr>pb_parent = d, pb_name = stem @ ''.tmp''\<rparr> =
      (if stem = [] then ''.tmp.tmp'' else stem @ ''.tmp'')"
    by (simp add: tmp_name_def with_extension_def file_stem_def)
  moreover have "let path = \<lparr>pb_parent = [], pb_name = ''offsets.tmp''\<rparr>;
        s0 = sample_fs\<lparr>fs_dir := [''offsets.tmp'' \<mapsto> 0]\<rparr>;
        w' = snd (file_commit path (quiet_world s0) ''orders'' 2 150);
        c = \<lparr>cc_version = 0, cc_garbage = \<lambda>_. ''junk'', cc_lose_directory = False\<rparr> in
    fst (file_commit path (quiet_world s0) ''orders'' 2 150) = Inr () \<and>
    (\<exists>s \<in> set (w_trace w'). fs_read (fs_crash c s) ''offsets.tmp'' = Some ''junk'')"
    by code_simp
  ultimately show ?thesis by blast
qed

text \<open>\<open>Path::exists\<close> answers \<open>false\<close> when its query fails, and a commit then takes the table for
  empty: it returns \<open>Ok\<close> and the positions of all other partitions are gone from the file.\<close>

theorem failed_existence_query_drops_positions:
  "let w = (quiet_world sample_fs)\<lparr>w_stat_faults := [True]\<rparr>;
       (r, w') = file_commit sample_path w ''a'' 0 12 in
   r = Inr () \<and> file_view sample_path w (''orders'', 2) = Some 100 \<and>
   file_view sample_path w' (''orders'', 2) = None \<and> file_view sample_path w' (''a'', 0) = Some 13"
  by code_simp

end
