(* ===== verification/Rust_Atomics.thy ===== *)
theory Rust_Atomics
  imports Prelude
begin

text \<open>
  The atomics of the standard library with the orderings of \<open>src/lifecycle.rs\<close>: \<open>Acquire\<close> loads,
  \<open>Release\<close> stores and \<open>AcqRel\<close> read-modify-writes, over a memory with views. A location has the
  messages written to it in modification order; a thread has, for each location, the oldest message it
  may still read. An acquire load may read any message from there on and takes over the view of the
  message; a release store leaves the thread's view in its message; a read-modify-write reads the last
  message.
\<close>

section \<open>Memory\<close>

datatype location = FlagLocation | CountLocation

type_synonym view = "location \<Rightarrow> nat"

record mem_message =
  mm_value :: nat
  mm_view :: view

type_synonym memory = "location \<Rightarrow> mem_message list"

definition join_view :: "view \<Rightarrow> view \<Rightarrow> view" where
  "join_view v w = (\<lambda>l. max (v l) (w l))"

definition view_at :: "view \<Rightarrow> location \<Rightarrow> nat \<Rightarrow> view" where
  "view_at v l i = v(l := max (v l) i)"

text \<open>\<open>load(Acquire)\<close> of the \<open>i\<close>-th message.\<close>

definition load_acquire :: "memory \<Rightarrow> view \<Rightarrow> location \<Rightarrow> nat \<Rightarrow> (nat \<times> view) option" where
  "load_acquire m v l i =
     (if v l \<le> i \<and> i < length (m l) then Some (mm_value (m l ! i), join_view (view_at v l i) (mm_view (m l ! i)))
      else None)"

definition store_release :: "memory \<Rightarrow> view \<Rightarrow> location \<Rightarrow> nat \<Rightarrow> memory \<times> view" where
  "store_release m v l x =
     (let v' = view_at v l (length (m l)) in (m(l := m l @ [\<lparr>mm_value = x, mm_view = v'\<rparr>]), v'))"

text \<open>\<open>fetch_add(1, AcqRel)\<close>\<close>

definition rmw_acq_rel :: "memory \<Rightarrow> view \<Rightarrow> location \<Rightarrow> (nat \<Rightarrow> nat) \<Rightarrow> memory \<times> view" where
  "rmw_acq_rel m v l f =
     (let v' = view_at (join_view v (mm_view (last (m l)))) l (length (m l))
      in (m(l := m l @ [\<lparr>mm_value = f (mm_value (last (m l))), mm_view = v'\<rparr>]), v'))"

section \<open>What every access keeps\<close>

text \<open>A view of messages that exist; a memory whose messages carry such views and their own position.\<close>

definition in_memory :: "memory \<Rightarrow> view \<Rightarrow> bool" where
  "in_memory m v = (\<forall>l. v l < length (m l))"

definition wf_memory :: "memory \<Rightarrow> bool" where
  "wf_memory m = (\<forall>l. m l \<noteq> [] \<and> (\<forall>i < length (m l). mm_view (m l ! i) l = i \<and> in_memory m (mm_view (m l ! i))))"

text \<open>One memory is a later one of another: messages are only added.\<close>

definition extends :: "memory \<Rightarrow> memory \<Rightarrow> bool" where
  "extends m m' = (\<forall>l. \<exists>ms. m' l = m l @ ms)"

lemma extends_refl [simp]: "extends m m"
  by (simp add: extends_def)

lemma extends_in_memory: "extends m m' \<Longrightarrow> in_memory m v \<Longrightarrow> in_memory m' v"
  unfolding extends_def in_memory_def by (metis length_append trans_less_add1)

lemma extends_nth: "extends m m' \<Longrightarrow> i < length (m l) \<Longrightarrow> m' l ! i = m l ! i"
  unfolding extends_def by (metis nth_append)

lemma in_memory_join [simp]: "in_memory m (join_view v w) \<longleftrightarrow> in_memory m v \<and> in_memory m w"
  by (auto simp: in_memory_def join_view_def)

lemma join_view_at: "join_view v w l = max (v l) (w l)"
  by (simp add: join_view_def)

lemma wf_memoryD:
  assumes "wf_memory m"
  shows "m l \<noteq> []" and "i < length (m l) \<Longrightarrow> mm_view (m l ! i) l = i"
    and "i < length (m l) \<Longrightarrow> in_memory m (mm_view (m l ! i))"
    and "in_memory m (mm_view (last (m l)))"
proof -
  show *: "m l \<noteq> []" and "i < length (m l) \<Longrightarrow> mm_view (m l ! i) l = i"
    and in_m: "i < length (m l) \<Longrightarrow> in_memory m (mm_view (m l ! i))" for i
    using assms by (simp_all add: wf_memory_def)
  show "in_memory m (mm_view (last (m l)))"
    using * in_m [of "length (m l) - 1"] by (simp add: last_conv_nth)
qed

text \<open>A load.\<close>

lemma load_acquireD:
  assumes "load_acquire m v l i = Some (x, w)" and "wf_memory m" and "in_memory m v"
  shows "x = mm_value (m l ! i)" "v l \<le> i" "i < length (m l)" "w l = i" "in_memory m w" "v k \<le> w k"
    and "w = join_view (view_at v l i) (mm_view (m l ! i))"
proof -
  show x: "x = mm_value (m l ! i)" "v l \<le> i" "i < length (m l)"
    and w: "w = join_view (view_at v l i) (mm_view (m l ! i))"
    using assms(1) by (auto simp: load_acquire_def split: if_splits)
  note m = wf_memoryD(2,3) [OF assms(2) x(3)]
  show "w l = i" using x(2) m(1) by (simp add: w join_view_def view_at_def)
  show "in_memory m w" using x(3) m(2) assms(3) by (auto simp: w in_memory_def join_view_def view_at_def)
  show "v k \<le> w k" by (auto simp: w join_view_def view_at_def)
qed

text \<open>Every location has a last message to read.\<close>

lemma load_last:
  assumes "wf_memory m" and "in_memory m v"
  shows "\<exists>w. load_acquire m v l (length (m l) - 1) = Some (mm_value (last (m l)), w)"
proof -
  have "m l \<noteq> []" "v l < length (m l)"
    using wf_memoryD(1) [OF assms(1)] assms(2) by (simp_all add: in_memory_def)
  then have "v l \<le> length (m l) - 1" "length (m l) - 1 < length (m l)" by linarith+
  then show ?thesis using \<open>m l \<noteq> []\<close> by (simp add: load_acquire_def last_conv_nth)
qed

text \<open>Adding a message.\<close>

definition add_message :: "memory \<Rightarrow> location \<Rightarrow> nat \<Rightarrow> view \<Rightarrow> memory" where
  "add_message m l x v = m(l := m l @ [\<lparr>mm_value = x, mm_view = v\<rparr>])"

lemma add_message_at:
  "add_message m l x v k = (if k = l then m l @ [\<lparr>mm_value = x, mm_view = v\<rparr>] else m k)"
  by (simp add: add_message_def)

lemma add_message_extends: "extends m (add_message m l x v)"
  by (simp add: extends_def add_message_def)

lemma add_message_wf:
  assumes "wf_memory m" and "\<And>k. k \<noteq> l \<Longrightarrow> v k < length (m k)" and "v l = length (m l)"
  shows "wf_memory (add_message m l x v)" and "in_memory (add_message m l x v) v"
proof -
  let ?m = "add_message m l x v"
  show v: "in_memory ?m v" using assms(2,3) by (auto simp: in_memory_def add_message_at)
  show "wf_memory ?m"
    unfolding wf_memory_def
  proof (intro allI conjI impI)
    fix k i
    show "?m k \<noteq> []" using wf_memoryD(1) [OF assms(1)] by (simp add: add_message_at)
    assume i: "i < length (?m k)"
    have "mm_view (?m k ! i) k = i \<and> in_memory ?m (mm_view (?m k ! i))"
    proof (cases "i < length (m k)")
      case True
      then have "?m k ! i = m k ! i" using extends_nth [OF add_message_extends] by simp
      then show ?thesis
        using wf_memoryD(2,3) [OF assms(1) True] extends_in_memory [OF add_message_extends] by simp
    next
      case False
      with i have "k = l" "i = length (m l)" by (auto simp: add_message_at split: if_splits)
      then show ?thesis using v assms(3) by (simp add: add_message_at nth_append)
    qed
    then show "mm_view (?m k ! i) k = i" and "in_memory ?m (mm_view (?m k ! i))" by simp_all
  qed
qed

lemma store_releaseD:
  assumes "store_release m v l x = (m', w)" and "wf_memory m" and "in_memory m v"
  shows "m' = add_message m l x w" "wf_memory m'" "in_memory m' w" "extends m m'" "w l = length (m l)" "v k \<le> w k"
proof -
  have w: "w = view_at v l (length (m l))" and m': "m' = add_message m l x w"
    using assms(1) by (auto simp: store_release_def Let_def add_message_def)
  have at: "w l = length (m l)" "\<And>k. k \<noteq> l \<Longrightarrow> w k < length (m k)"
    using assms(3) by (auto simp: w view_at_def in_memory_def max_def less_imp_le not_le)
  show "m' = add_message m l x w" by (rule m')
  show "wf_memory m'" "in_memory m' w" unfolding m' by (rule add_message_wf [OF assms(2)]; simp add: at)+
  show "extends m m'" unfolding m' by (rule add_message_extends)
  show "w l = length (m l)" by (rule at(1))
  show "v k \<le> w k" by (simp add: w view_at_def)
qed

lemma rmw_acq_relD:
  assumes "rmw_acq_rel m v l f = (m', w)" and "wf_memory m" and "in_memory m v"
  shows "m' = add_message m l (f (mm_value (last (m l)))) w" "wf_memory m'" "in_memory m' w" "extends m m'"
    "w l = length (m l)" "v k \<le> w k"
proof -
  have w: "w = view_at (join_view v (mm_view (last (m l)))) l (length (m l))"
    and m': "m' = add_message m l (f (mm_value (last (m l)))) w"
    using assms(1) by (auto simp: rmw_acq_rel_def Let_def add_message_def)
  have "in_memory m (join_view v (mm_view (last (m l))))" using assms(3) wf_memoryD(4) [OF assms(2)] by simp
  then have at: "w l = length (m l)" "\<And>k. k \<noteq> l \<Longrightarrow> w k < length (m k)"
    by (auto simp: w view_at_def in_memory_def max_def less_imp_le not_le)
  show "m' = add_message m l (f (mm_value (last (m l)))) w" by (rule m')
  show "wf_memory m'" "in_memory m' w" unfolding m' by (rule add_message_wf [OF assms(2)]; simp add: at)+
  show "extends m m'" unfolding m' by (rule add_message_extends)
  show "w l = length (m l)" by (rule at(1))
  show "v k \<le> w k" by (auto simp: w view_at_def join_view_def)
qed

text \<open>The memory at the start: one message per location, with value 0.\<close>

definition initial_memory :: memory where
  "initial_memory = (\<lambda>_. [\<lparr>mm_value = 0, mm_view = (\<lambda>_. 0)\<rparr>])"

definition initial_view :: view where
  "initial_view = (\<lambda>_. 0)"

lemma initial_memory_wf: "wf_memory initial_memory" "in_memory initial_memory initial_view"
  by (auto simp: wf_memory_def in_memory_def initial_memory_def initial_view_def)

end
