(* ===== verification/Async.thy ===== *)
theory Async
  imports Prelude
begin

text \<open>
  The asynchronous runtime as the crate sees it. \<open>tokio\<close> is not part of the repository: its
  \<open>watch\<close> channel is a record of operations that the definitions take as an argument, with its
  documented behaviour as the predicate \<open>watch_laws\<close>. A future is the instant at which it
  completes with its value (\<open>None\<close>: never); \<open>timeout\<close> and \<open>select!\<close> with \<open>biased\<close> order these
  instants as the documentation says: an earlier branch wins a tie, a timeout polls its future
  before its timer.
\<close>

section \<open>Watch channels\<close>

text \<open>
  \<open>wa_changed w r\<close>: \<open>changed()\<close> of the receiver \<open>r\<close> completes now; \<open>wa_seen w r\<close> is the receiver
  afterwards. \<open>send_replace(v)\<close> is \<open>wa_modify\<close> with a constant function. \<open>wa_receiver\<close> relates a
  channel to its receivers and is used by the laws only.
\<close>

record ('v, 'w, 'r) watch_api =
  wa_channel :: "'v \<Rightarrow> 'w"
  wa_modify :: "('v \<Rightarrow> 'v) \<Rightarrow> 'w \<Rightarrow> 'w"
  wa_borrow :: "'w \<Rightarrow> 'v"
  wa_subscribe :: "'w \<Rightarrow> 'r"
  wa_changed :: "'w \<Rightarrow> 'r \<Rightarrow> bool"
  wa_seen :: "'w \<Rightarrow> 'r \<Rightarrow> 'r"
  wa_receiver :: "'w \<Rightarrow> 'r \<Rightarrow> bool"

definition watch_laws :: "('v, 'w, 'r) watch_api \<Rightarrow> bool" where
  "watch_laws api =
     ((\<forall>v. wa_borrow api (wa_channel api v) = v) \<and>
      (\<forall>f w. wa_borrow api (wa_modify api f w) = f (wa_borrow api w)) \<and>
      (\<forall>w. wa_receiver api w (wa_subscribe api w) \<and> \<not> wa_changed api w (wa_subscribe api w)) \<and>
      (\<forall>f w r. wa_receiver api w r \<longrightarrow>
         wa_receiver api (wa_modify api f w) r \<and> wa_changed api (wa_modify api f w) r) \<and>
      (\<forall>w r. wa_receiver api w r \<longrightarrow>
         wa_receiver api w (wa_seen api w r) \<and> \<not> wa_changed api w (wa_seen api w r)))"

lemma watch_lawsD:
  assumes "watch_laws api"
  shows "wa_borrow api (wa_channel api v) = v"
    and "wa_borrow api (wa_modify api f w) = f (wa_borrow api w)"
    and "wa_receiver api w (wa_subscribe api w)" and "\<not> wa_changed api w (wa_subscribe api w)"
    and "wa_receiver api w r \<Longrightarrow> wa_receiver api (wa_modify api f w) r"
    and "wa_receiver api w r \<Longrightarrow> wa_changed api (wa_modify api f w) r"
    and "wa_receiver api w r \<Longrightarrow> wa_receiver api w (wa_seen api w r)"
    and "wa_receiver api w r \<Longrightarrow> \<not> wa_changed api w (wa_seen api w r)"
  using assms by (simp_all add: watch_laws_def)

text \<open>An instance with version numbers, for concrete runs.\<close>

definition versioned_watch :: "('v, 'v \<times> nat, nat) watch_api" where
  "versioned_watch =
     \<lparr>wa_channel = (\<lambda>v. (v, 0)), wa_modify = (\<lambda>f w. (f (fst w), Suc (snd w))), wa_borrow = fst,
      wa_subscribe = snd, wa_changed = (\<lambda>w r. r \<noteq> snd w), wa_seen = (\<lambda>w r. snd w),
      wa_receiver = (\<lambda>w r. r \<le> snd w)\<rparr>"

lemma versioned_watch_laws: "watch_laws versioned_watch"
  by (simp add: watch_laws_def versioned_watch_def)

section \<open>Futures, timeouts and races\<close>

type_synonym instant = nat

type_synonym 'a future = "(instant \<times> 'a) option"

datatype 'a timed = Elapsed | Completed 'a

text \<open>\<open>timeout(d, fut)\<close> always completes, at the latest after \<open>d\<close>.\<close>

definition timeout :: "instant \<Rightarrow> 'a future \<Rightarrow> instant \<times> 'a timed" where
  "timeout d fut =
     (case fut of
        None \<Rightarrow> (d, Elapsed)
      | Some (t, x) \<Rightarrow> if t \<le> d then (t, Completed x) else (d, Elapsed))"

text \<open>A biased \<open>select!\<close> of the shutdown signal, given by its instant, and another future.\<close>

datatype 'a raced = ShutdownWon | Finished 'a | Blocked

definition biased_select :: "instant option \<Rightarrow> 'a future \<Rightarrow> 'a raced" where
  "biased_select shutdown fut =
     (case fut of
        None \<Rightarrow> (case shutdown of None \<Rightarrow> Blocked | Some _ \<Rightarrow> ShutdownWon)
      | Some (t, x) \<Rightarrow>
          (case shutdown of
             None \<Rightarrow> Finished x
           | Some s \<Rightarrow> if s \<le> t then ShutdownWon else Finished x))"

text \<open>A biased \<open>select!\<close> of the shutdown signal and a future under a timeout always completes: the
  instant at which it does, and how.\<close>

datatype 'a outcome = Cancelled | Expired | Answered 'a

definition race :: "instant option \<Rightarrow> instant \<Rightarrow> 'a future \<Rightarrow> instant \<times> 'a outcome" where
  "race shutdown d fut =
     (let (t, r) = timeout d fut in
      case shutdown of
        Some s \<Rightarrow> if s \<le> t then (s, Cancelled) else (t, case r of Elapsed \<Rightarrow> Expired | Completed x \<Rightarrow> Answered x)
      | None \<Rightarrow> (t, case r of Elapsed \<Rightarrow> Expired | Completed x \<Rightarrow> Answered x))"

text \<open>\<open>await\<close> of one future after the other.\<close>

definition future_bind :: "'a future \<Rightarrow> ('a \<Rightarrow> 'b future) \<Rightarrow> 'b future" where
  "future_bind fut f =
     (case fut of
        None \<Rightarrow> None
      | Some (t, x) \<Rightarrow> (case f x of None \<Rightarrow> None | Some (u, y) \<Rightarrow> Some (t + u, y)))"

lemma timeout_bound: "fst (timeout d fut) \<le> d"
  by (auto simp: timeout_def split: option.splits)

lemma biased_select_now [simp]: "biased_select (Some 0) fut = ShutdownWon"
  by (auto simp: biased_select_def split: option.splits)

lemma race_bound: "fst (race sd d fut) \<le> d"
  using timeout_bound [of d fut]
  by (auto simp: race_def Let_def split: option.splits prod.splits)

lemma race_now [simp]: "race (Some 0) d fut = (0, Cancelled)"
  by (simp add: race_def split: prod.split)

text \<open>When the race is answered, cancelled or expires.\<close>

lemma race_Answered:
  "race sd d fut = (t, Answered x) \<longleftrightarrow> fut = Some (t, x) \<and> t \<le> d \<and> (case sd of None \<Rightarrow> True | Some s \<Rightarrow> t < s)"
  by (auto simp: race_def timeout_def Let_def split: option.splits prod.splits timed.splits if_splits)

lemma race_Cancelled:
  "snd (race sd d fut) = Cancelled \<longleftrightarrow>
     (case sd of None \<Rightarrow> False | Some s \<Rightarrow> s \<le> d \<and> (case fut of None \<Rightarrow> True | Some (t, _) \<Rightarrow> s \<le> t))"
  by (auto simp: race_def timeout_def Let_def split: option.splits prod.splits timed.splits if_splits)

lemma race_Expired:
  "snd (race sd d fut) = Expired \<longleftrightarrow>
     (case sd of None \<Rightarrow> True | Some s \<Rightarrow> d < s) \<and> (case fut of None \<Rightarrow> True | Some (t, _) \<Rightarrow> d < t)"
  by (auto simp: race_def timeout_def Let_def split: option.splits prod.splits timed.splits if_splits)

lemma future_bind_simps [simp]:
  "future_bind None f = None"
  "future_bind (Some (0, x)) f = f x"
  by (auto simp: future_bind_def split: option.splits)

end
