(* ===== verification/Lifecycle.thy ===== *)
theory Lifecycle
  imports Async Errors
begin

text \<open>
  \<open>src/lifecycle.rs\<close>: the shared closed flag, the count of operations in flight and the two
  notification channels: each function as the code runs it, with what other tasks may do
  between its accesses to the atomics and channels as an argument. What these accesses may see of each
  other when all tasks run together is the subject of \<open>Lifecycle_Tasks\<close>.
\<close>

section \<open>The functions\<close>

record ('s, 'a) lifecycle =
  closed :: bool
  active :: usize
  shutdown :: 's
  activity :: 'a

text \<open>The runtime gives the channels for the shutdown flag and for the activity generation.\<close>

record ('s, 'sr, 'a, 'ar) runtime =
  rt_shutdown :: "(bool, 's, 'sr) watch_api"
  rt_activity :: "(u64, 'a, 'ar) watch_api"

definition lifecycle_new :: "('s, 'sr, 'a, 'ar) runtime \<Rightarrow> ('s, 'a) lifecycle" where
  "lifecycle_new rt =
     \<lparr>closed = False, active = 0, shutdown = wa_channel (rt_shutdown rt) False,
      activity = wa_channel (rt_activity rt) 0\<rparr>"

definition is_closed :: "('s, 'a) lifecycle \<Rightarrow> bool" where
  "is_closed l = closed l"

definition ensure_open :: "('s, 'a) lifecycle \<Rightarrow> unit kafka_result" where
  "ensure_open l = (if is_closed l then Inl (Closed msg_pool_closed) else Inr ())"

definition fetch_add_active :: "('s, 'a) lifecycle \<Rightarrow> ('s, 'a) lifecycle" where
  "fetch_add_active l = l\<lparr>active := active l + 1\<rparr>"

definition fetch_sub_active :: "('s, 'a) lifecycle \<Rightarrow> ('s, 'a) lifecycle" where
  "fetch_sub_active l = l\<lparr>active := active l - 1\<rparr>"

definition notify_activity :: "('s, 'sr, 'a, 'ar) runtime \<Rightarrow> ('s, 'a) lifecycle \<Rightarrow> ('s, 'a) lifecycle" where
  "notify_activity rt l = l\<lparr>activity := wa_modify (rt_activity rt) (\<lambda>generation. generation + 1) (activity l)\<rparr>"

text \<open>\<open>Drop\<close> of an operation guard.\<close>

definition drop_guard :: "('s, 'sr, 'a, 'ar) runtime \<Rightarrow> ('s, 'a) lifecycle \<Rightarrow> ('s, 'a) lifecycle" where
  "drop_guard rt l = notify_activity rt (fetch_sub_active l)"

text \<open>\<open>others\<close>: what other tasks do between the first check and the count, and between the count
  and the second check. \<open>Inr ()\<close> hands the caller a guard.\<close>

definition start_operation ::
  "('s, 'sr, 'a, 'ar) runtime \<Rightarrow> (('s, 'a) lifecycle \<Rightarrow> ('s, 'a) lifecycle) \<Rightarrow>
   (('s, 'a) lifecycle \<Rightarrow> ('s, 'a) lifecycle) \<Rightarrow> ('s, 'a) lifecycle \<Rightarrow> unit kafka_result \<times> ('s, 'a) lifecycle"
where
  "start_operation rt others1 others2 l =
     (case ensure_open l of
        Inl e \<Rightarrow> (Inl e, l)
      | Inr _ \<Rightarrow>
          (let l2 = others2 (fetch_add_active (others1 l)) in
           if is_closed l2 then (Inl (Closed msg_pool_closing), drop_guard rt l2)
           else (Inr (), l2)))"

definition subscribe_shutdown :: "('s, 'sr, 'a, 'ar) runtime \<Rightarrow> ('s, 'a) lifecycle \<Rightarrow> 'sr" where
  "subscribe_shutdown rt l = wa_subscribe (rt_shutdown rt) (shutdown l)"

text \<open>The first part of \<open>close\<close>: the flag, then the broadcast.\<close>

definition store_closed :: "('s, 'a) lifecycle \<Rightarrow> ('s, 'a) lifecycle" where
  "store_closed l = l\<lparr>closed := True\<rparr>"

definition broadcast_shutdown :: "('s, 'sr, 'a, 'ar) runtime \<Rightarrow> ('s, 'a) lifecycle \<Rightarrow> ('s, 'a) lifecycle" where
  "broadcast_shutdown rt l = l\<lparr>shutdown := wa_modify (rt_shutdown rt) (\<lambda>_. True) (shutdown l)\<rparr>"

definition begin_close :: "('s, 'sr, 'a, 'ar) runtime \<Rightarrow> ('s, 'a) lifecycle \<Rightarrow> ('s, 'a) lifecycle" where
  "begin_close rt l = broadcast_shutdown rt (store_closed l)"

section \<open>Waiting for the shutdown signal\<close>

text \<open>
  What a poll of the receiver finds: the channel as it is then, or that all senders are gone.
  The result says whether the wait has ended by the last poll.
\<close>

datatype 'w poll = Alive 'w | SendersGone

fun shutdown_loop :: "(bool, 'w, 'r) watch_api \<Rightarrow> 'r \<Rightarrow> 'w poll list \<Rightarrow> bool" where
  "shutdown_loop api r [] = False"
| "shutdown_loop api r (SendersGone # ps) = True"
| "shutdown_loop api r (Alive w # ps) =
     (if wa_changed api w r
      then (if wa_borrow api w then True else shutdown_loop api (wa_seen api w r) ps)
      else shutdown_loop api r ps)"

definition wait_for_shutdown :: "(bool, 'w, 'r) watch_api \<Rightarrow> 'r \<Rightarrow> 'w \<Rightarrow> 'w poll list \<Rightarrow> bool" where
  "wait_for_shutdown api r w polls =
     (if wa_borrow api w then True else shutdown_loop api r (Alive w # polls))"

text \<open>\<open>select!\<close> of the shutdown signal and a bounded queue's \<open>send\<close>, \<open>None\<close> when neither comes.\<close>

definition send_or_shutdown :: "instant option \<Rightarrow> bool future \<Rightarrow> bool option" where
  "send_or_shutdown shutdown_at send =
     (case biased_select shutdown_at send of
        ShutdownWon \<Rightarrow> Some False
      | Finished sent \<Rightarrow> Some sent
      | Blocked \<Rightarrow> None)"

text \<open>The polls of a channel that only changes by sends.\<close>

fun evolves :: "(bool, 'w, 'r) watch_api \<Rightarrow> 'w \<Rightarrow> 'w poll list \<Rightarrow> bool" where
  "evolves api w [] = True"
| "evolves api w (SendersGone # ps) = True"
| "evolves api w (Alive w' # ps) = ((\<exists>fs. w' = fold (wa_modify api) fs w) \<and> evolves api w' ps)"

fun signalled :: "(bool, 'w, 'r) watch_api \<Rightarrow> 'w poll list \<Rightarrow> bool" where
  "signalled api [] = False"
| "signalled api (SendersGone # ps) = True"
| "signalled api (Alive w # ps) = (wa_borrow api w \<or> signalled api ps)"

lemma fold_modify:
  assumes "watch_laws api" and "wa_receiver api w r"
  shows "wa_receiver api (fold (wa_modify api) fs w) r"
    and "fs \<noteq> [] \<Longrightarrow> wa_changed api (fold (wa_modify api) fs w) r"
  using assms(2)
  by (induction fs arbitrary: w rule: rev_induct) (simp_all add: watch_lawsD [OF assms(1)])

lemma shutdown_loop_signalled:
  assumes "watch_laws api" and "wa_receiver api w r" and "\<not> wa_changed api w r" and "\<not> wa_borrow api w"
    and "evolves api w ps"
  shows "shutdown_loop api r ps = signalled api ps"
  using assms(2-)
proof (induction ps arbitrary: w r)
  case (Cons q ps)
  note laws = watch_lawsD [OF assms(1)]
  show ?case
  proof (cases q)
    case (Alive w')
    with Cons.prems obtain fs where fs: "w' = fold (wa_modify api) fs w" and ev: "evolves api w' ps"
      by auto
    have rec: "wa_receiver api w' r" using fold_modify(1) [OF assms(1) Cons.prems(1)] by (simp add: fs)
    show ?thesis
    proof (cases "wa_changed api w' r")
      case True
      then show ?thesis using Cons.IH [of w' "wa_seen api w' r"] laws(7,8) [OF rec] ev by (simp add: Alive)
    next
      case False
      then have "fs = []" using fold_modify(2) [OF assms(1) Cons.prems(1)] by (auto simp: fs)
      with False Cons.prems ev show ?thesis using Cons.IH [of w r] by (simp add: Alive fs)
    qed
  qed simp
qed simp

lemmas life_defs = fetch_add_active_def fetch_sub_active_def notify_activity_def store_closed_def
  broadcast_shutdown_def is_closed_def

text \<open>A concrete runtime for evaluated runs.\<close>

definition sample_rt :: "(bool \<times> nat, nat, u64 \<times> nat, nat) runtime" where
  "sample_rt = \<lparr>rt_shutdown = versioned_watch, rt_activity = versioned_watch\<rparr>"

section \<open>Properties\<close>

text \<open>\<open>wait_for_shutdown\<close> ends exactly when the flag was already set, some poll finds it set, or
  the senders are gone: neither a spurious wake-up nor a change before the subscription is taken
  for, or hides, the signal.\<close>

theorem wait_for_shutdown_iff:
  assumes "watch_laws api" and "wa_receiver api w r" and "evolves api w polls"
  shows "wait_for_shutdown api r w polls = (wa_borrow api w \<or> signalled api polls)"
proof (cases "wa_borrow api w \<or> \<not> wa_changed api w r")
  case True
  then show ?thesis
    using shutdown_loop_signalled [OF assms(1,2) _ _ assms(3)] by (auto simp: wait_for_shutdown_def)
next
  case False
  then show ?thesis
    using shutdown_loop_signalled [OF assms(1) watch_lawsD(7,8) [OF assms(1,2)] _ assms(3)]
    by (simp add: wait_for_shutdown_def)
qed

lemma wait_for_shutdown_iff_witness:
  "wait_for_shutdown versioned_watch 0 (False, 0) [Alive (False, 0), Alive (True, 1)]"
proof -
  have "evolves versioned_watch (False, 0) [Alive (False, 0), Alive (True, 1)]"
    by (simp, intro conjI exI [of _ "[]"] exI [of _ "[\<lambda>_. True]"]) (simp_all add: versioned_watch_def)
  from wait_for_shutdown_iff [OF versioned_watch_laws _ this, of 0]
  show ?thesis by (simp add: versioned_watch_def)
qed

text \<open>The double check of \<open>start_operation\<close>: a guard is handed out exactly when neither check sees
  the pool closed, the count then is one higher, and a refused caller leaves it as it was, whatever
  the other tasks do to the flag and the channels in between.\<close>

theorem start_operation_double_check:
  assumes "\<And>l. active (others1 l) = active l" and "\<And>l. active (others2 l) = active l"
  shows "(is_ok (fst (start_operation rt others1 others2 l)) \<longleftrightarrow>
      \<not> closed l \<and> \<not> closed (others2 (fetch_add_active (others1 l)))) \<and>
    active (snd (start_operation rt others1 others2 l)) =
      active l + (if is_ok (fst (start_operation rt others1 others2 l)) then 1 else 0)"
  using assms
  by (simp add: start_operation_def ensure_open_def life_defs drop_guard_def Let_def)

lemma start_operation_double_check_witness:
  "\<not> is_ok (fst (start_operation sample_rt (\<lambda>l. l) (begin_close sample_rt) (lifecycle_new sample_rt))) \<and>
   active (snd (start_operation sample_rt (\<lambda>l. l) (begin_close sample_rt) (lifecycle_new sample_rt))) = 0"
proof -
  have "active (begin_close sample_rt l) = active l" for l :: "(bool \<times> nat, u64 \<times> nat) lifecycle"
    by (simp add: begin_close_def life_defs)
  from start_operation_double_check [of "\<lambda>l. l", OF refl this, of sample_rt "lifecycle_new sample_rt"]
  moreover have "closed (begin_close sample_rt l)" for l :: "(bool \<times> nat, u64 \<times> nat) lifecycle"
    by (simp add: begin_close_def life_defs)
  ultimately show ?thesis by (simp add: lifecycle_new_def)
qed

end
