(* ===== verification/Lifecycle_Tasks.thy ===== *)
theory Lifecycle_Tasks
  imports Lifecycle Rust_Atomics
begin

text \<open>
  \<open>src/lifecycle.rs\<close>, all tasks together: any number of operations and of concurrent \<open>close\<close> calls as a
  step relation whose steps are the single accesses, over the memory of \<open>Rust_Atomics\<close> with the
  orderings the code asks for. A task reads any value its view allows; the locks inside the watch
  channels synchronize those who notify with those who look. With \<open>latest\<close> every load reads the last
  message: the runs of sequentially consistent accesses.
\<close>

section \<open>The tasks\<close>

text \<open>
  Where a task is in \<open>start_operation\<close> and the life of its guard: \<open>OpChecked\<close> after the first
  check, \<open>OpCounted\<close> after \<open>fetch_add\<close>, \<open>OpGranted\<close> with the guard returned, \<open>OpRefused\<close> when the
  second check found the pool closed and the guard is about to be dropped, \<open>OpReleasing\<close> between
  \<open>fetch_sub\<close> and the notification.
\<close>

datatype op_pc = OpIdle | OpChecked | OpCounted | OpGranted | OpRefused | OpReleasing

text \<open>Where a call of \<open>close\<close> is; it holds its receiver of the activity channel.\<close>

datatype 'ar close_pc =
    ClIdle | ClSubscribed 'ar | ClStored 'ar | ClLoop 'ar | ClWaiting 'ar | ClDone | ClTimedOut

text \<open>What a call of \<open>close\<close> has returned. Its wait cannot fail with a closed notification channel: the call
  itself keeps the sender alive.\<close>

definition close_result :: "'ar close_pc \<Rightarrow> unit kafka_result option" where
  "close_result q =
     (case q of ClDone \<Rightarrow> Some (Inr ()) | ClTimedOut \<Rightarrow> Some (Inl (Timeout msg_close_timeout)) | _ \<Rightarrow> None)"

lemma close_result_Ok: "close_result q = Some (Inr ()) \<longleftrightarrow> q = ClDone"
  by (simp add: close_result_def split: close_pc.split)

text \<open>
  The two atomics are the locations of the memory, the flag as 0 and 1. Every task and \<open>close\<close> call has a
  view, and so has each channel: what those who notified had seen. \<open>tk_since\<close> records for each task
  which message of the count its \<open>fetch_add\<close> wrote.
\<close>

record ('s, 'a, 'ar) tasks =
  tk_memory :: memory
  tk_shutdown :: 's
  tk_shutdown_view :: view
  tk_activity :: 'a
  tk_activity_view :: view
  tk_op :: "nat \<Rightarrow> op_pc"
  tk_op_view :: "nat \<Rightarrow> view"
  tk_since :: "nat \<Rightarrow> nat"
  tk_close :: "nat \<Rightarrow> 'ar close_pc"
  tk_close_view :: "nat \<Rightarrow> view"

text \<open>\<open>fetch_add(1)\<close> and \<open>fetch_sub(1)\<close> of an \<open>AtomicUsize\<close> wrap around.\<close>

definition usize_add1 :: "nat \<Rightarrow> nat" where
  "usize_add1 x = unat (of_nat x + 1 :: usize)"

definition usize_sub1 :: "nat \<Rightarrow> nat" where
  "usize_sub1 x = unat (of_nat x - 1 :: usize)"

definition op_at :: "nat \<Rightarrow> op_pc \<Rightarrow> view \<Rightarrow> ('s, 'a, 'ar) tasks \<Rightarrow> ('s, 'a, 'ar) tasks" where
  "op_at i q v c = c\<lparr>tk_op := (tk_op c)(i := q), tk_op_view := (tk_op_view c)(i := v)\<rparr>"

definition close_at :: "nat \<Rightarrow> 'ar close_pc \<Rightarrow> view \<Rightarrow> ('s, 'a, 'ar) tasks \<Rightarrow> ('s, 'a, 'ar) tasks" where
  "close_at k q v c = c\<lparr>tk_close := (tk_close c)(k := q), tk_close_view := (tk_close_view c)(k := v)\<rparr>"

definition may_read ::
  "bool \<Rightarrow> ('s, 'a, 'ar) tasks \<Rightarrow> view \<Rightarrow> location \<Rightarrow> nat \<Rightarrow> nat \<Rightarrow> view \<Rightarrow> bool" where
  "may_read latest c u l j x v =
     (load_acquire (tk_memory c) u l j = Some (x, v) \<and> (latest \<longrightarrow> Suc j = length (tk_memory c l)))"

text \<open>
  One access of one task. Tasks below \<open>n\<close> run operations; the number of \<open>close\<close> calls is not bounded,
  each has its own index. The deadline of a \<open>close\<close> can expire only where it waits. Callers may learn
  from each other, by whatever means, before they call: \<open>op_learns\<close>, \<open>close_learns\<close>.
\<close>

inductive task_step ::
  "('s, 'sr, 'a, 'ar) runtime \<Rightarrow> bool \<Rightarrow> nat \<Rightarrow> ('s, 'a, 'ar) tasks \<Rightarrow> ('s, 'a, 'ar) tasks \<Rightarrow> bool"
  for rt :: "('s, 'sr, 'a, 'ar) runtime" and latest :: bool and n :: nat
where
  op_check: "i < n \<Longrightarrow> tk_op c i = OpIdle \<Longrightarrow> may_read latest c (tk_op_view c i) FlagLocation j 0 v \<Longrightarrow>
     task_step rt latest n c (op_at i OpChecked v c)"
| op_reject: "i < n \<Longrightarrow> tk_op c i = OpIdle \<Longrightarrow> may_read latest c (tk_op_view c i) FlagLocation j 1 v \<Longrightarrow>
     task_step rt latest n c (op_at i OpIdle v c)"
| op_count: "i < n \<Longrightarrow> tk_op c i = OpChecked \<Longrightarrow>
     rmw_acq_rel (tk_memory c) (tk_op_view c i) CountLocation usize_add1 = (m, v) \<Longrightarrow>
     task_step rt latest n c
       ((op_at i OpCounted v c)\<lparr>tk_memory := m, tk_since := (tk_since c)(i := v CountLocation)\<rparr>)"
| op_grant: "i < n \<Longrightarrow> tk_op c i = OpCounted \<Longrightarrow> may_read latest c (tk_op_view c i) FlagLocation j 0 v \<Longrightarrow>
     task_step rt latest n c (op_at i OpGranted v c)"
| op_refuse: "i < n \<Longrightarrow> tk_op c i = OpCounted \<Longrightarrow> may_read latest c (tk_op_view c i) FlagLocation j 1 v \<Longrightarrow>
     task_step rt latest n c (op_at i OpRefused v c)"
| op_polls: "i < n \<Longrightarrow> tk_op c i = OpGranted \<Longrightarrow>
     task_step rt latest n c (op_at i OpGranted (join_view (tk_op_view c i) (tk_shutdown_view c)) c)"
| op_release: "i < n \<Longrightarrow> tk_op c i = OpGranted \<or> tk_op c i = OpRefused \<Longrightarrow>
     rmw_acq_rel (tk_memory c) (tk_op_view c i) CountLocation usize_sub1 = (m, v) \<Longrightarrow>
     task_step rt latest n c ((op_at i OpReleasing v c)\<lparr>tk_memory := m\<rparr>)"
| op_notify: "i < n \<Longrightarrow> tk_op c i = OpReleasing \<Longrightarrow> v = join_view (tk_op_view c i) (tk_activity_view c) \<Longrightarrow>
     task_step rt latest n c
       ((op_at i OpIdle v c)\<lparr>tk_activity := wa_modify (rt_activity rt) (\<lambda>generation. generation + 1) (tk_activity c),
          tk_activity_view := v\<rparr>)"
| op_learns: "i < n \<Longrightarrow> tk_op c i = OpIdle \<Longrightarrow> w \<in> range (tk_op_view c) \<union> range (tk_close_view c) \<Longrightarrow>
     task_step rt latest n c (op_at i OpIdle (join_view (tk_op_view c i) w) c)"
| close_learns: "tk_close c k = ClIdle \<Longrightarrow> w \<in> range (tk_op_view c) \<union> range (tk_close_view c) \<Longrightarrow>
     task_step rt latest n c (close_at k ClIdle (join_view (tk_close_view c k) w) c)"
| close_subscribe: "tk_close c k = ClIdle \<Longrightarrow>
     task_step rt latest n c (close_at k (ClSubscribed (wa_subscribe (rt_activity rt) (tk_activity c)))
       (join_view (tk_close_view c k) (tk_activity_view c)) c)"
| close_store: "tk_close c k = ClSubscribed r \<Longrightarrow>
     store_release (tk_memory c) (tk_close_view c k) FlagLocation 1 = (m, v) \<Longrightarrow>
     task_step rt latest n c ((close_at k (ClStored r) v c)\<lparr>tk_memory := m\<rparr>)"
| close_broadcast: "tk_close c k = ClStored r \<Longrightarrow> v = join_view (tk_close_view c k) (tk_shutdown_view c) \<Longrightarrow>
     task_step rt latest n c
       ((close_at k (ClLoop r) v c)\<lparr>tk_shutdown := wa_modify (rt_shutdown rt) (\<lambda>_. True) (tk_shutdown c),
          tk_shutdown_view := v\<rparr>)"
| close_drained: "tk_close c k = ClLoop r \<Longrightarrow> may_read latest c (tk_close_view c k) CountLocation j 0 v \<Longrightarrow>
     task_step rt latest n c (close_at k ClDone v c)"
| close_wait: "tk_close c k = ClLoop r \<Longrightarrow> may_read latest c (tk_close_view c k) CountLocation j x v \<Longrightarrow> x \<noteq> 0 \<Longrightarrow>
     task_step rt latest n c (close_at k (ClWaiting r) v c)"
| close_wake: "tk_close c k = ClWaiting r \<Longrightarrow> wa_changed (rt_activity rt) (tk_activity c) r \<Longrightarrow>
     task_step rt latest n c (close_at k (ClLoop (wa_seen (rt_activity rt) (tk_activity c) r))
       (join_view (tk_close_view c k) (tk_activity_view c)) c)"
| close_deadline: "tk_close c k = ClWaiting r \<Longrightarrow>
     task_step rt latest n c (close_at k ClTimedOut (tk_close_view c k) c)"

definition tasks_init :: "('s, 'sr, 'a, 'ar) runtime \<Rightarrow> ('s, 'a, 'ar) tasks" where
  "tasks_init rt =
     \<lparr>tk_memory = initial_memory,
      tk_shutdown = wa_channel (rt_shutdown rt) False, tk_shutdown_view = initial_view,
      tk_activity = wa_channel (rt_activity rt) 0, tk_activity_view = initial_view,
      tk_op = (\<lambda>_. OpIdle), tk_op_view = (\<lambda>_. initial_view), tk_since = (\<lambda>_. 0),
      tk_close = (\<lambda>_. ClIdle), tk_close_view = (\<lambda>_. initial_view)\<rparr>"

inductive task_reachable ::
  "('s, 'sr, 'a, 'ar) runtime \<Rightarrow> bool \<Rightarrow> nat \<Rightarrow> ('s, 'a, 'ar) tasks \<Rightarrow> bool"
  for rt :: "('s, 'sr, 'a, 'ar) runtime" and latest :: bool and n :: nat
where
  start: "task_reachable rt latest n (tasks_init rt)"
| step: "task_reachable rt latest n c \<Longrightarrow> task_step rt latest n c c' \<Longrightarrow> task_reachable rt latest n c'"

text \<open>The last value of everything: the lifecycle as someone sees it who has seen all.\<close>

definition life_of :: "('s, 'a, 'ar) tasks \<Rightarrow> ('s, 'a) lifecycle" where
  "life_of c =
     \<lparr>closed = (mm_value (last (tk_memory c FlagLocation)) \<noteq> 0),
      active = of_nat (mm_value (last (tk_memory c CountLocation))),
      shutdown = tk_shutdown c, activity = tk_activity c\<rparr>"

text \<open>Whether a caller knows that the pool was closed.\<close>

definition knows_closed :: "('s, 'a, 'ar) tasks \<Rightarrow> nat \<Rightarrow> bool" where
  "knows_closed c i = (0 < tk_op_view c i FlagLocation)"

text \<open>Whether a \<open>close\<close> call has seen task \<open>i\<close> being counted.\<close>

definition seen_counted :: "('s, 'a, 'ar) tasks \<Rightarrow> nat \<Rightarrow> nat \<Rightarrow> bool" where
  "seen_counted c k i = (tk_since c i \<le> tk_close_view c k CountLocation)"

section \<open>The invariant\<close>

definition counted :: "op_pc \<Rightarrow> bool" where
  "counted q = (q \<in> {OpCounted, OpGranted, OpRefused})"

definition in_flight :: "nat \<Rightarrow> (nat \<Rightarrow> op_pc) \<Rightarrow> nat" where
  "in_flight n pc = card {i. i < n \<and> counted (pc i)}"

text \<open>The receiver of a \<open>close\<close> call, and the calls that are past the flag or the broadcast.\<close>

definition receiver_of :: "'ar close_pc \<Rightarrow> 'ar option" where
  "receiver_of q =
     (case q of ClSubscribed r \<Rightarrow> Some r | ClStored r \<Rightarrow> Some r | ClLoop r \<Rightarrow> Some r
      | ClWaiting r \<Rightarrow> Some r | _ \<Rightarrow> None)"

definition past_store :: "'ar close_pc \<Rightarrow> bool" where
  "past_store q = (case q of ClIdle \<Rightarrow> False | ClSubscribed _ \<Rightarrow> False | _ \<Rightarrow> True)"

definition past_broadcast :: "'ar close_pc \<Rightarrow> bool" where
  "past_broadcast q = (case q of ClIdle \<Rightarrow> False | ClSubscribed _ \<Rightarrow> False | ClStored _ \<Rightarrow> False | _ \<Rightarrow> True)"

text \<open>The memory is well-formed, all views are views of it, and the flag is only ever raised.\<close>

definition inv_memory :: "('s, 'a, 'ar) tasks \<Rightarrow> bool" where
  "inv_memory c =
     (wf_memory (tk_memory c) \<and> (\<forall>i. in_memory (tk_memory c) (tk_op_view c i)) \<and>
      (\<forall>k. in_memory (tk_memory c) (tk_close_view c k)) \<and> in_memory (tk_memory c) (tk_shutdown_view c) \<and>
      in_memory (tk_memory c) (tk_activity_view c) \<and>
      (\<forall>j < length (tk_memory c FlagLocation). mm_value (tk_memory c FlagLocation ! j) = of_bool (j \<noteq> 0)))"

text \<open>The last count is the number of live guards; tasks from \<open>n\<close> on do nothing.\<close>

definition inv_count :: "nat \<Rightarrow> ('s, 'a, 'ar) tasks \<Rightarrow> bool" where
  "inv_count n c =
     (mm_value (last (tk_memory c CountLocation)) = in_flight n (tk_op c) \<and> (\<forall>i. n \<le> i \<longrightarrow> tk_op c i = OpIdle))"

text \<open>As long as a task is counted, no count is 0 from its own on.\<close>

definition inv_since :: "nat \<Rightarrow> ('s, 'a, 'ar) tasks \<Rightarrow> bool" where
  "inv_since n c =
     (\<forall>i < n. counted (tk_op c i) \<longrightarrow> tk_since c i < length (tk_memory c CountLocation) \<and>
        (\<forall>p < length (tk_memory c CountLocation). tk_since c i \<le> p \<longrightarrow> 0 < mm_value (tk_memory c CountLocation ! p)))"

text \<open>The flag is set before the broadcast, and both before a \<open>close\<close> looks at the count; who saw the
  signal has seen the flag.\<close>

definition inv_flags :: "('s, 'sr, 'a, 'ar) runtime \<Rightarrow> ('s, 'a, 'ar) tasks \<Rightarrow> bool" where
  "inv_flags rt c =
     ((\<forall>k. past_store (tk_close c k) \<longrightarrow> 0 < tk_close_view c k FlagLocation) \<and>
      (\<forall>k. past_broadcast (tk_close c k) \<longrightarrow> wa_borrow (rt_shutdown rt) (tk_shutdown c)) \<and>
      (wa_borrow (rt_shutdown rt) (tk_shutdown c) \<longrightarrow> 0 < tk_shutdown_view c FlagLocation))"

definition inv_receivers :: "('s, 'sr, 'a, 'ar) runtime \<Rightarrow> ('s, 'a, 'ar) tasks \<Rightarrow> bool" where
  "inv_receivers rt c =
     (\<forall>k r. receiver_of (tk_close c k) = Some r \<longrightarrow> wa_receiver (rt_activity rt) (tk_activity c) r \<and>
        (\<not> wa_changed (rt_activity rt) (tk_activity c) r \<longrightarrow>
           tk_activity_view c CountLocation \<le> tk_close_view c k CountLocation))"

text \<open>What a \<open>close\<close> call found in the count is what its view points at.\<close>

definition inv_looked :: "('s, 'a, 'ar) tasks \<Rightarrow> bool" where
  "inv_looked c =
     (\<forall>k. (tk_close c k = ClDone \<longrightarrow> mm_value (tk_memory c CountLocation ! tk_close_view c k CountLocation) = 0) \<and>
          (\<forall>r. tk_close c k = ClWaiting r \<longrightarrow>
             0 < mm_value (tk_memory c CountLocation ! tk_close_view c k CountLocation)))"

text \<open>Whoever changed the count last has notified, or is still to do so.\<close>

definition busy :: "op_pc \<Rightarrow> bool" where
  "busy q = (counted q \<or> q = OpReleasing)"

definition inv_notified :: "nat \<Rightarrow> ('s, 'a, 'ar) tasks \<Rightarrow> bool" where
  "inv_notified n c =
     (length (tk_memory c CountLocation) \<le> Suc (tk_activity_view c CountLocation) \<or>
      (\<exists>i < n. busy (tk_op c i) \<and> length (tk_memory c CountLocation) = Suc (tk_op_view c i CountLocation)))"

text \<open>With the last values: after a \<open>close\<close> has returned \<open>Ok\<close> nobody holds a guard.\<close>

definition inv_drained :: "bool \<Rightarrow> ('s, 'a, 'ar) tasks \<Rightarrow> bool" where
  "inv_drained latest c = (latest \<longrightarrow> (\<forall>k. tk_close c k = ClDone \<longrightarrow> (\<forall>i. tk_op c i \<noteq> OpGranted)))"

definition task_inv :: "('s, 'sr, 'a, 'ar) runtime \<Rightarrow> bool \<Rightarrow> nat \<Rightarrow> ('s, 'a, 'ar) tasks \<Rightarrow> bool" where
  "task_inv rt latest n c =
     (inv_memory c \<and> inv_count n c \<and> inv_since n c \<and> inv_flags rt c \<and> inv_receivers rt c \<and> inv_looked c \<and>
      inv_notified n c \<and> inv_drained latest c)"

definition runtime_laws :: "('s, 'sr, 'a, 'ar) runtime \<Rightarrow> bool" where
  "runtime_laws rt = (watch_laws (rt_shutdown rt) \<and> watch_laws (rt_activity rt))"

lemma op_at_simps [simp]:
  "tk_memory (op_at i q v c) = tk_memory c" "tk_shutdown (op_at i q v c) = tk_shutdown c"
  "tk_shutdown_view (op_at i q v c) = tk_shutdown_view c" "tk_activity (op_at i q v c) = tk_activity c"
  "tk_activity_view (op_at i q v c) = tk_activity_view c" "tk_op (op_at i q v c) = (tk_op c)(i := q)"
  "tk_op_view (op_at i q v c) = (tk_op_view c)(i := v)" "tk_since (op_at i q v c) = tk_since c"
  "tk_close (op_at i q v c) = tk_close c" "tk_close_view (op_at i q v c) = tk_close_view c"
  by (simp_all add: op_at_def)

lemma close_at_simps [simp]:
  "tk_memory (close_at i q v c) = tk_memory c" "tk_shutdown (close_at i q v c) = tk_shutdown c"
  "tk_shutdown_view (close_at i q v c) = tk_shutdown_view c" "tk_activity (close_at i q v c) = tk_activity c"
  "tk_activity_view (close_at i q v c) = tk_activity_view c" "tk_op (close_at i q v c) = tk_op c"
  "tk_op_view (close_at i q v c) = tk_op_view c" "tk_since (close_at i q v c) = tk_since c"
  "tk_close (close_at i q v c) = (tk_close c)(i := q)" "tk_close_view (close_at i q v c) = (tk_close_view c)(i := v)"
  by (simp_all add: close_at_def)

lemma counted_simps [simp]:
  "counted OpCounted" "counted OpGranted" "counted OpRefused"
  "\<not> counted OpIdle" "\<not> counted OpChecked" "\<not> counted OpReleasing"
  "busy OpCounted" "busy OpGranted" "busy OpRefused" "busy OpReleasing" "\<not> busy OpIdle" "\<not> busy OpChecked"
  by (simp_all add: counted_def busy_def)

lemma in_flight_le: "in_flight n pc \<le> n"
proof -
  have "card {i. i < n \<and> counted (pc i)} \<le> card {i. i < n}" by (rule card_mono) auto
  then show ?thesis by (simp add: in_flight_def)
qed

lemma in_flight_0: "in_flight n pc = 0 \<longleftrightarrow> (\<forall>i < n. \<not> counted (pc i))"
  by (auto simp: in_flight_def)

lemma in_flight_upd:
  assumes "i < n"
  shows "in_flight n (pc(i := q)) =
    (if counted (pc i) \<and> \<not> counted q then in_flight n pc - 1
     else if \<not> counted (pc i) \<and> counted q then in_flight n pc + 1 else in_flight n pc)"
    and "counted (pc i) \<Longrightarrow> 0 < in_flight n pc"
proof -
  define A where "A = {j. j < n \<and> counted (pc j)}"
  have fin: "finite A" by (simp add: A_def)
  have "{j. j < n \<and> counted ((pc(i := q)) j)} = (if counted q then insert i A else A - {i})"
    using assms by (auto simp: A_def)
  moreover have "i \<in> A \<longleftrightarrow> counted (pc i)" using assms by (simp add: A_def)
  ultimately show "in_flight n (pc(i := q)) =
    (if counted (pc i) \<and> \<not> counted q then in_flight n pc - 1
     else if \<not> counted (pc i) \<and> counted q then in_flight n pc + 1 else in_flight n pc)"
    using fin by (simp add: in_flight_def A_def [symmetric] insert_absorb)
  show "counted (pc i) \<Longrightarrow> 0 < in_flight n pc"
    using assms in_flight_0 [of n pc] by auto
qed

lemma usize_values:
  "x + 1 < 2 ^ 64 \<Longrightarrow> usize_add1 x = x + 1" "0 < x \<Longrightarrow> x < 2 ^ 64 \<Longrightarrow> usize_sub1 x = x - 1"
proof -
  show "usize_add1 x = x + 1" if "x + 1 < 2 ^ 64"
  proof -
    have "usize_add1 x = unat (of_nat (x + 1) :: usize)" by (simp add: usize_add1_def add.commute)
    then show ?thesis using that by (simp add: unat_of_nat take_bit_nat_eq_self del: of_nat_add of_nat_Suc)
  qed
  show "usize_sub1 x = x - 1" if "0 < x" "x < 2 ^ 64"
  proof -
    have "usize_sub1 x = unat (of_nat (x - 1) :: usize)" using that by (simp add: usize_sub1_def of_nat_diff)
    then show ?thesis using that by (simp add: unat_of_nat take_bit_nat_eq_self del: of_nat_diff)
  qed
qed

lemma close_pc_simps [simp]:
  "receiver_of (ClSubscribed r) = Some r" "receiver_of (ClStored r) = Some r"
  "receiver_of (ClLoop r) = Some r" "receiver_of (ClWaiting r) = Some r"
  "receiver_of ClIdle = None" "receiver_of ClDone = None" "receiver_of ClTimedOut = None"
  "past_store (ClStored r)" "past_store (ClLoop r)" "past_store (ClWaiting r)" "past_store ClDone"
  "past_store ClTimedOut" "\<not> past_store ClIdle" "\<not> past_store (ClSubscribed r)"
  "past_broadcast (ClLoop r)" "past_broadcast (ClWaiting r)" "past_broadcast ClDone"
  "past_broadcast ClTimedOut" "\<not> past_broadcast ClIdle" "\<not> past_broadcast (ClSubscribed r)"
  "\<not> past_broadcast (ClStored r)"
  by (simp_all add: receiver_of_def past_store_def past_broadcast_def)

inductive_cases task_stepE: "task_step rt latest n c c'"

subsection \<open>The memory\<close>

lemma inv_memoryD:
  assumes "inv_memory c"
  shows "wf_memory (tk_memory c)" "in_memory (tk_memory c) (tk_op_view c i)"
    "in_memory (tk_memory c) (tk_close_view c k)" "in_memory (tk_memory c) (tk_shutdown_view c)"
    "in_memory (tk_memory c) (tk_activity_view c)"
    "j < length (tk_memory c FlagLocation) \<Longrightarrow> mm_value (tk_memory c FlagLocation ! j) = of_bool (j \<noteq> 0)"
  using assms by (simp_all add: inv_memory_def)

lemma last_at: "i < length xs \<Longrightarrow> last xs = xs ! (length xs - 1)"
  by (rule last_conv_nth) auto

lemma may_readD:
  assumes "may_read latest c u l j x v" and "inv_memory c" and "in_memory (tk_memory c) u"
  shows "x = mm_value (tk_memory c l ! j)" "u l \<le> j" "j < length (tk_memory c l)" "v l = j"
    "in_memory (tk_memory c) v" "u k \<le> v k" "latest \<Longrightarrow> x = mm_value (last (tk_memory c l))"
proof -
  have load: "load_acquire (tk_memory c) u l j = Some (x, v)" using assms(1) by (simp add: may_read_def)
  note D = load_acquireD [OF load inv_memoryD(1) [OF assms(2)] assms(3)]
  show "x = mm_value (tk_memory c l ! j)" "u l \<le> j" "j < length (tk_memory c l)" "v l = j"
    "in_memory (tk_memory c) v" "u k \<le> v k" by (rule D)+
  show "x = mm_value (last (tk_memory c l))" if latest
  proof -
    have "j = length (tk_memory c l) - 1" using that assms(1) by (auto simp: may_read_def)
    then show ?thesis using D(1) last_at [OF D(3)] by simp
  qed
qed

lemma reads_flag:
  assumes "may_read latest c u FlagLocation j x v" and "inv_memory c" and "in_memory (tk_memory c) u"
  shows "x = 0 \<longleftrightarrow> v FlagLocation = 0"
  using may_readD(1,3,4) [OF assms] inv_memoryD(6) [OF assms(2), of j] by simp

lemma flag_up:
  assumes "inv_memory c" and "in_memory (tk_memory c) v" and "0 < v FlagLocation"
  shows "closed (life_of c)"
proof -
  have "1 < length (tk_memory c FlagLocation)"
    using assms(2,3) by (auto simp: in_memory_def) (metis One_nat_def Suc_lessI dual_order.strict_trans)
  then show ?thesis
    using inv_memoryD(6) [OF assms(1), of "length (tk_memory c FlagLocation) - 1"] last_at
    by (fastforce simp: life_of_def)
qed

lemma knows_closed: "inv_memory c \<Longrightarrow> knows_closed c i \<Longrightarrow> closed (life_of c)"
  using flag_up inv_memoryD(2) by (auto simp: knows_closed_def)

text \<open>Views and memory only grow.\<close>

lemma step_memory:
  assumes "task_step rt latest n c c'" and "inv_memory c"
  shows "inv_memory c'" and "extends (tk_memory c) (tk_memory c')"
    and "tk_op_view c i l \<le> tk_op_view c' i l" and "tk_close_view c k l \<le> tk_close_view c' k l"
proof -
  note M = inv_memoryD [OF assms(2)]
  have "inv_memory c' \<and> extends (tk_memory c) (tk_memory c') \<and> tk_op_view c i l \<le> tk_op_view c' i l \<and>
    tk_close_view c k l \<le> tk_close_view c' k l"
    using assms(1)
  proof (cases rule: task_step.cases)
    case (op_check i j v)
    note D = may_readD [OF op_check(4) assms(2) M(2)]
    show ?thesis using assms(2) D(5,6) by (simp add: op_check(1) inv_memory_def)
  next
    case (op_reject i j v)
    note D = may_readD [OF op_reject(4) assms(2) M(2)]
    show ?thesis using assms(2) D(5,6) by (simp add: op_reject(1) inv_memory_def)
  next
    case (op_grant i j v)
    note D = may_readD [OF op_grant(4) assms(2) M(2)]
    show ?thesis using assms(2) D(5,6) by (simp add: op_grant(1) inv_memory_def)
  next
    case (op_refuse i j v)
    note D = may_readD [OF op_refuse(4) assms(2) M(2)]
    show ?thesis using assms(2) D(5,6) by (simp add: op_refuse(1) inv_memory_def)
  next
    case (close_drained k r j v)
    note D = may_readD [OF close_drained(3) assms(2) M(3)]
    show ?thesis using assms(2) D(5,6) by (simp add: close_drained(1) inv_memory_def)
  next
    case (close_wait k r j x v)
    note D = may_readD [OF close_wait(3) assms(2) M(3)]
    show ?thesis using assms(2) D(5,6) by (simp add: close_wait(1) inv_memory_def)
  next
    case (op_count i m v)
    note D = rmw_acq_relD [OF op_count(4) M(1,2)]
    then show ?thesis using assms(2) extends_in_memory [OF D(4)]
      by (simp add: op_count(1) inv_memory_def add_message_at)
  next
    case (op_release i m v)
    note D = rmw_acq_relD [OF op_release(4) M(1,2)]
    then show ?thesis using assms(2) extends_in_memory [OF D(4)]
      by (simp add: op_release(1) inv_memory_def add_message_at)
  next
    case (close_store k r m v)
    note D = store_releaseD [OF close_store(3) M(1,3)]
    have "m FlagLocation ! j = (tk_memory c FlagLocation @ [\<lparr>mm_value = 1, mm_view = v\<rparr>]) ! j" for j
      using D(1) by (simp add: add_message_at)
    moreover have "tk_memory c FlagLocation \<noteq> []" using wf_memoryD(1) [OF M(1)] .
    ultimately have "j < length (m FlagLocation) \<Longrightarrow> mm_value (m FlagLocation ! j) = of_bool (j \<noteq> 0)" for j
      using D(1) M(6) [of j] by (auto simp: add_message_at nth_append)
    with D show ?thesis using assms(2) extends_in_memory [OF D(4)] by (simp add: close_store(1) inv_memory_def)
  next
    case (op_learns i w)
    then have "in_memory (tk_memory c) w" using M(2,3) by auto
    then show ?thesis using assms(2) by (simp add: op_learns(1) inv_memory_def join_view_at)
  next
    case (close_learns k w)
    then have "in_memory (tk_memory c) w" using M(2,3) by auto
    then show ?thesis using assms(2) by (simp add: close_learns(1) inv_memory_def join_view_at)
  qed (use assms(2) in \<open>simp_all add: inv_memory_def join_view_at\<close>)
  then show "inv_memory c'" "extends (tk_memory c) (tk_memory c')" "tk_op_view c i l \<le> tk_op_view c' i l"
    "tk_close_view c k l \<le> tk_close_view c' k l" by simp_all
qed

text \<open>The messages of the count: none is added, or one by the task that moves.\<close>

lemma step_count:
  assumes "task_step rt latest n c c'" and "inv_memory c"
  obtains (same) "tk_memory c' CountLocation = tk_memory c CountLocation"
      "in_flight n (tk_op c') = in_flight n (tk_op c)"
      "\<And>j. counted (tk_op c' j) \<Longrightarrow> counted (tk_op c j) \<and> tk_since c' j = tk_since c j"
  | (added) i x v where "i < n" "tk_memory c' CountLocation = tk_memory c CountLocation @ [\<lparr>mm_value = x, mm_view = v\<rparr>]"
      "busy (tk_op c' i)" "tk_op_view c' i CountLocation = length (tk_memory c CountLocation)"
      "\<And>j. counted (tk_op c' j) \<Longrightarrow> counted (tk_op c j) \<and> tk_since c' j = tk_since c j \<or>
         tk_since c' j = length (tk_memory c CountLocation)"
      "x = usize_add1 (mm_value (last (tk_memory c CountLocation))) \<and>
          in_flight n (tk_op c') = in_flight n (tk_op c) + 1 \<or>
       x = usize_sub1 (mm_value (last (tk_memory c CountLocation))) \<and> 0 < in_flight n (tk_op c) \<and>
          in_flight n (tk_op c') = in_flight n (tk_op c) - 1"
  using assms(1)
proof (cases rule: task_step.cases)
  case (op_count i m v)
  note D = rmw_acq_relD [OF op_count(4) inv_memoryD(1,2) [OF assms(2)]]
  show ?thesis
    by (rule added [of i "usize_add1 (mm_value (last (tk_memory c CountLocation)))" v])
      (use op_count(2,3) D(1,5) in \<open>auto simp: op_count(1) add_message_at in_flight_upd split: if_splits\<close>)
next
  case (op_release i m v)
  note D = rmw_acq_relD [OF op_release(4) inv_memoryD(1,2) [OF assms(2)]]
  have "counted (tk_op c i)" using op_release(3) by auto
  then show ?thesis
    by (intro added [of i "usize_sub1 (mm_value (last (tk_memory c CountLocation)))" v])
      (use op_release(2,3) D(1,5) in_flight_upd(2) [OF op_release(2), of "tk_op c"] in
        \<open>auto simp: op_release(1) add_message_at in_flight_upd split: if_splits\<close>)
next
  case (close_store k r m v)
  note D = store_releaseD [OF close_store(3) inv_memoryD(1,3) [OF assms(2)]]
  show ?thesis by (rule same) (use D(1) in \<open>auto simp: close_store(1) add_message_at\<close>)
qed (rule same; auto simp: in_flight_upd split: if_splits)+

lemma inv_count_step:
  assumes "task_step rt latest n c c'" and "n < 2 ^ 64" and "inv_memory c" and "inv_count n c"
  shows "inv_count n c'"
proof -
  have idle: "\<forall>i. n \<le> i \<longrightarrow> tk_op c' i = OpIdle"
    using assms(1,4) by (cases rule: task_step.cases) (auto simp: inv_count_def)
  have bound: "in_flight n pc < 2 ^ 64" for pc using in_flight_le [of n pc] assms(2) by linarith
  have last: "mm_value (last (tk_memory c CountLocation)) = in_flight n (tk_op c)"
    using assms(4) by (simp add: inv_count_def)
  from assms(1,3) have "mm_value (last (tk_memory c' CountLocation)) = in_flight n (tk_op c')"
  proof (cases rule: step_count)
    case same
    with last show ?thesis by simp
  next
    case (added i x v)
    then have "x = in_flight n (tk_op c')"
      using usize_values [of "in_flight n (tk_op c)"] bound [of "tk_op c"] bound [of "tk_op c'"] by (auto simp: last)
    with added(2) show ?thesis by simp
  qed
  with idle show ?thesis by (simp add: inv_count_def)
qed

lemma inv_since_step:
  assumes step: "task_step rt latest n c c'" and mem: "inv_memory c" and "inv_count n c'" and "inv_since n c"
  shows "inv_since n c'"
proof -
  let ?C = "tk_memory c CountLocation" and ?C' = "tk_memory c' CountLocation"
  have last: "0 < mm_value (last ?C')" if "j < n" "counted (tk_op c' j)" for j
    using that assms(3) in_flight_0 [of n "tk_op c'"] by (auto simp: inv_count_def)
  have "tk_since c' j < length ?C' \<and> (\<forall>p < length ?C'. tk_since c' j \<le> p \<longrightarrow> 0 < mm_value (?C' ! p))"
    if j: "j < n" "counted (tk_op c' j)" for j
    using step mem
  proof (cases rule: step_count)
    case same
    with assms(4) j show ?thesis by (simp add: inv_since_def)
  next
    case (added i x v)
    then have pos: "0 < x" using last [OF j] by simp
    consider (old) "counted (tk_op c j)" "tk_since c' j = tk_since c j" | (now) "tk_since c' j = length ?C"
      using added(5) [OF j(2)] by auto
    then show ?thesis
    proof cases
      case old
      then show ?thesis using assms(4) j(1) pos by (auto simp: inv_since_def added(2) nth_append less_Suc_eq)
    next
      case now
      then show ?thesis using pos by (auto simp: added(2) nth_append)
    qed
  qed
  then show ?thesis by (simp add: inv_since_def)
qed

lemma inv_flagsD:
  assumes "inv_flags rt c"
  shows "past_store (tk_close c k) \<Longrightarrow> 0 < tk_close_view c k FlagLocation"
    and "past_broadcast (tk_close c k) \<Longrightarrow> wa_borrow (rt_shutdown rt) (tk_shutdown c)"
    and "wa_borrow (rt_shutdown rt) (tk_shutdown c) \<Longrightarrow> 0 < tk_shutdown_view c FlagLocation"
  using assms by (auto simp: inv_flags_def)

lemma inv_flags_frame:
  assumes "inv_flags rt c" and "tk_shutdown c' = tk_shutdown c" "tk_shutdown_view c' = tk_shutdown_view c"
    and "\<And>j. tk_close_view c j FlagLocation \<le> tk_close_view c' j FlagLocation"
    and "\<And>j. past_store (tk_close c' j) \<Longrightarrow> past_store (tk_close c j)"
    and "\<And>j. past_broadcast (tk_close c' j) \<Longrightarrow> past_broadcast (tk_close c j)"
  shows "inv_flags rt c'"
proof -
  have "0 < tk_close_view c' j FlagLocation" if "past_store (tk_close c' j)" for j
    using inv_flagsD(1) [OF assms(1) assms(5) [OF that]] assms(4) less_le_trans by blast
  then show ?thesis using inv_flagsD(2,3) [OF assms(1)] assms(2,3,6) by (simp add: inv_flags_def) blast
qed

lemma inv_flags_step:
  assumes step: "task_step rt latest n c c'" and rt: "runtime_laws rt" and mem: "inv_memory c" and inv: "inv_flags rt c"
  shows "inv_flags rt c'"
  using step
proof (cases rule: task_step.cases)
  case (close_store k r m v)
  note D = store_releaseD [OF close_store(3) inv_memoryD(1,3) [OF mem]]
  have "0 < v FlagLocation" using D(5) wf_memoryD(1) [OF inv_memoryD(1) [OF mem]] by simp
  then show ?thesis using inv by (auto simp: close_store(1) inv_flags_def)
next
  case (close_broadcast k r v)
  have "0 < tk_close_view c k FlagLocation" using inv_flagsD(1) [OF inv, of k] close_broadcast(2) by simp
  then have "0 < v FlagLocation" by (simp add: close_broadcast(3) join_view_at)
  moreover have "wa_borrow (rt_shutdown rt) (wa_modify (rt_shutdown rt) (\<lambda>_. True) (tk_shutdown c))"
    using rt watch_lawsD(2) [of "rt_shutdown rt"] by (simp add: runtime_laws_def)
  ultimately show ?thesis using inv by (auto simp: close_broadcast(1) inv_flags_def)
qed (rule inv_flags_frame [OF inv _ _ step_memory(4) [OF step mem]]; auto split: if_splits)+

lemma inv_receiversD:
  assumes "inv_receivers rt c" and "receiver_of (tk_close c k) = Some r"
  shows "wa_receiver (rt_activity rt) (tk_activity c) r"
    and "\<not> wa_changed (rt_activity rt) (tk_activity c) r \<Longrightarrow>
      tk_activity_view c CountLocation \<le> tk_close_view c k CountLocation"
  using assms by (auto simp: inv_receivers_def)

lemma inv_receivers_frame:
  assumes "inv_receivers rt c" and "tk_activity c' = tk_activity c" "tk_activity_view c' = tk_activity_view c"
    and "\<And>j. tk_close_view c j CountLocation \<le> tk_close_view c' j CountLocation"
    and "\<And>j r. receiver_of (tk_close c' j) = Some r \<Longrightarrow> receiver_of (tk_close c j) = Some r \<or>
      wa_receiver (rt_activity rt) (tk_activity c) r \<and>
      tk_activity_view c CountLocation \<le> tk_close_view c' j CountLocation"
  shows "inv_receivers rt c'"
  unfolding inv_receivers_def
proof (intro allI impI)
  fix k r assume "receiver_of (tk_close c' k) = Some r"
  from assms(5) [OF this] inv_receiversD [OF assms(1), of k r] assms(4) [of k]
  show "wa_receiver (rt_activity rt) (tk_activity c') r \<and>
    (\<not> wa_changed (rt_activity rt) (tk_activity c') r \<longrightarrow>
       tk_activity_view c' CountLocation \<le> tk_close_view c' k CountLocation)"
    by (auto simp: assms(2,3))
qed

lemma inv_receivers_step:
  assumes step: "task_step rt latest n c c'" and rt: "runtime_laws rt" and mem: "inv_memory c"
    and inv: "inv_receivers rt c"
  shows "inv_receivers rt c'"
proof -
  have laws: "watch_laws (rt_activity rt)" using rt by (simp add: runtime_laws_def)
  note D = inv_receiversD(1) [OF inv]
  show ?thesis
    using step
  proof (cases rule: task_step.cases)
    case (op_notify i v)
    then show ?thesis using D by (simp add: inv_receivers_def watch_lawsD(5,6) [OF laws])
  next
    case (close_subscribe k)
    show ?thesis
      by (rule inv_receivers_frame [OF inv _ _ step_memory(4) [OF step mem]])
        (auto simp: close_subscribe(1) watch_lawsD(3) [OF laws] join_view_at split: if_splits)
  next
    case (close_wake k r)
    then have "wa_receiver (rt_activity rt) (tk_activity c) r" using D [of k] by simp
    then show ?thesis
      by (intro inv_receivers_frame [OF inv _ _ step_memory(4) [OF step mem]])
        (auto simp: close_wake(1) watch_lawsD(7) [OF laws] join_view_at split: if_splits)
  qed (rule inv_receivers_frame [OF inv _ _ step_memory(4) [OF step mem]]; auto split: if_splits)+
qed

text \<open>Old messages stay, and the view of a \<open>close\<close> call that has looked moves only with its state.\<close>

lemma inv_looked_frame:
  assumes "inv_looked c" and "inv_memory c" and "extends (tk_memory c) (tk_memory c')"
    and "\<And>k. tk_close c' k = ClDone \<or> (\<exists>r. tk_close c' k = ClWaiting r) \<Longrightarrow>
      tk_close c' k = tk_close c k \<and> tk_close_view c' k = tk_close_view c k"
  shows "inv_looked c'"
proof -
  have same: "tk_memory c' CountLocation ! tk_close_view c k CountLocation =
      tk_memory c CountLocation ! tk_close_view c k CountLocation" for k
    using inv_memoryD(3) [OF assms(2), of k] by (intro extends_nth [OF assms(3)]) (simp add: in_memory_def)
  show ?thesis
    unfolding inv_looked_def
  proof (intro allI conjI impI)
    fix k
    show "mm_value (tk_memory c' CountLocation ! tk_close_view c' k CountLocation) = 0" if "tk_close c' k = ClDone"
      using assms(4) [of k] that assms(1) by (simp add: same inv_looked_def)
    show "0 < mm_value (tk_memory c' CountLocation ! tk_close_view c' k CountLocation)" if "tk_close c' k = ClWaiting r" for r
      using assms(4) [of k] that assms(1) unfolding inv_looked_def by (metis same)
  qed
qed

lemma inv_looked_step:
  assumes step: "task_step rt latest n c c'" and mem: "inv_memory c" and inv: "inv_looked c"
  shows "inv_looked c'"
  using step
proof (cases rule: task_step.cases)
  case (close_drained k r j v)
  note D = may_readD(1,4) [OF close_drained(3) mem inv_memoryD(3) [OF mem]]
  then show ?thesis using inv by (auto simp: close_drained(1) inv_looked_def)
next
  case (close_wait k r j x v)
  note D = may_readD(1,4) [OF close_wait(3) mem inv_memoryD(3) [OF mem]]
  then show ?thesis using inv close_wait(4) by (auto simp: close_wait(1) inv_looked_def)
qed (rule inv_looked_frame [OF inv mem step_memory(2) [OF step mem]]; auto split: if_splits)+

lemma inv_notified_step:
  assumes step: "task_step rt latest n c c'" and mem: "inv_memory c" and inv: "inv_notified n c"
  shows "inv_notified n c'"
  using step mem
proof (cases rule: step_count)
  case (added i x v)
  then show ?thesis by (auto simp: inv_notified_def)
next
  case same
  have le: "tk_op_view c' i CountLocation < length (tk_memory c CountLocation)" for i
    using inv_memoryD(2) [OF step_memory(1) [OF step mem], of i] same(1) unfolding in_memory_def by metis
  have grows: "length (tk_memory c CountLocation) = Suc (tk_op_view c' i CountLocation)"
    if "length (tk_memory c CountLocation) = Suc (tk_op_view c i CountLocation)" for i
    using step_memory(3) [OF step mem, of i CountLocation] le [of i] that by linarith
  from inv consider
      (told) "length (tk_memory c CountLocation) \<le> Suc (tk_activity_view c CountLocation)"
    | (owner) i where "i < n" "busy (tk_op c i)" "length (tk_memory c CountLocation) = Suc (tk_op_view c i CountLocation)"
    unfolding inv_notified_def by blast
  then show ?thesis
  proof cases
    case told
    have "tk_activity_view c CountLocation \<le> tk_activity_view c' CountLocation"
      using step by (cases rule: task_step.cases) (simp_all add: join_view_at)
    with told same(1) show ?thesis by (simp add: inv_notified_def)
  next
    case (owner i)
    show ?thesis
    proof (cases "busy (tk_op c' i)")
      case True
      then show ?thesis using owner(1) grows [OF owner(3)] same(1) by (auto simp: inv_notified_def)
    next
      case False
      have "tk_activity_view c' CountLocation = max (tk_op_view c i CountLocation) (tk_activity_view c CountLocation)"
        using step owner(2) False by (cases rule: task_step.cases) (auto simp: join_view_at split: if_splits)
      with owner(3) same(1) show ?thesis by (simp add: inv_notified_def)
    qed
  qed
qed

lemma inv_drained_step:
  assumes step: "task_step rt latest n c c'" and mem: "inv_memory c" and cnt: "inv_count n c"
    and flags: "inv_flags rt c" and inv: "inv_drained latest c"
  shows "inv_drained latest c'"
  using step
proof (cases rule: task_step.cases)
  case (op_grant i j v)
  have "\<not> closed (life_of c)" if latest
    using may_readD(7) [OF op_grant(4) mem inv_memoryD(2) [OF mem] that] by (simp add: life_of_def)
  moreover have "closed (life_of c)" if "tk_close c k = ClDone" for k
    using flag_up [OF mem inv_memoryD(3) [OF mem]] inv_flagsD(1) [OF flags, of k] that by simp
  ultimately show ?thesis by (auto simp: inv_drained_def op_grant(1))
next
  case (close_drained k r j v)
  have "in_flight n (tk_op c) = 0" if latest
    using may_readD(7) [OF close_drained(3) mem inv_memoryD(3) [OF mem] that] cnt by (simp add: inv_count_def)
  then have "tk_op c i \<noteq> OpGranted" if latest for i
    using that cnt in_flight_0 [of n "tk_op c"] by (cases "i < n") (auto simp: inv_count_def not_less)
  then show ?thesis by (simp add: inv_drained_def close_drained(1))
qed (use inv in \<open>auto simp: inv_drained_def split: if_splits\<close>)

lemma task_inv_init: "runtime_laws rt \<Longrightarrow> task_inv rt latest n (tasks_init rt)"
  using watch_lawsD(1) [of "rt_shutdown rt" False] initial_memory_wf
  by (simp add: task_inv_def inv_memory_def inv_count_def inv_since_def inv_flags_def inv_receivers_def
      inv_looked_def inv_notified_def inv_drained_def tasks_init_def runtime_laws_def in_flight_def)
    (simp add: initial_memory_def)

lemma task_invD:
  assumes "task_inv rt latest n c"
  shows "inv_memory c" "inv_count n c" "inv_since n c" "inv_flags rt c" "inv_receivers rt c" "inv_looked c"
    "inv_notified n c" "inv_drained latest c"
  using assms by (simp_all add: task_inv_def)

lemma task_inv_step:
  assumes "task_step rt latest n c c'" and "task_inv rt latest n c" and "runtime_laws rt" and "n < 2 ^ 64"
  shows "task_inv rt latest n c'"
proof -
  note D = task_invD [OF assms(2)]
  have "inv_count n c'" by (rule inv_count_step [OF assms(1,4) D(1,2)])
  then show ?thesis
    using step_memory(1) [OF assms(1) D(1)] inv_since_step [OF assms(1) D(1) _ D(3)]
      inv_flags_step [OF assms(1,3) D(1,4)] inv_receivers_step [OF assms(1,3) D(1,5)]
      inv_looked_step [OF assms(1) D(1,6)] inv_notified_step [OF assms(1) D(1,7)]
      inv_drained_step [OF assms(1) D(1,2,4,8)]
    by (simp add: task_inv_def)
qed

lemma task_inv_reachable:
  assumes "task_reachable rt latest n c" and "runtime_laws rt" and "n < 2 ^ 64"
  shows "task_inv rt latest n c"
  using assms(1)
proof (induction rule: task_reachable.induct)
  case start
  then show ?case by (rule task_inv_init [OF assms(2)])
next
  case (step c c')
  then show ?case using task_inv_step assms(2,3) by blast
qed

lemma task_reachable_trans:
  "(task_step rt latest n)\<^sup>*\<^sup>* c c' \<Longrightarrow> task_reachable rt latest n c \<Longrightarrow> task_reachable rt latest n c'"
  by (induction rule: rtranclp_induct) (auto intro: task_reachable.step)

lemma task_step_Done:
  "task_step rt latest n c c' \<Longrightarrow> tk_close c k = ClDone \<Longrightarrow>
     tk_close c' k = ClDone \<and> tk_close_view c' k = tk_close_view c k"
  by (erule task_stepE) auto

lemma task_steps_Done:
  "(task_step rt latest n)\<^sup>*\<^sup>* c c' \<Longrightarrow> tk_close c k = ClDone \<Longrightarrow>
     tk_close c' k = ClDone \<and> tk_close_view c' k = tk_close_view c k"
  by (induction rule: rtranclp_induct) (auto dest: task_step_Done)

section \<open>What follows\<close>

text \<open>A \<open>close\<close> call past its store has closed the pool for everyone who knows what it knows.\<close>

lemma closed_after_store:
  assumes "task_inv rt latest n c" and "past_store (tk_close c k)"
  shows "closed (life_of c)"
  using flag_up [OF task_invD(1) [OF assms(1)] inv_memoryD(3) [OF task_invD(1) [OF assms(1)]]]
    inv_flagsD(1) [OF task_invD(4) [OF assms(1)] assms(2)] by blast

text \<open>Whoever was counted when \<open>close\<close> found the count at 0 is not counted any more.\<close>

lemma counted_unseen:
  assumes "task_inv rt latest n c" and "tk_close c k = ClDone" and "counted (tk_op c i)"
  shows "\<not> seen_counted c k i"
proof
  note D = task_invD [OF assms(1)]
  assume seen: "seen_counted c k i"
  have "i < n" using D(2) assms(3) by (metis counted_simps(4) inv_count_def not_le)
  moreover have "tk_close_view c k CountLocation < length (tk_memory c CountLocation)"
    using inv_memoryD(3) [OF D(1)] by (simp add: in_memory_def)
  ultimately have "0 < mm_value (tk_memory c CountLocation ! tk_close_view c k CountLocation)"
    using D(3) assms(3) seen by (simp add: inv_since_def seen_counted_def)
  then show False using D(6) assms(2) by (simp add: inv_looked_def)
qed

text \<open>A guard goes only to those who do not know that the pool is closed.\<close>

lemma granted_now:
  assumes "task_step rt latest n c c'" and "inv_memory c" and "tk_op c' i = OpGranted" and "tk_op c i \<noteq> OpGranted"
  shows "\<not> knows_closed c i \<and> \<not> knows_closed c' i \<and> tk_op c i = OpCounted \<and> life_of c' = life_of c"
    and "latest \<Longrightarrow> \<not> closed (life_of c)"
proof -
  from assms(1,3,4) obtain j v where *: "may_read latest c (tk_op_view c i) FlagLocation j 0 v"
    "c' = op_at i OpGranted v c" "tk_op c i = OpCounted"
    by (cases rule: task_step.cases) (auto split: if_splits)
  note D = may_readD [OF *(1) assms(2) inv_memoryD(2) [OF assms(2)]]
  have "v FlagLocation = 0" using reads_flag [OF *(1) assms(2) inv_memoryD(2) [OF assms(2)]] by simp
  then show "\<not> knows_closed c i \<and> \<not> knows_closed c' i \<and> tk_op c i = OpCounted \<and> life_of c' = life_of c"
    using D(6) [of FlagLocation] *(2,3) by (simp add: knows_closed_def life_of_def)
  show "latest \<Longrightarrow> \<not> closed (life_of c)" using D(7) by (simp add: life_of_def)
qed

lemma checked_now:
  assumes "task_step rt latest n c c'" and "inv_memory c" and "tk_op c i = OpIdle" and "tk_op c' i \<noteq> OpIdle"
  shows "\<not> knows_closed c i \<and> tk_op c' = (tk_op c)(i := OpChecked) \<and> i < n" and "latest \<Longrightarrow> \<not> closed (life_of c)"
proof -
  from assms(1,3,4) obtain j v where *: "may_read latest c (tk_op_view c i) FlagLocation j 0 v"
    "c' = op_at i OpChecked v c" "i < n"
    by (cases rule: task_step.cases) (auto split: if_splits)
  note D = may_readD [OF *(1) assms(2) inv_memoryD(2) [OF assms(2)]]
  have "v FlagLocation = 0" using reads_flag [OF *(1) assms(2) inv_memoryD(2) [OF assms(2)]] by simp
  then show "\<not> knows_closed c i \<and> tk_op c' = (tk_op c)(i := OpChecked) \<and> i < n"
    using D(6) [of FlagLocation] *(2,3) by (simp add: knows_closed_def)
  show "latest \<Longrightarrow> \<not> closed (life_of c)" using D(7) by (simp add: life_of_def)
qed

lemma knows_stays:
  "task_step rt latest n c c' \<Longrightarrow> inv_memory c \<Longrightarrow> knows_closed c i \<Longrightarrow> knows_closed c' i"
  using step_memory(3) less_le_trans unfolding knows_closed_def by blast

text \<open>A \<open>close\<close> call that waits has an unseen notification, or a task that will still send one.\<close>

lemma waiting_close:
  assumes "task_inv rt latest n c" and "tk_close c k = ClWaiting r"
  shows "wa_changed (rt_activity rt) (tk_activity c) r \<or> (\<exists>i < n. busy (tk_op c i))"
proof (cases "wa_changed (rt_activity rt) (tk_activity c) r")
  case False
  note D = task_invD [OF assms(1)]
  have up: "tk_activity_view c CountLocation \<le> tk_close_view c k CountLocation"
    using inv_receiversD(2) [OF D(5), of k r] assms(2) False by simp
  have less: "tk_close_view c k CountLocation < length (tk_memory c CountLocation)"
    using inv_memoryD(3) [OF D(1)] by (simp add: in_memory_def)
  show ?thesis
  proof (cases "length (tk_memory c CountLocation) \<le> Suc (tk_activity_view c CountLocation)")
    case True
    then have "tk_close_view c k CountLocation = length (tk_memory c CountLocation) - 1" using up less by linarith
    then have "0 < mm_value (last (tk_memory c CountLocation))"
      using D(6) assms(2) last_at [OF less] by (auto simp: inv_looked_def)
    then have "in_flight n (tk_op c) \<noteq> 0" using D(2) by (simp add: inv_count_def)
    then show ?thesis by (auto simp: in_flight_0 busy_def)
  next
    case False
    then show ?thesis using D(7) by (auto simp: inv_notified_def)
  qed
qed simp

section \<open>Draining\<close>

text \<open>How many accesses a task still has before it, a session it may start included.\<close>

fun op_rank :: "op_pc \<Rightarrow> nat" where
  "op_rank OpIdle = 0"
| "op_rank OpReleasing = 1"
| "op_rank OpGranted = 2"
| "op_rank OpRefused = 2"
| "op_rank OpCounted = 4"
| "op_rank OpChecked = 5"

definition op_work :: "nat \<Rightarrow> (nat \<Rightarrow> op_pc) \<Rightarrow> nat" where
  "op_work n pc = (\<Sum>i<n. op_rank (pc i))"

lemma op_work_upd:
  assumes "i < n" and "op_rank q < op_rank (pc i)"
  shows "op_work n (pc(i := q)) < op_work n pc"
  unfolding op_work_def
  by (rule sum_strict_mono_ex1) (use assms in \<open>auto intro!: bexI [of _ i]\<close>)

lemma op_work_0: "op_work n pc = 0 \<longleftrightarrow> (\<forall>i<n. pc i = OpIdle)"
proof -
  have "op_rank q = 0 \<longleftrightarrow> q = OpIdle" for q by (cases q) auto
  then show ?thesis by (auto simp: op_work_def)
qed

text \<open>An access of an operation lowers its rank, or is a first check that found the pool open.\<close>

lemma op_step_rank:
  assumes "task_step rt latest n c c'" and "tk_op c' i \<noteq> tk_op c i"
  shows "i < n" and "tk_op c' = (tk_op c)(i := tk_op c' i)"
    and "op_rank (tk_op c' i) < op_rank (tk_op c i) \<or> tk_op c i = OpIdle \<and> tk_op c' i = OpChecked"
proof -
  have "i < n \<and> tk_op c' = (tk_op c)(i := tk_op c' i) \<and>
    (op_rank (tk_op c' i) < op_rank (tk_op c i) \<or> tk_op c i = OpIdle \<and> tk_op c' i = OpChecked)"
    using assms by (cases rule: task_step.cases) (auto split: if_splits)
  then show "i < n" and "tk_op c' = (tk_op c)(i := tk_op c' i)"
    and "op_rank (tk_op c' i) < op_rank (tk_op c i) \<or> tk_op c i = OpIdle \<and> tk_op c' i = OpChecked" by blast+
qed

lemma closed_step:
  assumes "task_step rt latest n c c'" and "inv_memory c" and "closed (life_of c)"
  shows "closed (life_of c')"
proof -
  let ?F = "tk_memory c FlagLocation" and ?F' = "tk_memory c' FlagLocation"
  have ne: "?F \<noteq> []" and ne': "?F' \<noteq> []"
    using wf_memoryD(1) inv_memoryD(1) assms(2) step_memory(1) [OF assms(1,2)] by blast+
  then have last: "last ?F = ?F ! (length ?F - 1)" "last ?F' = ?F' ! (length ?F' - 1)"
    by (simp_all add: last_conv_nth)
  have "length ?F - 1 \<noteq> 0"
    using assms(3) inv_memoryD(6) [OF assms(2), of "length ?F - 1"] ne by (auto simp: life_of_def last)
  moreover have "length ?F \<le> length ?F'"
    using step_memory(2) [OF assms(1,2)] unfolding extends_def by (metis length_append le_add1)
  ultimately show ?thesis
    using inv_memoryD(6) [OF step_memory(1) [OF assms(1,2)], of "length ?F' - 1"] ne'
    by (auto simp: life_of_def last)
qed

text \<open>There is always a last value to read.\<close>

lemma may_read_last:
  assumes "inv_memory c" and "in_memory (tk_memory c) u"
  obtains v where "may_read latest c u l (length (tk_memory c l) - 1) (mm_value (last (tk_memory c l))) v"
  using load_last [OF inv_memoryD(1) [OF assms(1)] assms(2), of l] wf_memoryD(1) [OF inv_memoryD(1) [OF assms(1)], of l]
  by (auto simp: may_read_def)

lemma closed_value:
  assumes "inv_memory c" and "closed (life_of c)"
  shows "mm_value (last (tk_memory c FlagLocation)) = 1"
proof -
  have "tk_memory c FlagLocation \<noteq> []" using wf_memoryD(1) [OF inv_memoryD(1) [OF assms(1)]] .
  then show ?thesis
    using inv_memoryD(6) [OF assms(1), of "length (tk_memory c FlagLocation) - 1"] assms(2)
    by (auto simp: life_of_def last_conv_nth)
qed

text \<open>A task that has not come back has a step.\<close>

lemma op_enabled:
  assumes "i < n" and "tk_op c i \<noteq> OpIdle" and "closed (life_of c)" and inv: "inv_memory c"
  obtains c' where "task_step rt latest n c c'" and "tk_close c' = tk_close c" and "tk_shutdown c' = tk_shutdown c"
    and "op_rank (tk_op c' i) < op_rank (tk_op c i)" and "tk_op c' i \<noteq> OpGranted"
proof (cases "tk_op c i")
  case OpChecked
  obtain m v where "rmw_acq_rel (tk_memory c) (tk_op_view c i) CountLocation usize_add1 = (m, v)" by fastforce
  from that [OF op_count [OF assms(1) OpChecked this]] OpChecked show ?thesis by simp
next
  case OpCounted
  obtain v where "may_read latest c (tk_op_view c i) FlagLocation (length (tk_memory c FlagLocation) - 1) 1 v"
    using may_read_last [where l = FlagLocation and latest = latest, OF inv inv_memoryD(2) [OF inv, of i]] closed_value [OF inv assms(3)] by auto
  from that [OF op_refuse [OF assms(1) OpCounted this]] OpCounted show ?thesis by simp
next
  case OpGranted
  obtain m v where "rmw_acq_rel (tk_memory c) (tk_op_view c i) CountLocation usize_sub1 = (m, v)" by fastforce
  from that [OF op_release [OF assms(1) _ this]] OpGranted show ?thesis by simp
next
  case OpRefused
  obtain m v where "rmw_acq_rel (tk_memory c) (tk_op_view c i) CountLocation usize_sub1 = (m, v)" by fastforce
  from that [OF op_release [OF assms(1) _ this]] OpRefused show ?thesis by simp
next
  case OpReleasing
  from that [OF op_notify [OF assms(1) OpReleasing refl]] OpReleasing show ?thesis by simp
qed (use assms(2) in simp)

text \<open>Steps of tasks that all look at the last values, grant nothing and start nothing.\<close>

definition quiet_step :: "('s, 'sr, 'a, 'ar) runtime \<Rightarrow> bool \<Rightarrow> nat \<Rightarrow> ('s, 'a, 'ar) tasks \<Rightarrow> ('s, 'a, 'ar) tasks \<Rightarrow> bool" where
  "quiet_step rt latest n c c' =
     (task_step rt latest n c c' \<and>
      (\<forall>i. tk_op c' i \<noteq> tk_op c i \<longrightarrow> tk_op c i \<noteq> OpIdle \<and> tk_op c' i \<noteq> OpGranted))"

lemma quiet_steps: "(quiet_step rt latest n)\<^sup>*\<^sup>* c c' \<Longrightarrow> (task_step rt latest n)\<^sup>*\<^sup>* c c'"
  by (erule rtranclp_mono [THEN predicate2D, rotated]) (auto simp: quiet_step_def)

lemma drain_ops:
  assumes "closed (life_of c)" and "task_inv rt latest n c" and "runtime_laws rt" and "n < 2 ^ 64"
  shows "\<exists>c'. (quiet_step rt latest n)\<^sup>*\<^sup>* c c' \<and> tk_close c' = tk_close c \<and> op_work n (tk_op c') = 0 \<and>
    task_inv rt latest n c'"
  using assms(1,2)
proof (induction "op_work n (tk_op c)" arbitrary: c rule: less_induct)
  case less
  show ?case
  proof (cases "op_work n (tk_op c) = 0")
    case False
    then obtain i where i: "i < n" "tk_op c i \<noteq> OpIdle" by (auto simp: op_work_0)
    note mem = task_invD(1) [OF less.prems(2)]
    from op_enabled [OF i less.prems(1) mem, where rt = rt and latest = latest] obtain c1
      where c1: "task_step rt latest n c c1" "tk_close c1 = tk_close c" "tk_shutdown c1 = tk_shutdown c"
        "op_rank (tk_op c1 i) < op_rank (tk_op c i)" "tk_op c1 i \<noteq> OpGranted" .
    have other: "tk_op c1 = (tk_op c)(i := tk_op c1 i)" using op_step_rank(2) [OF c1(1), of i] c1(4) by fastforce
    have "quiet_step rt latest n c c1"
      unfolding quiet_step_def using c1(1,5) i(2) other by (metis fun_upd_other)
    moreover have "op_work n (tk_op c1) < op_work n (tk_op c)"
      using op_work_upd [of i n "tk_op c1 i" "tk_op c", OF i(1) c1(4)] other by simp
    from less.hyps [OF this closed_step [OF c1(1) mem less.prems(1)]
        task_inv_step [OF c1(1) less.prems(2) assms(3,4)]]
    obtain c2 where "(quiet_step rt latest n)\<^sup>*\<^sup>* c1 c2" "tk_close c2 = tk_close c1" "op_work n (tk_op c2) = 0"
      "task_inv rt latest n c2" by blast
    ultimately show ?thesis using c1(2) by (metis converse_rtranclp_into_rtranclp)
  qed (use less.prems(2) in blast)
qed

lemma close_finishes:
  assumes "task_inv rt latest n c" and "op_work n (tk_op c) = 0"
    and "receiver_of (tk_close c k) = Some r" and "past_broadcast (tk_close c k)"
  shows "\<exists>c'. (quiet_step rt latest n)\<^sup>*\<^sup>* c c' \<and> tk_close c' k = ClDone"
proof -
  note D = task_invD [OF assms(1)]
  have idle: "tk_op c i = OpIdle" if "i < n" for i using that assms(2) by (simp add: op_work_0)
  then have "in_flight n (tk_op c) = 0" by (simp add: in_flight_0)
  with D(2) have zero: "mm_value (last (tk_memory c CountLocation)) = 0" by (simp add: inv_count_def)
  have quiet: "quiet_step rt latest n a b" if "task_step rt latest n a b" "tk_op b = tk_op a" for a b
    using that by (simp add: quiet_step_def)
  have fin: "\<exists>c'. (quiet_step rt latest n)\<^sup>*\<^sup>* d c' \<and> tk_close c' k = ClDone"
    if d: "tk_close d k = ClLoop s" "tk_memory d = tk_memory c" "inv_memory d" for d s
  proof -
    obtain v where "may_read latest d (tk_close_view d k) CountLocation (length (tk_memory d CountLocation) - 1) 0 v"
      using may_read_last [where l = CountLocation and latest = latest, OF d(3) inv_memoryD(3) [OF d(3), of k]] zero d(2) by auto
    from quiet [OF close_drained [OF d(1) this]] show ?thesis by (intro exI conjI r_into_rtranclp) auto
  qed
  show ?thesis
  proof (cases "tk_close c k")
    case (ClWaiting s)
    have "wa_changed (rt_activity rt) (tk_activity c) s"
      using waiting_close [OF assms(1) ClWaiting] idle by force
    note wake = close_wake [OF ClWaiting this, where n = n and latest = latest]
    define d where "d = close_at k (ClLoop (wa_seen (rt_activity rt) (tk_activity c) s))
      (join_view (tk_close_view c k) (tk_activity_view c)) c"
    have "\<exists>c'. (quiet_step rt latest n)\<^sup>*\<^sup>* d c' \<and> tk_close c' k = ClDone"
      using step_memory(1) [OF wake D(1)] by (intro fin) (simp_all add: d_def)
    moreover have "quiet_step rt latest n c d" using quiet [OF wake] by (simp add: d_def)
    ultimately show ?thesis by (meson converse_rtranclp_into_rtranclp)
  qed (use assms(3,4) fin D(1) in auto)
qed

text \<open>From every state past the broadcast some continuation lets \<open>close\<close> return.\<close>

lemma close_can_finish:
  assumes "runtime_laws rt" and "n < 2 ^ 64" and "task_inv rt latest n c"
    and "past_broadcast (tk_close c k)" and "tk_close c k \<noteq> ClTimedOut"
  shows "\<exists>c'. (quiet_step rt latest n)\<^sup>*\<^sup>* c c' \<and> tk_close c' k = ClDone"
proof (cases "tk_close c k = ClDone")
  case False
  have "past_store (tk_close c k)" using assms(4) by (cases "tk_close c k") auto
  from drain_ops [OF closed_after_store [OF assms(3) this] assms(3,1,2)] obtain d
    where d: "(quiet_step rt latest n)\<^sup>*\<^sup>* c d" "tk_close d = tk_close c" "op_work n (tk_op d) = 0" "task_inv rt latest n d"
    by blast
  obtain r where "receiver_of (tk_close d k) = Some r"
    using False assms(4,5) by (cases "tk_close c k") (auto simp: d(2))
  from close_finishes [OF d(4,3) this] show ?thesis using assms(4) d(1,2) by (metis rtranclp_trans)
qed blast

section \<open>Schedules\<close>

text \<open>
  An executable scheduler: the next access of one task, with a load that reads the last message or, for
  the \<open>Stale\<close> events, the oldest one the task may read; or the deadline of one \<open>close\<close>.
\<close>

datatype sched = RunOp nat | StaleOp nat | RunClose nat | StaleClose nat | Deadline nat

definition fresh :: "sched \<Rightarrow> bool" where
  "fresh e = (case e of StaleOp _ \<Rightarrow> False | StaleClose _ \<Rightarrow> False | _ \<Rightarrow> True)"

definition sched_load :: "bool \<Rightarrow> ('s, 'a, 'ar) tasks \<Rightarrow> view \<Rightarrow> location \<Rightarrow> (nat \<times> view) option" where
  "sched_load new c u l = load_acquire (tk_memory c) u l (if new then length (tk_memory c l) - 1 else u l)"

fun sched_op :: "('s, 'sr, 'a, 'ar) runtime \<Rightarrow> bool \<Rightarrow> nat \<Rightarrow> ('s, 'a, 'ar) tasks \<Rightarrow> op_pc \<Rightarrow> ('s, 'a, 'ar) tasks option" where
  "sched_op rt new i c OpIdle =
     (case sched_load new c (tk_op_view c i) FlagLocation of
        None \<Rightarrow> None
      | Some (x, v) \<Rightarrow>
          if x = 0 then Some (op_at i OpChecked v c) else if x = 1 then Some (op_at i OpIdle v c) else None)"
| "sched_op rt new i c OpChecked =
     (let (m, v) = rmw_acq_rel (tk_memory c) (tk_op_view c i) CountLocation usize_add1 in
      Some ((op_at i OpCounted v c)\<lparr>tk_memory := m, tk_since := (tk_since c)(i := v CountLocation)\<rparr>))"
| "sched_op rt new i c OpCounted =
     (case sched_load new c (tk_op_view c i) FlagLocation of
        None \<Rightarrow> None
      | Some (x, v) \<Rightarrow>
          if x = 0 then Some (op_at i OpGranted v c) else if x = 1 then Some (op_at i OpRefused v c) else None)"
| "sched_op rt new i c OpReleasing =
     (let v = join_view (tk_op_view c i) (tk_activity_view c) in
      Some ((op_at i OpIdle v c)\<lparr>tk_activity := wa_modify (rt_activity rt) (\<lambda>generation. generation + 1) (tk_activity c),
          tk_activity_view := v\<rparr>))"
| "sched_op rt new i c _ =
     (let (m, v) = rmw_acq_rel (tk_memory c) (tk_op_view c i) CountLocation usize_sub1 in
      Some ((op_at i OpReleasing v c)\<lparr>tk_memory := m\<rparr>))"

fun sched_close :: "('s, 'sr, 'a, 'ar) runtime \<Rightarrow> bool \<Rightarrow> nat \<Rightarrow> ('s, 'a, 'ar) tasks \<Rightarrow> 'ar close_pc \<Rightarrow> ('s, 'a, 'ar) tasks option" where
  "sched_close rt new k c ClIdle =
     Some (close_at k (ClSubscribed (wa_subscribe (rt_activity rt) (tk_activity c)))
       (join_view (tk_close_view c k) (tk_activity_view c)) c)"
| "sched_close rt new k c (ClSubscribed r) =
     (let (m, v) = store_release (tk_memory c) (tk_close_view c k) FlagLocation 1 in
      Some ((close_at k (ClStored r) v c)\<lparr>tk_memory := m\<rparr>))"
| "sched_close rt new k c (ClStored r) =
     (let v = join_view (tk_close_view c k) (tk_shutdown_view c) in
      Some ((close_at k (ClLoop r) v c)\<lparr>tk_shutdown := wa_modify (rt_shutdown rt) (\<lambda>_. True) (tk_shutdown c),
          tk_shutdown_view := v\<rparr>))"
| "sched_close rt new k c (ClLoop r) =
     (case sched_load new c (tk_close_view c k) CountLocation of
        None \<Rightarrow> None
      | Some (x, v) \<Rightarrow> Some (close_at k (if x = 0 then ClDone else ClWaiting r) v c))"
| "sched_close rt new k c (ClWaiting r) =
     (if wa_changed (rt_activity rt) (tk_activity c) r
      then Some (close_at k (ClLoop (wa_seen (rt_activity rt) (tk_activity c) r))
             (join_view (tk_close_view c k) (tk_activity_view c)) c)
      else None)"
| "sched_close rt new k c _ = None"

fun sched_step :: "('s, 'sr, 'a, 'ar) runtime \<Rightarrow> nat \<Rightarrow> sched \<Rightarrow> ('s, 'a, 'ar) tasks \<Rightarrow> ('s, 'a, 'ar) tasks option" where
  "sched_step rt n (RunOp i) c = (if i < n then sched_op rt True i c (tk_op c i) else None)"
| "sched_step rt n (StaleOp i) c = (if i < n then sched_op rt False i c (tk_op c i) else None)"
| "sched_step rt n (RunClose k) c = sched_close rt True k c (tk_close c k)"
| "sched_step rt n (StaleClose k) c = sched_close rt False k c (tk_close c k)"
| "sched_step rt n (Deadline k) c =
     (case tk_close c k of
        ClWaiting r \<Rightarrow> Some (close_at k ClTimedOut (tk_close_view c k) c)
      | _ \<Rightarrow> None)"

fun run_schedule ::
  "('s, 'sr, 'a, 'ar) runtime \<Rightarrow> nat \<Rightarrow> sched list \<Rightarrow> ('s, 'a, 'ar) tasks \<Rightarrow> ('s, 'a, 'ar) tasks option"
where
  "run_schedule rt n [] c = Some c"
| "run_schedule rt n (e # es) c =
     (case sched_step rt n e c of None \<Rightarrow> None | Some c' \<Rightarrow> run_schedule rt n es c')"

lemma sched_load_sound:
  assumes "sched_load new c u l = Some (x, v)" and "inv_memory c" and "latest \<longrightarrow> new"
  shows "\<exists>j. may_read latest c u l j x v"
  using assms wf_memoryD(1) [OF inv_memoryD(1) [OF assms(2)], of l]
  by (intro exI [of _ "if new then length (tk_memory c l) - 1 else u l"]) (auto simp: sched_load_def may_read_def)

lemma sched_op_sound:
  assumes "sched_op rt new i c (tk_op c i) = Some c'" and "i < n" and "inv_memory c" and "latest \<longrightarrow> new"
  shows "task_step rt latest n c c'"
proof (cases "tk_op c i")
  case OpIdle
  with assms(1) obtain x v where "sched_load new c (tk_op_view c i) FlagLocation = Some (x, v)"
    "x = 0 \<and> c' = op_at i OpChecked v c \<or> x = 1 \<and> c' = op_at i OpIdle v c"
    by (auto split: option.splits if_splits)
  with sched_load_sound [OF _ assms(3,4)] OpIdle assms(2) show ?thesis by (blast intro: op_check op_reject)
next
  case OpCounted
  with assms(1) obtain x v where "sched_load new c (tk_op_view c i) FlagLocation = Some (x, v)"
    "x = 0 \<and> c' = op_at i OpGranted v c \<or> x = 1 \<and> c' = op_at i OpRefused v c"
    by (auto split: option.splits if_splits)
  with sched_load_sound [OF _ assms(3,4)] OpCounted assms(2) show ?thesis by (blast intro: op_grant op_refuse)
next
  case OpChecked
  then show ?thesis using assms(1,2) by (auto intro: op_count split: prod.splits)
next
  case OpGranted
  then show ?thesis using assms(1,2) by (auto intro: op_release split: prod.splits)
next
  case OpRefused
  then show ?thesis using assms(1,2) by (auto intro: op_release split: prod.splits)
next
  case OpReleasing
  then show ?thesis using assms(1,2) by (auto intro: op_notify simp: Let_def)
qed

lemma sched_close_sound:
  assumes "sched_close rt new k c (tk_close c k) = Some c'" and "inv_memory c" and "latest \<longrightarrow> new"
  shows "task_step rt latest n c c'"
proof (cases "tk_close c k")
  case ClIdle
  then show ?thesis using assms(1) by (auto intro: close_subscribe)
next
  case (ClSubscribed r)
  then show ?thesis using assms(1) by (auto intro: close_store split: prod.splits)
next
  case (ClStored r)
  then show ?thesis using assms(1) by (auto intro: close_broadcast simp: Let_def)
next
  case (ClLoop r)
  with assms(1) obtain x v where "sched_load new c (tk_close_view c k) CountLocation = Some (x, v)"
    "c' = close_at k (if x = 0 then ClDone else ClWaiting r) v c"
    by (auto split: option.splits)
  with sched_load_sound [OF _ assms(2,3)] ClLoop show ?thesis
    by (cases "x = 0") (fastforce intro: close_drained close_wait)+
next
  case (ClWaiting r)
  then show ?thesis using assms(1) by (auto intro: close_wake split: if_splits)
qed (use assms(1) in simp_all)

lemma sched_step_sound:
  assumes "sched_step rt n e c = Some c'" and "inv_memory c" and "latest \<longrightarrow> fresh e"
  shows "task_step rt latest n c c'"
  using assms
  by (cases e) (auto simp: fresh_def split: if_splits close_pc.splits
      intro: sched_op_sound sched_close_sound close_deadline)

lemma inv_memory_init: "inv_memory (tasks_init rt)"
  using initial_memory_wf by (simp add: inv_memory_def tasks_init_def) (simp add: initial_memory_def)

lemma inv_memory_reachable: "task_reachable rt latest n c \<Longrightarrow> inv_memory c"
  by (induction rule: task_reachable.induct) (auto simp: inv_memory_init step_memory(1))

lemma run_schedule_sound:
  "run_schedule rt n es c = Some c' \<Longrightarrow> task_reachable rt latest n c \<Longrightarrow> latest \<longrightarrow> list_all fresh es \<Longrightarrow>
   task_reachable rt latest n c'"
proof (induction es arbitrary: c)
  case (Cons e es)
  from Cons.prems(1) obtain c1 where c1: "sched_step rt n e c = Some c1" "run_schedule rt n es c1 = Some c'"
    by (auto split: option.splits)
  have "task_step rt latest n c c1"
    using sched_step_sound [OF c1(1) inv_memory_reachable [OF Cons.prems(2)]] Cons.prems(3) by simp
  from Cons.IH [OF c1(2) task_reachable.step [OF Cons.prems(2) this]] Cons.prems(3) show ?case by simp
qed simp

lemma sample_rt_laws: "runtime_laws sample_rt"
  by (simp add: runtime_laws_def sample_rt_def versioned_watch_laws)

text \<open>Task 0 holds a guard, \<open>close\<close> 7 waits for it; then the guard is dropped and \<open>close\<close> returns.\<close>

definition sample_waiting :: "(bool \<times> nat, u64 \<times> nat, nat) tasks" where
  "sample_waiting = the (run_schedule sample_rt 1
     [RunOp 0, RunOp 0, RunOp 0, RunClose 7, RunClose 7, RunClose 7, RunClose 7] (tasks_init sample_rt))"

definition sample_done :: "(bool \<times> nat, u64 \<times> nat, nat) tasks" where
  "sample_done = the (run_schedule sample_rt 1 [RunOp 0, RunOp 0, RunClose 7, RunClose 7] sample_waiting)"

text \<open>The run that the orderings of the code allow: \<open>close\<close> 7 returns, and task 0 gets a guard with old
  values of the flag; task 1 looks at the last value and is refused.\<close>

definition sample_stale :: "(bool \<times> nat, u64 \<times> nat, nat) tasks" where
  "sample_stale = the (run_schedule sample_rt 2
     [RunClose 7, RunClose 7, RunClose 7, RunClose 7, StaleOp 0, StaleOp 0, StaleOp 0, RunOp 1] (tasks_init sample_rt))"

lemmas sample_defs = tasks_init_def sample_rt_def versioned_watch_def op_at_def close_at_def initial_memory_def
  initial_view_def sched_load_def load_acquire_def rmw_acq_rel_def store_release_def Let_def join_view_def
  view_at_def usize_add1_def usize_sub1_def

lemma sample_waiting_run:
  "run_schedule sample_rt 1 [RunOp 0, RunOp 0, RunOp 0, RunClose 7, RunClose 7, RunClose 7, RunClose 7]
     (tasks_init sample_rt) = Some sample_waiting"
  "tk_close sample_waiting 7 = ClWaiting 0" "tk_op sample_waiting 0 = OpGranted"
  "closed (life_of sample_waiting)" "active (life_of sample_waiting) = 1"
  "\<not> wa_changed (rt_activity sample_rt) (tk_activity sample_waiting) 0"
proof -
  have "run_schedule sample_rt 1 [RunOp 0, RunOp 0, RunOp 0, RunClose 7, RunClose 7, RunClose 7, RunClose 7]
     (tasks_init sample_rt) \<noteq> None" by code_simp
  then show "run_schedule sample_rt 1 [RunOp 0, RunOp 0, RunOp 0, RunClose 7, RunClose 7, RunClose 7, RunClose 7]
     (tasks_init sample_rt) = Some sample_waiting" by (auto simp: sample_waiting_def)
qed (code_simp+)

lemma sample_waiting_reachable: "task_reachable sample_rt latest 1 sample_waiting"
  by (rule run_schedule_sound [OF sample_waiting_run(1) task_reachable.start]) (simp add: fresh_def)

lemma sample_done_run:
  "run_schedule sample_rt 1 [RunOp 0, RunOp 0, RunClose 7, RunClose 7] sample_waiting = Some sample_done"
  "tk_close sample_done 7 = ClDone"
proof -
  have "run_schedule sample_rt 1 [RunOp 0, RunOp 0, RunClose 7, RunClose 7] sample_waiting \<noteq> None" by code_simp
  then show "run_schedule sample_rt 1 [RunOp 0, RunOp 0, RunClose 7, RunClose 7] sample_waiting = Some sample_done"
    by (auto simp: sample_done_def)
qed code_simp

lemma sample_done_reachable: "task_reachable sample_rt latest 1 sample_done"
  by (rule run_schedule_sound [OF sample_done_run(1) sample_waiting_reachable]) (simp add: fresh_def)

lemma sample_stale_run:
  "run_schedule sample_rt 2
     [RunClose 7, RunClose 7, RunClose 7, RunClose 7, StaleOp 0, StaleOp 0, StaleOp 0, RunOp 1] (tasks_init sample_rt) =
     Some sample_stale"
  "tk_close sample_stale 7 = ClDone" "tk_op sample_stale 0 = OpGranted" "knows_closed sample_stale 1"
  "tk_op sample_stale 1 = OpIdle"
proof -
  have "run_schedule sample_rt 2
     [RunClose 7, RunClose 7, RunClose 7, RunClose 7, StaleOp 0, StaleOp 0, StaleOp 0, RunOp 1] (tasks_init sample_rt)
     \<noteq> None" by code_simp
  then show "run_schedule sample_rt 2
     [RunClose 7, RunClose 7, RunClose 7, RunClose 7, StaleOp 0, StaleOp 0, StaleOp 0, RunOp 1] (tasks_init sample_rt) =
     Some sample_stale" by (auto simp: sample_stale_def)
qed (code_simp+)

lemma sample_stale_reachable: "task_reachable sample_rt False 2 sample_stale"
  by (rule run_schedule_sound [OF sample_stale_run(1) task_reachable.start]) simp

section \<open>Properties\<close>

text \<open>A caller that knows stays out.\<close>

lemma knowing_stays_out:
  assumes "(task_step rt latest n)\<^sup>*\<^sup>* c c'" and "inv_memory c" and "knows_closed c i" and "tk_op c i = OpIdle"
  shows "tk_op c' i = OpIdle"
proof -
  have "tk_op c' i = OpIdle \<and> knows_closed c' i \<and> inv_memory c'"
    using assms(1)
  proof (induction rule: rtranclp_induct)
    case (step a b)
    then have a: "tk_op a i = OpIdle" "knows_closed a i" "inv_memory a" by simp_all
    then show ?case
      using checked_now(1) [OF step.hyps(2) a(3,1)] knows_stays [OF step.hyps(2) a(3,2)]
        step_memory(1) [OF step.hyps(2) a(3)] by blast
  qed (use assms in simp)
  then show ?thesis by simp
qed

text \<open>C1. Shutdown excludes work, with the memory orderings of the code: once some \<open>close\<close> call has returned
  \<open>Ok\<close>, then in that state and in every later one, under any interleaving of fewer than 2^64
  operations and any number of \<open>close\<close> calls and whatever old values they may read, the pool is closed;
  every operation that the call has seen being counted has given its guard back; a guard is handed
  only to a caller that has not learned of the closing; whoever learns what the call knows has learned
  of it; and a caller that has, is refused for good, without ever being counted. With sequentially
  consistent accesses no operation holds a guard and a new \<open>start_operation\<close> leaves everything as it
  is.\<close>

theorem close_ok_excludes_work:
  assumes "runtime_laws rt" and "n < 2 ^ 64" and "task_reachable rt latest n c"
    and "close_result (tk_close c k) = Some (Inr ())" and "(task_step rt latest n)\<^sup>*\<^sup>* c c'"
  shows "closed (life_of c') \<and>
    (\<forall>i. tk_op c' i = OpGranted \<longrightarrow> \<not> seen_counted c' k i) \<and>
    (\<forall>i c''. task_step rt latest n c' c'' \<and> tk_op c' i \<noteq> OpGranted \<and> tk_op c'' i = OpGranted \<longrightarrow> \<not> knows_closed c' i) \<and>
    (\<forall>i. knows_closed (op_at i (tk_op c' i) (join_view (tk_op_view c' i) (tk_close_view c' k)) c') i) \<and>
    (\<forall>i c''. knows_closed c' i \<and> tk_op c' i = OpIdle \<and> (task_step rt latest n)\<^sup>*\<^sup>* c' c'' \<longrightarrow> tk_op c'' i = OpIdle) \<and>
    (latest \<longrightarrow> (\<forall>i. tk_op c' i \<noteq> OpGranted) \<and>
       start_operation rt others1 others2 (life_of c') = (Inl (Closed msg_pool_closed), life_of c'))"
proof -
  have "task_reachable rt latest n c'" by (rule task_reachable_trans [OF assms(5,3)])
  then have inv: "task_inv rt latest n c'" by (rule task_inv_reachable [OF _ assms(1,2)])
  note D = task_invD [OF inv]
  have k: "tk_close c' k = ClDone" using task_steps_Done [OF assms(5) assms(4) [unfolded close_result_Ok]] by blast
  have closed: "closed (life_of c')" using closed_after_store [OF inv, of k] k by simp
  have told: "0 < tk_close_view c' k FlagLocation" using inv_flagsD(1) [OF D(4), of k] k by simp
  have "knows_closed (op_at i (tk_op c' i) (join_view (tk_op_view c' i) (tk_close_view c' k)) c') i" for i
    using told by (simp add: knows_closed_def join_view_at less_max_iff_disj)
  moreover have "\<not> seen_counted c' k i" if "tk_op c' i = OpGranted" for i
    using counted_unseen [OF inv k] that by simp
  moreover have "\<not> knows_closed c' i" if "task_step rt latest n c' c''" "tk_op c' i \<noteq> OpGranted" "tk_op c'' i = OpGranted" for i c''
    using granted_now(1) [OF that(1) D(1) that(3,2)] by simp
  moreover have "tk_op c'' i = OpIdle" if "knows_closed c' i" "tk_op c' i = OpIdle" "(task_step rt latest n)\<^sup>*\<^sup>* c' c''" for i c''
    by (rule knowing_stays_out [OF that(3) D(1) that(1,2)])
  moreover have "latest \<longrightarrow> (\<forall>i. tk_op c' i \<noteq> OpGranted) \<and>
       start_operation rt others1 others2 (life_of c') = (Inl (Closed msg_pool_closed), life_of c')"
    using D(8) k closed by (auto simp: inv_drained_def start_operation_def ensure_open_def is_closed_def)
  ultimately show ?thesis using closed by blast
qed

lemma close_ok_excludes_work_witness:
  "closed (life_of sample_stale) \<and> \<not> seen_counted sample_stale 7 0 \<and>
   \<not> (\<exists>c''. (task_step sample_rt False 2)\<^sup>*\<^sup>* sample_stale c'' \<and> tk_op c'' 1 \<noteq> OpIdle)"
proof -
  have "close_result (tk_close sample_stale 7) = Some (Inr ())" "(2 :: nat) < 2 ^ 64"
    by (simp_all add: sample_stale_run(2) close_result_Ok)
  note shut = close_ok_excludes_work [OF sample_rt_laws this(2) sample_stale_reachable this(1) rtranclp.rtrancl_refl]
  show ?thesis
    using shut [THEN conjunct1] shut [THEN conjunct2, THEN conjunct1]
      shut [THEN conjunct2, THEN conjunct2, THEN conjunct2, THEN conjunct2, THEN conjunct1] sample_stale_run(3-5) by blast
qed

text \<open>The atomic counter is exact: in every reachable state the last value of \<open>active\<close> is, without
  wrap-around, the number of tasks between \<open>fetch_add\<close> and \<open>fetch_sub\<close>, the holders of a guard included.\<close>

theorem active_counts_guards:
  assumes "runtime_laws rt" and "n < 2 ^ 64" and "task_reachable rt latest n c"
  shows "unat (active (life_of c)) = in_flight n (tk_op c) \<and>
    card {i. tk_op c i = OpGranted} \<le> unat (active (life_of c))"
proof -
  have inv: "inv_count n c" by (rule task_invD(2) [OF task_inv_reachable [OF assms(3,1,2)]])
  have "in_flight n (tk_op c) < 2 ^ 64" using in_flight_le [of n "tk_op c"] assms(2) by linarith
  with inv have eq: "unat (active (life_of c)) = in_flight n (tk_op c)"
    by (simp add: inv_count_def life_of_def unat_of_nat take_bit_nat_eq_self)
  have "{i. tk_op c i = OpGranted} \<subseteq> {i. i < n \<and> counted (tk_op c i)}"
    using inv by (auto simp: inv_count_def not_le [symmetric])
  then have "card {i. tk_op c i = OpGranted} \<le> in_flight n (tk_op c)"
    unfolding in_flight_def by (intro card_mono) auto
  with eq show ?thesis by simp
qed

lemma active_counts_guards_witness:
  "unat (active (life_of sample_waiting)) = in_flight 1 (tk_op sample_waiting) \<and>
   card {i. tk_op sample_waiting i = OpGranted} \<le> unat (active (life_of sample_waiting))"
  by (rule active_counts_guards [OF sample_rt_laws _ sample_waiting_reachable]) simp

text \<open>C27. No wake-up is lost, with the memory orderings of the code: while a \<open>close\<close> call waits, either its
  receiver already has an unseen change, so that the wait ends, or some task is still counted or about
  to notify.\<close>

theorem close_never_misses_wakeup:
  assumes "runtime_laws rt" and "n < 2 ^ 64" and "task_reachable rt latest n c" and "tk_close c k = ClWaiting r"
  shows "wa_changed (rt_activity rt) (activity (life_of c)) r \<or>
    (\<exists>i<n. counted (tk_op c i) \<or> tk_op c i = OpReleasing)"
  using waiting_close [OF task_inv_reachable [OF assms(3,1,2)] assms(4)] by (simp add: busy_def life_of_def)

lemma close_never_misses_wakeup_witness:
  "wa_changed (rt_activity sample_rt) (activity (life_of sample_waiting)) 0 \<or>
    (\<exists>i<1. counted (tk_op sample_waiting i) \<or> tk_op sample_waiting i = OpReleasing)"
  by (rule close_never_misses_wakeup [OF sample_rt_laws _ sample_waiting_reachable sample_waiting_run(2)]) simp

text \<open>Draining terminates: every access that moves an operation strictly lowers the number of accesses the
  operations still have before them, at most \<open>5 * n\<close>, unless it is a first check by a caller that does
  not know that the pool is closed.\<close>

theorem drain_terminates:
  assumes "task_step rt latest n c c'" and "inv_memory c" and "tk_op c' \<noteq> tk_op c"
  shows "(op_work n (tk_op c') < op_work n (tk_op c) \<or>
      (\<exists>i<n. tk_op c i = OpIdle \<and> tk_op c' = (tk_op c)(i := OpChecked) \<and> \<not> knows_closed c i)) \<and>
    op_work n (tk_op c) \<le> 5 * n"
proof -
  have "op_rank q \<le> 5" for q by (cases q) auto
  then have "op_work n (tk_op c) \<le> (\<Sum>i<n. 5)" unfolding op_work_def by (intro sum_mono) simp
  moreover obtain i where i: "tk_op c' i \<noteq> tk_op c i" using assms(3) by blast
  note R = op_step_rank [OF assms(1) i]
  have "op_work n (tk_op c') < op_work n (tk_op c) \<or>
      (\<exists>i<n. tk_op c i = OpIdle \<and> tk_op c' = (tk_op c)(i := OpChecked) \<and> \<not> knows_closed c i)"
    using R(3)
  proof
    assume "op_rank (tk_op c' i) < op_rank (tk_op c i)"
    then show ?thesis using op_work_upd [of i n "tk_op c' i" "tk_op c"] R(1,2) by simp
  next
    assume idle: "tk_op c i = OpIdle \<and> tk_op c' i = OpChecked"
    then show ?thesis using checked_now(1) [OF assms(1,2), of i] R(1) by auto
  qed
  ultimately show ?thesis by simp
qed

lemma drain_terminates_witness:
  "\<exists>c'. task_step sample_rt False 1 sample_waiting c' \<and> op_work 1 (tk_op c') < op_work 1 (tk_op sample_waiting)"
proof -
  obtain m v where "rmw_acq_rel (tk_memory sample_waiting) (tk_op_view sample_waiting 0) CountLocation usize_sub1 = (m, v)"
    by fastforce
  note step = op_release [where i = 0 and n = 1 and rt = sample_rt and latest = False, OF _ _ this]
  have "tk_op sample_waiting 0 = OpGranted" by (rule sample_waiting_run(3))
  moreover from this have "(tk_op sample_waiting)(0 := OpReleasing) \<noteq> tk_op sample_waiting" by (metis fun_upd_same op_pc.distinct(27))
  ultimately show ?thesis
    using drain_terminates [OF step inv_memory_reachable [OF sample_waiting_reachable]] step
    by (intro exI [of _ "(op_at 0 OpReleasing v sample_waiting)\<lparr>tk_memory := m\<rparr>"]) auto
qed

text \<open>After the broadcast everything stops: once a \<open>close\<close> call is past \<open>send_replace(true)\<close>, every
  receiver that starts to wait for the signal returns at once, a send guarded by the signal answers
  \<open>false\<close> whatever the queue does, whoever has polled the signal knows that the pool is closed, and a
  check that reads the last value refuses.\<close>

theorem broadcast_stops_everything:
  assumes "runtime_laws rt" and "n < 2 ^ 64" and "task_reachable rt latest n c" and "past_broadcast (tk_close c k)"
  shows "wait_for_shutdown (rt_shutdown rt) s (shutdown (life_of c)) polls \<and>
    send_or_shutdown (Some 0) send = Some False \<and>
    knows_closed (op_at i OpGranted (join_view (tk_op_view c i) (tk_shutdown_view c)) c) i \<and>
    ensure_open (life_of c) = Inl (Closed msg_pool_closed)"
proof -
  note inv = task_inv_reachable [OF assms(3,1,2)]
  note flags = inv_flagsD(2,3) [OF task_invD(4) [OF inv]]
  have "past_store (tk_close c k)" using assms(4) by (cases "tk_close c k") auto
  then have "closed (life_of c)" by (rule closed_after_store [OF inv])
  moreover have "wa_borrow (rt_shutdown rt) (tk_shutdown c)" by (rule flags(1) [OF assms(4)])
  moreover have "0 < tk_shutdown_view c FlagLocation" by (rule flags(2) [OF flags(1) [OF assms(4)]])
  ultimately show ?thesis
    by (simp add: wait_for_shutdown_def send_or_shutdown_def ensure_open_def is_closed_def knows_closed_def
        join_view_at less_max_iff_disj) (simp add: life_of_def)
qed

lemma broadcast_stops_everything_witness:
  "wait_for_shutdown (rt_shutdown sample_rt) 0 (shutdown (life_of sample_waiting)) [] \<and>
    ensure_open (life_of sample_waiting) = Inl (Closed msg_pool_closed)"
  using broadcast_stops_everything [OF sample_rt_laws _ sample_waiting_reachable, of 7]
  by (simp add: sample_waiting_run(2))

end
