(* ===== verification/Lifecycle_Orderings.thy ===== *)
theory Lifecycle_Orderings
  imports Rust_Atomics
begin

text \<open>
  The memory orderings of \<open>src/lifecycle.rs\<close> in their smallest setting: one \<open>start_operation\<close> and one
  \<open>close\<close> over the memory of \<open>Rust_Atomics\<close>. The broadcast that \<open>close\<close> sends between its store and its
  load synchronizes with the receivers of the channel only, and \<open>start_operation\<close> is none of them.
\<close>

section \<open>One operation and one close\<close>

datatype starter_pc = StIdle | StChecked | StCounted | StGranted | StRefused
datatype closer_pc = CsIdle | CsStored | CsDone

record race_state =
  rs_memory :: memory
  rs_starter :: starter_pc
  rs_starter_view :: view
  rs_closer :: closer_pc
  rs_closer_view :: view

text \<open>With \<open>latest\<close> every load reads the last message: the sequentially consistent accesses.\<close>

inductive race_step :: "bool \<Rightarrow> race_state \<Rightarrow> race_state \<Rightarrow> bool" for latest :: bool where
  st_check: "rs_starter s = StIdle \<Longrightarrow> load_acquire (rs_memory s) (rs_starter_view s) FlagLocation i = Some (0, v) \<Longrightarrow>
     latest \<longrightarrow> Suc i = length (rs_memory s FlagLocation) \<Longrightarrow>
     race_step latest s (s\<lparr>rs_starter := StChecked, rs_starter_view := v\<rparr>)"
| st_count: "rs_starter s = StChecked \<Longrightarrow> rmw_acq_rel (rs_memory s) (rs_starter_view s) CountLocation Suc = (m, v) \<Longrightarrow>
     race_step latest s (s\<lparr>rs_starter := StCounted, rs_memory := m, rs_starter_view := v\<rparr>)"
| st_grant: "rs_starter s = StCounted \<Longrightarrow> load_acquire (rs_memory s) (rs_starter_view s) FlagLocation i = Some (0, v) \<Longrightarrow>
     latest \<longrightarrow> Suc i = length (rs_memory s FlagLocation) \<Longrightarrow>
     race_step latest s (s\<lparr>rs_starter := StGranted, rs_starter_view := v\<rparr>)"
| st_refuse: "rs_starter s = StCounted \<Longrightarrow> load_acquire (rs_memory s) (rs_starter_view s) FlagLocation i = Some (1, v) \<Longrightarrow>
     latest \<longrightarrow> Suc i = length (rs_memory s FlagLocation) \<Longrightarrow>
     race_step latest s (s\<lparr>rs_starter := StRefused, rs_starter_view := v\<rparr>)"
| cs_store: "rs_closer s = CsIdle \<Longrightarrow> store_release (rs_memory s) (rs_closer_view s) FlagLocation 1 = (m, v) \<Longrightarrow>
     race_step latest s (s\<lparr>rs_closer := CsStored, rs_memory := m, rs_closer_view := v\<rparr>)"
| cs_drained: "rs_closer s = CsStored \<Longrightarrow> load_acquire (rs_memory s) (rs_closer_view s) CountLocation i = Some (0, v) \<Longrightarrow>
     latest \<longrightarrow> Suc i = length (rs_memory s CountLocation) \<Longrightarrow>
     race_step latest s (s\<lparr>rs_closer := CsDone, rs_closer_view := v\<rparr>)"

text \<open>The flag is \<open>false\<close> and the count 0 at first.\<close>

definition race_init :: race_state where
  "race_init =
     \<lparr>rs_memory = (\<lambda>_. [\<lparr>mm_value = 0, mm_view = (\<lambda>_. 0)\<rparr>]), rs_starter = StIdle, rs_starter_view = (\<lambda>_. 0),
      rs_closer = CsIdle, rs_closer_view = (\<lambda>_. 0)\<rparr>"

inductive race_reachable :: "bool \<Rightarrow> race_state \<Rightarrow> bool" for latest :: bool where
  start: "race_reachable latest race_init"
| step: "race_reachable latest s \<Longrightarrow> race_step latest s s' \<Longrightarrow> race_reachable latest s'"

text \<open>With the latest values: the flag is up when the closer is past its store, the count is up when the
  starter is past its increment, and both cannot have looked before the other wrote.\<close>

definition race_inv :: "race_state \<Rightarrow> bool" where
  "race_inv s =
     (rs_memory s FlagLocation \<noteq> [] \<and> rs_memory s CountLocation \<noteq> [] \<and>
      mm_value (last (rs_memory s FlagLocation)) = of_bool (rs_closer s \<noteq> CsIdle) \<and>
      mm_value (last (rs_memory s CountLocation)) = of_bool (rs_starter s \<in> {StCounted, StGranted, StRefused}) \<and>
      \<not> (rs_closer s = CsDone \<and> rs_starter s = StGranted))"

lemma load_latest:
  "load_acquire m v l i = Some (x, w) \<Longrightarrow> Suc i = length (m l) \<Longrightarrow> x = mm_value (last (m l)) \<and> m l \<noteq> []"
  by (auto simp: load_acquire_def last_conv_nth split: if_splits) (metis diff_Suc_1 last_conv_nth list.size(3) nat.distinct(1))

lemma race_inv_step: "race_step True s s' \<Longrightarrow> race_inv s \<Longrightarrow> race_inv s'"
  by (induction rule: race_step.induct)
    (auto simp: race_inv_def rmw_acq_rel_def store_release_def Let_def dest!: load_latest)

lemma race_inv_reachable: "race_reachable True s \<Longrightarrow> race_inv s"
proof (induction rule: race_reachable.induct)
  case start
  show ?case by (simp add: race_inv_def race_init_def)
qed (rule race_inv_step)

text \<open>The run of the code's orderings: \<open>close\<close> first, then \<open>start_operation\<close> with old values of the flag.\<close>

definition zero_view :: view where "zero_view = (\<lambda>_. 0)"
definition flag_view :: view where "flag_view = zero_view(FlagLocation := 1)"
definition count_view :: view where "count_view = zero_view(CountLocation := 1)"

lemma view_values [simp]:
  "zero_view l = 0" "flag_view FlagLocation = 1" "flag_view CountLocation = 0"
  "count_view FlagLocation = 0" "count_view CountLocation = 1"
  by (simp_all add: zero_view_def flag_view_def count_view_def)

lemma view_joins [simp]:
  "join_view v zero_view = v" "join_view zero_view v = v" "view_at v l 0 = v"
  "view_at zero_view FlagLocation 1 = flag_view" "view_at zero_view CountLocation 1 = count_view"
  by (auto simp: join_view_def view_at_def flag_view_def count_view_def zero_view_def)

definition stored_flag :: memory where
  "stored_flag =
     (\<lambda>l. case l of FlagLocation \<Rightarrow> [\<lparr>mm_value = 0, mm_view = zero_view\<rparr>, \<lparr>mm_value = 1, mm_view = flag_view\<rparr>]
               | CountLocation \<Rightarrow> [\<lparr>mm_value = 0, mm_view = zero_view\<rparr>])"

definition both_stored :: memory where
  "both_stored =
     (\<lambda>l. case l of FlagLocation \<Rightarrow> [\<lparr>mm_value = 0, mm_view = zero_view\<rparr>, \<lparr>mm_value = 1, mm_view = flag_view\<rparr>]
               | CountLocation \<Rightarrow> [\<lparr>mm_value = 0, mm_view = zero_view\<rparr>, \<lparr>mm_value = 1, mm_view = count_view\<rparr>])"

lemma stored_at [simp]:
  "stored_flag FlagLocation = [\<lparr>mm_value = 0, mm_view = zero_view\<rparr>, \<lparr>mm_value = 1, mm_view = flag_view\<rparr>]"
  "stored_flag CountLocation = [\<lparr>mm_value = 0, mm_view = zero_view\<rparr>]"
  "both_stored FlagLocation = [\<lparr>mm_value = 0, mm_view = zero_view\<rparr>, \<lparr>mm_value = 1, mm_view = flag_view\<rparr>]"
  by (simp_all add: stored_flag_def both_stored_def)

lemma memory_steps:
  "store_release (\<lambda>_. [\<lparr>mm_value = 0, mm_view = zero_view\<rparr>]) zero_view FlagLocation 1 = (stored_flag, flag_view)"
  "rmw_acq_rel stored_flag zero_view CountLocation Suc = (both_stored, count_view)"
  by (auto simp: store_release_def rmw_acq_rel_def Let_def stored_flag_def both_stored_def fun_eq_iff
      view_joins(4,5) [simplified] split: location.splits)

definition race_at :: "memory \<Rightarrow> starter_pc \<Rightarrow> view \<Rightarrow> closer_pc \<Rightarrow> view \<Rightarrow> race_state" where
  "race_at m st v cl w =
     \<lparr>rs_memory = m, rs_starter = st, rs_starter_view = v, rs_closer = cl, rs_closer_view = w\<rparr>"

lemma race_at_updates [simp]:
  "(race_at m st v cl w)\<lparr>rs_closer := cl', rs_memory := m', rs_closer_view := w'\<rparr> = race_at m' st v cl' w'"
  "(race_at m st v cl w)\<lparr>rs_closer := cl', rs_closer_view := w'\<rparr> = race_at m st v cl' w'"
  "(race_at m st v cl w)\<lparr>rs_starter := st', rs_memory := m', rs_starter_view := v'\<rparr> = race_at m' st' v' cl w"
  "(race_at m st v cl w)\<lparr>rs_starter := st', rs_starter_view := v'\<rparr> = race_at m st' v' cl w"
  "rs_memory (race_at m st v cl w) = m" "rs_starter (race_at m st v cl w) = st"
  "rs_starter_view (race_at m st v cl w) = v" "rs_closer (race_at m st v cl w) = cl"
  "rs_closer_view (race_at m st v cl w) = w"
  by (simp_all add: race_at_def)

lemma stale_run: "race_reachable False (race_at both_stored StGranted count_view CsDone flag_view)"
proof -
  note go = race_reachable.step [where latest = False]
  have init: "race_init = race_at (\<lambda>_. [\<lparr>mm_value = 0, mm_view = zero_view\<rparr>]) StIdle zero_view CsIdle zero_view"
    by (simp add: race_init_def race_at_def zero_view_def)
  have 0: "race_reachable False (race_at (\<lambda>_. [\<lparr>mm_value = 0, mm_view = zero_view\<rparr>]) StIdle zero_view CsIdle zero_view)"
    using race_reachable.start [of False] by (simp add: init)
  from go [OF 0 cs_store] memory_steps(1)
  have 1: "race_reachable False (race_at stored_flag StIdle zero_view CsStored flag_view)" by simp
  from go [OF 1 cs_drained [where i = 0 and v = flag_view]]
  have 2: "race_reachable False (race_at stored_flag StIdle zero_view CsDone flag_view)"
    by (simp add: load_acquire_def)
  from go [OF 2 st_check [where i = 0 and v = zero_view]]
  have 3: "race_reachable False (race_at stored_flag StChecked zero_view CsDone flag_view)"
    by (simp add: load_acquire_def)
  from go [OF 3 st_count] memory_steps(2)
  have 4: "race_reachable False (race_at both_stored StCounted count_view CsDone flag_view)" by simp
  from go [OF 4 st_grant [where i = 0 and v = count_view]] show ?thesis
    by (simp add: load_acquire_def)
qed

section \<open>Properties\<close>

text \<open>C28. The second check of \<open>start_operation\<close> closes the race with \<open>close\<close> only for sequentially
  consistent accesses. With the orderings of the code a run exists in which \<open>close\<close> has found the
  count at 0 and returned, and \<open>start_operation\<close> still reads the old flag at both of its checks and
  hands out a guard; with every load reading the latest value there is none.\<close>

theorem second_check_needs_seq_cst:
  "(\<exists>s. race_reachable False s \<and> rs_closer s = CsDone \<and> rs_starter s = StGranted) \<and>
   \<not> (\<exists>s. race_reachable True s \<and> rs_closer s = CsDone \<and> rs_starter s = StGranted)"
proof
  show "\<exists>s. race_reachable False s \<and> rs_closer s = CsDone \<and> rs_starter s = StGranted"
    using stale_run by (rule exI [where P = "\<lambda>s. race_reachable False s \<and> rs_closer s = CsDone \<and> rs_starter s = StGranted",
        OF conjI]) simp
  show "\<not> (\<exists>s. race_reachable True s \<and> rs_closer s = CsDone \<and> rs_starter s = StGranted)"
    using race_inv_reachable by (auto simp: race_inv_def)
qed

end
