(* ===== verification/Rust_Net.thy ===== *)
theory Rust_Net
  imports Rust_Num
begin

text \<open>
  \<open>std::net::IpAddr\<close> as the configuration check uses it: \<open>FromStr\<close>, which is the parser of
  \<open>core::net\<close> on the bytes of the text, and \<open>is_loopback\<close>. A reader returns what it read with the
  rest of the input, \<open>None\<close> when it fails (and then leaves the input where it was).
\<close>

section \<open>Readers\<close>

definition to_digit :: "nat \<Rightarrow> char \<Rightarrow> nat option" where
  "to_digit radix c =
     (let n = of_char c :: nat;
          d = if 48 \<le> n \<and> n \<le> 57 then Some (n - 48)
              else if 97 \<le> n \<and> n \<le> 122 then Some (n - 87)
              else if 65 \<le> n \<and> n \<le> 90 then Some (n - 55)
              else None
      in case d of None \<Rightarrow> None | Some v \<Rightarrow> if v < radix then Some v else None)"

text \<open>The digit loop of \<open>read_number\<close>: value and number of digits, \<open>None\<close> on overflow or when there
  are more than \<open>max_digits\<close>.\<close>

fun read_digits :: "nat \<Rightarrow> nat \<Rightarrow> nat \<Rightarrow> nat \<Rightarrow> nat \<Rightarrow> string \<Rightarrow> ((nat \<times> nat) \<times> string) option" where
  "read_digits radix max_value max_digits acc n [] = Some ((acc, n), [])"
| "read_digits radix max_value max_digits acc n (c # s) =
     (case to_digit radix c of
        None \<Rightarrow> Some ((acc, n), c # s)
      | Some d \<Rightarrow>
          if max_value < acc * radix + d then None
          else if max_digits < n + 1 then None
          else read_digits radix max_value max_digits (acc * radix + d) (n + 1) s)"

definition read_number :: "nat \<Rightarrow> nat \<Rightarrow> nat \<Rightarrow> bool \<Rightarrow> string \<Rightarrow> (nat \<times> string) option" where
  "read_number radix max_value max_digits allow_zero_prefix s =
     (case read_digits radix max_value max_digits 0 0 s of
        None \<Rightarrow> None
      | Some ((v, n), t) \<Rightarrow>
          if n = 0 then None
          else if \<not> allow_zero_prefix \<and> hd s = CHR ''0'' \<and> 1 < n then None
          else Some (v, t))"

definition read_given_char :: "char \<Rightarrow> string \<Rightarrow> string option" where
  "read_given_char c s = (case s of [] \<Rightarrow> None | x # t \<Rightarrow> if x = c then Some t else None)"

definition read_separator ::
  "char \<Rightarrow> nat \<Rightarrow> (string \<Rightarrow> ('a \<times> string) option) \<Rightarrow> string \<Rightarrow> ('a \<times> string) option"
where
  "read_separator sep i inner s =
     (if i = 0 then inner s
      else (case read_given_char sep s of None \<Rightarrow> None | Some t \<Rightarrow> inner t))"

text \<open>Decimal octets separated by dots; a leading zero is refused.\<close>

fun read_octets :: "nat \<Rightarrow> nat \<Rightarrow> string \<Rightarrow> (nat list \<times> string) option" where
  "read_octets 0 i s = Some ([], s)"
| "read_octets (Suc k) i s =
     (case read_separator CHR ''.'' i (read_number 10 255 3 False) s of
        None \<Rightarrow> None
      | Some (v, t) \<Rightarrow>
          (case read_octets k (Suc i) t of None \<Rightarrow> None | Some (vs, r) \<Rightarrow> Some (v # vs, r)))"

definition read_ipv4_addr :: "string \<Rightarrow> (nat list \<times> string) option" where
  "read_ipv4_addr s = read_octets 4 0 s"

text \<open>Up to \<open>rest\<close> groups of an IPv6 address from index \<open>i\<close> on; where two groups still fit, an IPv4
  address may stand for them and ends the groups.\<close>

fun read_groups :: "nat \<Rightarrow> nat \<Rightarrow> string \<Rightarrow> nat list \<times> bool \<times> string" where
  "read_groups 0 i s = ([], False, s)"
| "read_groups (Suc k) i s =
     (case (if k = 0 then None else read_separator CHR '':'' i read_ipv4_addr s) of
        Some (o4, t) \<Rightarrow> ([o4 ! 0 * 256 + o4 ! 1, o4 ! 2 * 256 + o4 ! 3], True, t)
      | None \<Rightarrow>
          (case read_separator CHR '':'' i (read_number 16 65535 4 True) s of
             None \<Rightarrow> ([], False, s)
           | Some (g, t) \<Rightarrow> (let (gs, v4, r) = read_groups k (Suc i) t in (g # gs, v4, r))))"

definition read_ipv6_addr :: "string \<Rightarrow> (nat list \<times> string) option" where
  "read_ipv6_addr s =
     (let (head, head_v4, r) = read_groups 8 0 s in
      if length head = 8 then Some (head, r)
      else if head_v4 then None
      else
        (case read_given_char CHR '':'' r of
           None \<Rightarrow> None
         | Some r1 \<Rightarrow>
             (case read_given_char CHR '':'' r1 of
                None \<Rightarrow> None
              | Some r2 \<Rightarrow>
                  (let (back, _, r3) = read_groups (8 - (length head + 1)) 0 r2 in
                   Some (head @ replicate (8 - length head - length back) 0 @ back, r3)))))"

datatype ip_addr = V4 "nat list" | V6 "nat list"

definition parse_ip_addr :: "string \<Rightarrow> ip_addr option" where
  "parse_ip_addr s =
     (case (case read_ipv4_addr s of
              Some (o4, r) \<Rightarrow> Some (V4 o4, r)
            | None \<Rightarrow> (case read_ipv6_addr s of Some (gs, r) \<Rightarrow> Some (V6 gs, r) | None \<Rightarrow> None)) of
        Some (ip, []) \<Rightarrow> Some ip
      | _ \<Rightarrow> None)"

fun is_loopback :: "ip_addr \<Rightarrow> bool" where
  "is_loopback (V4 o4) = (o4 ! 0 = 127)"
| "is_loopback (V6 gs) = (gs = [0, 0, 0, 0, 0, 0, 0, 1])"

section \<open>Facts\<close>

lemma read_octets_length: "read_octets k i s = Some (vs, r) \<Longrightarrow> length vs = k"
  by (induction k arbitrary: i s vs r) (auto split: option.splits)

lemma read_groups_length: "read_groups k i s = (gs, v4, r) \<Longrightarrow> length gs \<le> k"
proof (induction k arbitrary: i s gs v4 r)
  case (Suc k)
  from Suc.prems show ?case
    by (cases "k = 0") (auto simp: Let_def dest: Suc.IH split: option.splits prod.splits)
qed simp

lemma read_ipv6_addr_length:
  assumes "read_ipv6_addr s = Some (gs, r)"
  shows "length gs = 8"
proof -
  obtain head v4 r0 where head: "read_groups 8 0 s = (head, v4, r0)" by (cases "read_groups 8 0 s")
  have "length head \<le> 8" by (rule read_groups_length [OF head])
  moreover have "length b \<le> 8 - (length head + 1)" if "read_groups (8 - (length head + 1)) 0 t = (b, v, u)" for t b v u
    by (rule read_groups_length [OF that])
  ultimately show ?thesis using assms
    by (fastforce simp: read_ipv6_addr_def head split: option.splits prod.splits if_splits)
qed

text \<open>A parsed address has four octets or eight groups.\<close>

lemma parse_ip_addr_length:
  "parse_ip_addr s = Some (V4 o4) \<Longrightarrow> length o4 = 4"
  "parse_ip_addr s = Some (V6 gs) \<Longrightarrow> length gs = 8"
proof -
  show "parse_ip_addr s = Some (V4 o4) \<Longrightarrow> length o4 = 4"
    by (auto simp: parse_ip_addr_def read_ipv4_addr_def dest: read_octets_length
        split: option.splits list.splits)
  assume "parse_ip_addr s = Some (V6 gs)"
  then obtain r where "read_ipv6_addr s = Some (gs, r)"
    by (auto simp: parse_ip_addr_def split: option.splits list.splits)
  then show "length gs = 8" by (rule read_ipv6_addr_length)
qed

lemma read_octets_numeral [simp]:
  "read_octets (numeral k) i s =
     (case read_separator CHR ''.'' i (read_number 10 255 3 False) s of
        None \<Rightarrow> None
      | Some (v, t) \<Rightarrow>
          (case read_octets (pred_numeral k) (Suc i) t of None \<Rightarrow> None | Some (vs, r) \<Rightarrow> Some (v # vs, r)))"
  by (simp add: numeral_eq_Suc)

lemma read_groups_numeral [simp]:
  "read_groups (numeral k) i s =
     (case (if pred_numeral k = 0 then None else read_separator CHR '':'' i read_ipv4_addr s) of
        Some (o4, t) \<Rightarrow> ([o4 ! 0 * 256 + o4 ! 1, o4 ! 2 * 256 + o4 ! 3], True, t)
      | None \<Rightarrow>
          (case read_separator CHR '':'' i (read_number 16 65535 4 True) s of
             None \<Rightarrow> ([], False, s)
           | Some (g, t) \<Rightarrow> (let (gs, v4, r) = read_groups (pred_numeral k) (Suc i) t in (g # gs, v4, r))))"
  by (simp add: numeral_eq_Suc)

lemmas ip_eval = parse_ip_addr_def read_ipv4_addr_def read_ipv6_addr_def read_separator_def
  read_given_char_def read_number_def to_digit_def

lemma loopback_examples:
  "map_option is_loopback (parse_ip_addr ''127.0.0.1'') = Some True"
  "map_option is_loopback (parse_ip_addr ''::1'') = Some True"
  "map_option is_loopback (parse_ip_addr ''128.0.0.1'') = Some False"
  "parse_ip_addr ''127.0.0.01'' = None" "parse_ip_addr ''localhost'' = None"
  by (simp_all add: ip_eval) (simp add: numeral_eq_Suc)

end
