(* ===== verification/Config.thy ===== *)
theory Config
  imports Rust_Net Errors
begin

text \<open>
  \<open>src/config.rs\<close> and \<open>src/config/\<close>: the configuration record with its default, \<open>Debug\<close> view and
  duration format, the validation, the overlay of environment variables, the reader of TOML texts
  and the builder. A \<open>Duration\<close> is its number of nanoseconds. The URL parser and the TOML
  deserializer are third-party code and arguments of the definitions that call them.
\<close>

section \<open>Durations\<close>

type_synonym duration = nat

definition duration_max :: duration where
  "duration_max = (2 ^ 64 - 1) * 1000000000 + 999999999"

definition from_secs :: "u64 \<Rightarrow> duration" where
  "from_secs s = unat s * 1000000000"

definition from_millis :: "u64 \<Rightarrow> duration" where
  "from_millis m = unat m * 1000000"

definition from_nanos :: "u64 \<Rightarrow> duration" where
  "from_nanos n = unat n"

definition duration_checked_add :: "duration \<Rightarrow> duration \<Rightarrow> duration option" where
  "duration_checked_add a b = (if a + b \<le> duration_max then Some (a + b) else None)"

text \<open>The two spellings of a duration, and \<open>de_duration\<close> after the untagged enum has been read.\<close>

datatype raw_duration = DurTable (dur_secs: u64) (dur_nanos: u32) | DurMillis u64

fun de_duration :: "raw_duration \<Rightarrow> string + duration" where
  "de_duration (DurTable secs nanos) =
     (if 999999999 < nanos then Inl msg_nanos_range
      else ok_or msg_duration_overflow
             (duration_checked_add (from_secs secs) (from_nanos (ucast nanos))))"
| "de_duration (DurMillis millis) = Inr (from_millis millis)"

section \<open>The configuration\<close>

record kafka_config =
  brokers :: string
  client_id :: string
  sasl_mechanism :: "string option"
  sasl_username :: "string option"
  sasl_password :: "string option"
  tls :: bool
  tls_ca_file :: "string option"
  delivery_timeout :: duration
  connect_timeout :: duration
  operation_timeout :: duration

definition default_config :: kafka_config where
  "default_config =
     \<lparr>brokers = ''127.0.0.1:9092'', client_id = ''kafkax'', sasl_mechanism = None,
      sasl_username = None, sasl_password = None, tls = False, tls_ca_file = None,
      delivery_timeout = from_secs 30, connect_timeout = from_secs 10, operation_timeout = from_secs 10\<rparr>"

definition security_protocol :: "kafka_config \<Rightarrow> string" where
  "security_protocol c =
     (if tls c
      then (if sasl_mechanism c \<noteq> None then ''SASL_SSL'' else ''SSL'')
      else (if sasl_mechanism c \<noteq> None then ''SASL_PLAINTEXT'' else ''PLAINTEXT''))"

definition sasl_credentials :: "kafka_config \<Rightarrow> (string \<times> string) option" where
  "sasl_credentials c =
     (case sasl_username c of
        None \<Rightarrow> None
      | Some u \<Rightarrow> (case sasl_password c of None \<Rightarrow> None | Some p \<Rightarrow> Some (u, p)))"

text \<open>What \<open>Debug\<close> shows: the values handed to \<open>debug_struct\<close>, in order.\<close>

definition redact_broker :: "string \<Rightarrow> string" where
  "redact_broker broker = (if contains broker ''@'' then ''<redacted-userinfo>'' else trim broker)"

definition redact_brokers :: "string \<Rightarrow> string" where
  "redact_brokers bs = join '','' (map redact_broker (split_on CHR '','' bs))"

datatype shown = ShowStr string | ShowOpt "string option" | ShowBool bool | ShowDuration duration

definition debug_config :: "kafka_config \<Rightarrow> (string \<times> shown) list" where
  "debug_config c =
     [(''brokers'', ShowStr (redact_brokers (brokers c))),
      (''client_id'', ShowStr (client_id c)),
      (''sasl_mechanism'', ShowOpt (sasl_mechanism c)),
      (''sasl_username'', ShowOpt (map_option (\<lambda>_. ''***'') (sasl_username c))),
      (''sasl_password'', ShowOpt (map_option (\<lambda>_. ''***'') (sasl_password c))),
      (''tls'', ShowBool (tls c)),
      (''tls_ca_file'', ShowOpt (tls_ca_file c)),
      (''delivery_timeout'', ShowDuration (delivery_timeout c)),
      (''connect_timeout'', ShowDuration (connect_timeout c)),
      (''operation_timeout'', ShowDuration (operation_timeout c))]"

section \<open>Validation\<close>

text \<open>What the check reads of \<open>Url::parse\<close>: the user name, the password and the host, or the text of
  the error.\<close>

record url =
  url_username :: string
  url_password :: "string option"
  url_host :: "string option"

type_synonym url_parser = "string \<Rightarrow> string + url"

definition broker_host :: "url_parser \<Rightarrow> string \<Rightarrow> string kafka_result" where
  "broker_host parse broker =
     (let candidate = (if contains broker ''://'' then broker else ''kafka://'' @ broker) in
      case parse candidate of
        Inl err \<Rightarrow> Inl (Config (msg_broker_invalid @ err))
      | Inr u \<Rightarrow>
          if url_username u \<noteq> [] \<or> url_password u \<noteq> None then Inl (Config msg_userinfo)
          else (case url_host u of
                  None \<Rightarrow> Inl (Config msg_no_host)
                | Some host \<Rightarrow> if host = [] then Inl (Config msg_no_host) else Inr host))"

definition strip_brackets :: "string \<Rightarrow> string" where
  "strip_brackets host =
     (case strip_prefix host ''['' of
        None \<Rightarrow> host
      | Some v \<Rightarrow> (case strip_suffix v '']'' of None \<Rightarrow> host | Some w \<Rightarrow> w))"

definition host_is_loopback :: "string \<Rightarrow> bool" where
  "host_is_loopback host =
     (let h = strip_brackets host in
      eq_ignore_ascii_case h ''localhost'' \<or>
      (case parse_ip_addr h of None \<Rightarrow> False | Some ip \<Rightarrow> is_loopback ip))"

definition broker_list :: "string \<Rightarrow> string list" where
  "broker_list bs = filter (\<lambda>b. b \<noteq> []) (map trim (split_on CHR '','' bs))"

fun check_brokers :: "url_parser \<Rightarrow> bool \<Rightarrow> string list \<Rightarrow> unit kafka_result" where
  "check_brokers parse use_tls [] = Inr ()"
| "check_brokers parse use_tls (b # bs) =
     (case broker_host parse b of
        Inl e \<Rightarrow> Inl e
      | Inr host \<Rightarrow>
          if \<not> use_tls \<and> \<not> host_is_loopback host
          then Inl (Config (msg_remote_plain_a @ host @ msg_remote_plain_b))
          else check_brokers parse use_tls bs)"

text \<open>\<open>as_deref().unwrap_or_default()\<close>\<close>

definition or_empty :: "string option \<Rightarrow> string" where
  "or_empty x = (case x of None \<Rightarrow> [] | Some s \<Rightarrow> s)"

definition check_sasl :: "kafka_config \<Rightarrow> unit kafka_result" where
  "check_sasl c =
     (case sasl_mechanism c of
        Some mechanism \<Rightarrow>
          if \<not> eq_ignore_ascii_case mechanism ''PLAIN''
          then Inl (Config (msg_only_plain_a @ mechanism @ msg_only_plain_b))
          else if or_empty (sasl_username c) = [] then Inl (Config msg_no_username)
          else if or_empty (sasl_password c) = [] then Inl (Config msg_no_password)
          else Inr ()
      | None \<Rightarrow>
          if sasl_username c \<noteq> None \<or> sasl_password c \<noteq> None then Inl (Config msg_stray_credentials)
          else Inr ())"

definition validate :: "url_parser \<Rightarrow> kafka_config \<Rightarrow> unit kafka_result" where
  "validate parse c =
     (if trim (brokers c) = [] then Inl (Config msg_brokers_empty)
      else if delivery_timeout c = 0 \<or> connect_timeout c = 0 \<or> operation_timeout c = 0
      then Inl (Config msg_timeout_zero)
      else if tls_ca_file c \<noteq> None \<and> \<not> tls c then Inl (Config msg_ca_without_tls)
      else if broker_list (brokers c) = [] then Inl (Config msg_no_broker)
      else
        (case check_brokers parse (tls c) (broker_list (brokers c)) of
           Inl e \<Rightarrow> Inl e
         | Inr _ \<Rightarrow>
             (case check_sasl c of
                Inl e \<Rightarrow> Inl e
              | Inr _ \<Rightarrow>
                  if trim (client_id c) = [] then Inl (Config msg_client_id_empty) else Inr ())))"

section \<open>Environment variables\<close>

text \<open>\<open>std::env::var\<close>: \<open>None\<close> for a variable that is unset or not valid Unicode.\<close>

type_synonym env = "string \<Rightarrow> string option"

text \<open>\<open>Display\<close> of the error of \<open>parse::<u64>\<close>: the first digit that is no digit or does not fit.\<close>

fun u64_digits_error :: "nat \<Rightarrow> string \<Rightarrow> string option" where
  "u64_digits_error acc [] = None"
| "u64_digits_error acc (c # s) =
     (if \<not> is_digit c then Some ''invalid digit found in string''
      else if 2 ^ 64 \<le> 10 * acc + digit_value c then Some ''number too large to fit in target type''
      else u64_digits_error (10 * acc + digit_value c) s)"

definition u64_parse_error :: "string \<Rightarrow> string" where
  "u64_parse_error s =
     (if s = [] then ''cannot parse integer from empty string''
      else if s = ''+'' then ''invalid digit found in string''
      else (case u64_digits_error 0 (if hd s = CHR ''+'' then tl s else s) of None \<Rightarrow> [] | Some e \<Rightarrow> e))"

definition parse_bool :: "string \<Rightarrow> string \<Rightarrow> bool kafka_result" where
  "parse_bool value name =
     (let v = to_ascii_lowercase (trim value) in
      if v = ''1'' \<or> v = ''true'' \<or> v = ''yes'' \<or> v = ''on'' then Inr True
      else if v = ''0'' \<or> v = ''false'' \<or> v = ''no'' \<or> v = ''off'' then Inr False
      else Inl (Config (name @ msg_env_invalid @ value)))"

definition parse_millis :: "string \<Rightarrow> string \<Rightarrow> duration kafka_result" where
  "parse_millis value name =
     (case parse_u64 (trim value) of
        Some m \<Rightarrow> Inr (from_millis m)
      | None \<Rightarrow> Inl (Config (name @ msg_env_invalid @ u64_parse_error (trim value))))"

abbreviation "ENV_BROKERS \<equiv> ''FOUNDATIONX_KAFKAX_BROKERS''"
abbreviation "ENV_CLIENT_ID \<equiv> ''FOUNDATIONX_KAFKAX_CLIENT_ID''"
abbreviation "ENV_SASL_MECHANISM \<equiv> ''FOUNDATIONX_KAFKAX_SASL_MECHANISM''"
abbreviation "ENV_SASL_USERNAME \<equiv> ''FOUNDATIONX_KAFKAX_SASL_USERNAME''"
abbreviation "ENV_SASL_PASSWORD \<equiv> ''FOUNDATIONX_KAFKAX_SASL_PASSWORD''"
abbreviation "ENV_TLS \<equiv> ''FOUNDATIONX_KAFKAX_TLS''"
abbreviation "ENV_TLS_CA_FILE \<equiv> ''FOUNDATIONX_KAFKAX_TLS_CA_FILE''"
abbreviation "ENV_CONNECT_TIMEOUT_MS \<equiv> ''FOUNDATIONX_KAFKAX_CONNECT_TIMEOUT_MS''"
abbreviation "ENV_OPERATION_TIMEOUT_MS \<equiv> ''FOUNDATIONX_KAFKAX_OPERATION_TIMEOUT_MS''"
abbreviation "ENV_DELIVERY_TIMEOUT_MS \<equiv> ''FOUNDATIONX_KAFKAX_DELIVERY_TIMEOUT_MS''"

text \<open>The overlay, one step per variable in the order of the source.\<close>

definition overlay_text :: "env \<Rightarrow> string \<Rightarrow> (string \<Rightarrow> kafka_config \<Rightarrow> kafka_config) \<Rightarrow> kafka_config \<Rightarrow> kafka_config" where
  "overlay_text env name set_field c =
     (case env name of None \<Rightarrow> c | Some value \<Rightarrow> if trim value = [] then c else set_field value c)"

definition overlay_mechanism :: "env \<Rightarrow> kafka_config \<Rightarrow> kafka_config" where
  "overlay_mechanism env c =
     (case env ENV_SASL_MECHANISM of
        None \<Rightarrow> c
      | Some value \<Rightarrow>
          if trim value = [] \<or> eq_ignore_ascii_case (trim value) ''none''
          then c\<lparr>sasl_mechanism := None, sasl_username := None, sasl_password := None\<rparr>
          else c\<lparr>sasl_mechanism := Some (trim value)\<rparr>)"

definition non_empty :: "string \<Rightarrow> string option" where
  "non_empty s = (if s = [] then None else Some s)"

definition overlay_credential ::
  "env \<Rightarrow> string \<Rightarrow> (string option \<Rightarrow> kafka_config \<Rightarrow> kafka_config) \<Rightarrow> kafka_config \<Rightarrow> kafka_config"
where
  "overlay_credential env name set_field c =
     (case env name of None \<Rightarrow> c | Some value \<Rightarrow> set_field (non_empty (trim value)) c)"

definition overlay_tls :: "env \<Rightarrow> kafka_config \<Rightarrow> kafka_config kafka_result" where
  "overlay_tls env c =
     (case env ENV_TLS of
        None \<Rightarrow> Inr c
      | Some value \<Rightarrow>
          (case parse_bool value ENV_TLS of Inl e \<Rightarrow> Inl e | Inr b \<Rightarrow> Inr (c\<lparr>tls := b\<rparr>)))"

definition overlay_timeout ::
  "env \<Rightarrow> string \<Rightarrow> (duration \<Rightarrow> kafka_config \<Rightarrow> kafka_config) \<Rightarrow> kafka_config \<Rightarrow> kafka_config kafka_result"
where
  "overlay_timeout env name set_field c =
     (case env name of
        None \<Rightarrow> Inr c
      | Some value \<Rightarrow>
          (case parse_millis value name of Inl e \<Rightarrow> Inl e | Inr d \<Rightarrow> Inr (set_field d c)))"

definition apply_env_overlay :: "env \<Rightarrow> kafka_config \<Rightarrow> kafka_config kafka_result" where
  "apply_env_overlay env c0 =
     (let c1 = overlay_text env ENV_BROKERS (\<lambda>v c. c\<lparr>brokers := v\<rparr>) c0;
          c2 = overlay_text env ENV_CLIENT_ID (\<lambda>v c. c\<lparr>client_id := v\<rparr>) c1;
          c3 = overlay_mechanism env c2;
          c4 = overlay_credential env ENV_SASL_USERNAME (\<lambda>v c. c\<lparr>sasl_username := v\<rparr>) c3;
          c5 = overlay_credential env ENV_SASL_PASSWORD (\<lambda>v c. c\<lparr>sasl_password := v\<rparr>) c4
      in and_then (overlay_tls env c5) (\<lambda>c6.
         let c7 = overlay_text env ENV_TLS_CA_FILE (\<lambda>v c. c\<lparr>tls_ca_file := Some v\<rparr>) c6 in
         and_then (overlay_timeout env ENV_CONNECT_TIMEOUT_MS (\<lambda>d c. c\<lparr>connect_timeout := d\<rparr>) c7) (\<lambda>c8.
         and_then (overlay_timeout env ENV_OPERATION_TIMEOUT_MS (\<lambda>d c. c\<lparr>operation_timeout := d\<rparr>) c8) (\<lambda>c9.
         overlay_timeout env ENV_DELIVERY_TIMEOUT_MS (\<lambda>d c. c\<lparr>delivery_timeout := d\<rparr>) c9))))"

definition from_env :: "url_parser \<Rightarrow> env \<Rightarrow> kafka_config kafka_result" where
  "from_env parse env =
     and_then (apply_env_overlay env default_config) (\<lambda>c.
     and_then (validate parse c) (\<lambda>_. Inr c))"

section \<open>TOML\<close>

text \<open>
  The deserializer gives the text as a generic value and as a configuration. What the code reads of
  a value is whether it is a table and its keys; of an error its message and its byte range.
\<close>

datatype toml_value = TomlTable "string list" | TomlOther

record toml_error =
  te_message :: string
  te_span :: "(nat \<times> nat) option"

record toml_api =
  toml_value_of :: "string \<Rightarrow> toml_error + toml_value"
  toml_config_of :: "string \<Rightarrow> toml_error + kafka_config"

text \<open>\<open>text.get(..n)\<close>: \<open>None\<close> beyond the end or inside a character.\<close>

definition str_get_to :: "string \<Rightarrow> nat \<Rightarrow> string option" where
  "str_get_to s n =
     (if n = length s \<or> n < length s \<and> \<not> continuation (s ! n) then Some (take n s) else None)"

definition toml_error_summary :: "string \<Rightarrow> toml_error \<Rightarrow> string" where
  "toml_error_summary source err =
     (case te_span err of
        None \<Rightarrow> te_message err
      | Some (span_start, span_end) \<Rightarrow>
          (let line = (case str_get_to source span_start of None \<Rightarrow> 1 | Some h \<Rightarrow> count_list h newline + 1) in
           te_message err @ msg_span_a @ show_nat line @ msg_span_b @ show_nat span_start @ ''..'' @
           show_nat span_end @ msg_offset_count_c))"

fun reject_keys :: "string list \<Rightarrow> string list \<Rightarrow> unit kafka_result" where
  "reject_keys [] table_keys = Inr ()"
| "reject_keys (k # ks) table_keys =
     (if k \<in> set table_keys then Inl (Config (msg_toml_forbidden @ k)) else reject_keys ks table_keys)"

definition reject_secret_keys :: "toml_api \<Rightarrow> string \<Rightarrow> unit kafka_result" where
  "reject_secret_keys api source =
     (case toml_value_of api source of
        Inl err \<Rightarrow> Inl (Config (msg_toml_parse @ toml_error_summary source err))
      | Inr TomlOther \<Rightarrow> Inl (Config msg_toml_root)
      | Inr (TomlTable table_keys) \<Rightarrow> reject_keys [''sasl_password'', ''sasl_username''] table_keys)"

definition from_toml :: "url_parser \<Rightarrow> toml_api \<Rightarrow> string \<Rightarrow> kafka_config kafka_result" where
  "from_toml parse api source =
     and_then (reject_secret_keys api source) (\<lambda>_.
     and_then (map_err (\<lambda>err. Config (msg_toml_invalid @ toml_error_summary source err)) (toml_config_of api source)) (\<lambda>c.
     and_then (validate parse c) (\<lambda>_. Inr c)))"

section \<open>The builder\<close>

text \<open>\<open>KafkaConfigBuilder\<close> wraps a configuration.\<close>

record config_builder =
  inner :: kafka_config

definition builder_new :: config_builder where
  "builder_new = \<lparr>inner = default_config\<rparr>"

definition set_brokers :: "string \<Rightarrow> config_builder \<Rightarrow> config_builder" where
  "set_brokers bs b = b\<lparr>inner := (inner b)\<lparr>brokers := bs\<rparr>\<rparr>"

definition set_client_id :: "string \<Rightarrow> config_builder \<Rightarrow> config_builder" where
  "set_client_id v b = b\<lparr>inner := (inner b)\<lparr>client_id := v\<rparr>\<rparr>"

definition sasl_plain :: "string \<Rightarrow> string \<Rightarrow> config_builder \<Rightarrow> config_builder" where
  "sasl_plain username password b =
     b\<lparr>inner := (inner b)\<lparr>sasl_mechanism := Some ''PLAIN'', sasl_username := Some username,
                        sasl_password := Some password\<rparr>\<rparr>"

definition no_sasl :: "config_builder \<Rightarrow> config_builder" where
  "no_sasl b =
     b\<lparr>inner := (inner b)\<lparr>sasl_mechanism := None, sasl_username := None, sasl_password := None\<rparr>\<rparr>"

definition set_tls :: "bool \<Rightarrow> config_builder \<Rightarrow> config_builder" where
  "set_tls enable b = b\<lparr>inner := (inner b)\<lparr>tls := enable\<rparr>\<rparr>"

definition set_tls_ca_file :: "string \<Rightarrow> config_builder \<Rightarrow> config_builder" where
  "set_tls_ca_file path b = b\<lparr>inner := (inner b)\<lparr>tls_ca_file := Some path\<rparr>\<rparr>"

definition set_delivery_timeout :: "duration \<Rightarrow> config_builder \<Rightarrow> config_builder" where
  "set_delivery_timeout d b = b\<lparr>inner := (inner b)\<lparr>delivery_timeout := d\<rparr>\<rparr>"

definition set_connect_timeout :: "duration \<Rightarrow> config_builder \<Rightarrow> config_builder" where
  "set_connect_timeout d b = b\<lparr>inner := (inner b)\<lparr>connect_timeout := d\<rparr>\<rparr>"

definition set_operation_timeout :: "duration \<Rightarrow> config_builder \<Rightarrow> config_builder" where
  "set_operation_timeout d b = b\<lparr>inner := (inner b)\<lparr>operation_timeout := d\<rparr>\<rparr>"

definition build :: "url_parser \<Rightarrow> config_builder \<Rightarrow> kafka_config kafka_result" where
  "build parse b = and_then (validate parse (inner b)) (\<lambda>_. Inr (inner b))"

section \<open>Facts\<close>

lemma or_empty_iff: "or_empty x \<noteq> [] \<longleftrightarrow> (\<exists>s. x = Some s \<and> s \<noteq> [])"
  by (cases x) (simp_all add: or_empty_def)

text \<open>The abstract contract of \<open>validate\<close>.\<close>

definition broker_ok :: "url_parser \<Rightarrow> bool \<Rightarrow> string \<Rightarrow> bool" where
  "broker_ok parse use_tls b =
     (case parse (if contains b ''://'' then b else ''kafka://'' @ b) of
        Inl _ \<Rightarrow> False
      | Inr u \<Rightarrow>
          url_username u = [] \<and> url_password u = None \<and>
          (case url_host u of None \<Rightarrow> False | Some h \<Rightarrow> h \<noteq> [] \<and> (use_tls \<or> host_is_loopback h)))"

definition sasl_ok :: "kafka_config \<Rightarrow> bool" where
  "sasl_ok c =
     (case sasl_mechanism c of
        None \<Rightarrow> sasl_username c = None \<and> sasl_password c = None
      | Some m \<Rightarrow>
          eq_ignore_ascii_case m ''PLAIN'' \<and>
          (case sasl_credentials c of None \<Rightarrow> False | Some (u, p) \<Rightarrow> u \<noteq> [] \<and> p \<noteq> []))"

definition valid_config :: "url_parser \<Rightarrow> kafka_config \<Rightarrow> bool" where
  "valid_config parse c =
     (trim (brokers c) \<noteq> [] \<and> broker_list (brokers c) \<noteq> [] \<and>
      list_all (broker_ok parse (tls c)) (broker_list (brokers c)) \<and>
      0 < delivery_timeout c \<and> 0 < connect_timeout c \<and> 0 < operation_timeout c \<and>
      (tls c \<or> tls_ca_file c = None) \<and> sasl_ok c \<and> trim (client_id c) \<noteq> [])"

lemma broker_ok_iff:
  "broker_ok parse use_tls b \<longleftrightarrow> (\<exists>h. broker_host parse b = Inr h \<and> (use_tls \<or> host_is_loopback h))"
  by (auto simp: broker_ok_def broker_host_def Let_def split: sum.splits option.splits)

lemma check_brokers_ok: "check_brokers parse use_tls bs = Inr () \<longleftrightarrow> list_all (broker_ok parse use_tls) bs"
  by (induction bs) (auto simp: broker_ok_iff split: sum.splits)

lemma check_sasl_ok: "check_sasl c = Inr () \<longleftrightarrow> sasl_ok c"
  by (auto simp: check_sasl_def sasl_ok_def sasl_credentials_def or_empty_def split: option.splits)

lemma broker_host_Inl: "broker_host parse b = Inl e \<Longrightarrow> is_config_error e"
  by (auto simp: broker_host_def Let_def split: sum.splits option.splits if_splits)

lemma check_brokers_Inl: "check_brokers parse use_tls bs = Inl e \<Longrightarrow> is_config_error e"
  by (induction bs) (auto split: sum.splits if_splits dest: broker_host_Inl)

lemma check_sasl_Inl: "check_sasl c = Inl e \<Longrightarrow> is_config_error e"
  by (auto simp: check_sasl_def split: option.splits if_splits)

lemma validate_ok: "validate parse c = Inr () \<longleftrightarrow> valid_config parse c"
  unfolding valid_config_def check_brokers_ok [symmetric] check_sasl_ok [symmetric]
  by (auto simp: validate_def split: sum.splits)

lemma validate_Inl: "validate parse c = Inl e \<Longrightarrow> is_config_error e"
  by (auto simp: validate_def split: sum.splits if_splits dest: check_brokers_Inl check_sasl_Inl)

lemma checked_ok: "and_then (validate parse c) (\<lambda>_. Inr c) = Inr d \<longleftrightarrow> valid_config parse c \<and> d = c"
  by (cases "validate parse c") (auto simp flip: validate_ok)

text \<open>The overlay field by field.\<close>

definition env_text :: "env \<Rightarrow> string \<Rightarrow> string \<Rightarrow> string" where
  "env_text env name old = (case env name of None \<Rightarrow> old | Some v \<Rightarrow> if trim v = [] then old else v)"

definition env_path :: "env \<Rightarrow> string \<Rightarrow> string option \<Rightarrow> string option" where
  "env_path env name old = (case env name of None \<Rightarrow> old | Some v \<Rightarrow> if trim v = [] then old else Some v)"

definition env_clears_sasl :: "env \<Rightarrow> bool" where
  "env_clears_sasl env =
     (case env ENV_SASL_MECHANISM of
        None \<Rightarrow> False
      | Some v \<Rightarrow> trim v = [] \<or> eq_ignore_ascii_case (trim v) ''none'')"

definition env_mechanism :: "env \<Rightarrow> string option \<Rightarrow> string option" where
  "env_mechanism env old =
     (if env_clears_sasl env then None
      else (case env ENV_SASL_MECHANISM of None \<Rightarrow> old | Some v \<Rightarrow> Some (trim v)))"

definition env_credential :: "env \<Rightarrow> string \<Rightarrow> string option \<Rightarrow> string option" where
  "env_credential env name old =
     (case env name of
        None \<Rightarrow> if env_clears_sasl env then None else old
      | Some v \<Rightarrow> non_empty (trim v))"

definition env_bool :: "env \<Rightarrow> bool \<Rightarrow> bool kafka_result" where
  "env_bool env old = (case env ENV_TLS of None \<Rightarrow> Inr old | Some v \<Rightarrow> parse_bool v ENV_TLS)"

definition env_duration :: "env \<Rightarrow> string \<Rightarrow> duration \<Rightarrow> duration kafka_result" where
  "env_duration env name old = (case env name of None \<Rightarrow> Inr old | Some v \<Rightarrow> parse_millis v name)"

lemma overlay_text_brokers:
  "overlay_text env n (\<lambda>v c. c\<lparr>brokers := v\<rparr>) c = c\<lparr>brokers := env_text env n (brokers c)\<rparr>"
  by (simp add: overlay_text_def env_text_def split: option.split)

lemma overlay_text_client_id:
  "overlay_text env n (\<lambda>v c. c\<lparr>client_id := v\<rparr>) c = c\<lparr>client_id := env_text env n (client_id c)\<rparr>"
  by (simp add: overlay_text_def env_text_def split: option.split)

lemma overlay_text_ca:
  "overlay_text env n (\<lambda>v c. c\<lparr>tls_ca_file := Some v\<rparr>) c = c\<lparr>tls_ca_file := env_path env n (tls_ca_file c)\<rparr>"
  by (simp add: overlay_text_def env_path_def split: option.split)

lemma overlay_sasl:
  "overlay_credential env p (\<lambda>v c. c\<lparr>sasl_password := v\<rparr>)
     (overlay_credential env u (\<lambda>v c. c\<lparr>sasl_username := v\<rparr>) (overlay_mechanism env c)) =
   c\<lparr>sasl_mechanism := env_mechanism env (sasl_mechanism c),
     sasl_username := env_credential env u (sasl_username c),
     sasl_password := env_credential env p (sasl_password c)\<rparr>"
  by (simp add: overlay_credential_def overlay_mechanism_def env_mechanism_def env_credential_def
      env_clears_sasl_def split: option.split)

lemma overlay_tls_bind:
  "and_then (overlay_tls env c) f = and_then (env_bool env (tls c)) (\<lambda>b. f (c\<lparr>tls := b\<rparr>))"
  by (simp add: overlay_tls_def env_bool_def split: option.split sum.split)

lemma overlay_timeout_bind:
  assumes "\<And>c. set_field (get_field c) c = c"
  shows "overlay_timeout env n set_field c = and_then (env_duration env n (get_field c)) (\<lambda>d. Inr (set_field d c))"
  by (simp add: overlay_timeout_def env_duration_def assms split: option.split sum.split)

lemma apply_env_overlay_fields:
  "apply_env_overlay env c =
     and_then (env_bool env (tls c)) (\<lambda>b.
     and_then (env_duration env ENV_CONNECT_TIMEOUT_MS (connect_timeout c)) (\<lambda>dc.
     and_then (env_duration env ENV_OPERATION_TIMEOUT_MS (operation_timeout c)) (\<lambda>dop.
     and_then (env_duration env ENV_DELIVERY_TIMEOUT_MS (delivery_timeout c)) (\<lambda>dd.
       Inr \<lparr>brokers = env_text env ENV_BROKERS (brokers c),
            client_id = env_text env ENV_CLIENT_ID (client_id c),
            sasl_mechanism = env_mechanism env (sasl_mechanism c),
            sasl_username = env_credential env ENV_SASL_USERNAME (sasl_username c),
            sasl_password = env_credential env ENV_SASL_PASSWORD (sasl_password c),
            tls = b, tls_ca_file = env_path env ENV_TLS_CA_FILE (tls_ca_file c),
            delivery_timeout = dd, connect_timeout = dc, operation_timeout = dop\<rparr>))))"
proof -
  note timeouts =
    overlay_timeout_bind [where set_field = "\<lambda>d c. c\<lparr>connect_timeout := d\<rparr>" and get_field = connect_timeout]
    overlay_timeout_bind [where set_field = "\<lambda>d c. c\<lparr>operation_timeout := d\<rparr>" and get_field = operation_timeout]
    overlay_timeout_bind [where set_field = "\<lambda>d c. c\<lparr>delivery_timeout := d\<rparr>" and get_field = delivery_timeout]
  show ?thesis
    by (cases c) (simp add: apply_env_overlay_def Let_def overlay_text_brokers overlay_text_client_id
        overlay_text_ca overlay_sasl overlay_tls_bind timeouts and_then_assoc)
qed

lemma env_fields_idem:
  "env_text env n (env_text env n x) = env_text env n x"
  "env_path env n (env_path env n y) = env_path env n y"
  "env_mechanism env (env_mechanism env y) = env_mechanism env y"
  "env_credential env n (env_credential env n y) = env_credential env n y"
  "env_bool env a = Inr b \<Longrightarrow> env_bool env b = Inr b"
  "env_duration env n d = Inr d' \<Longrightarrow> env_duration env n d' = Inr d'"
  by (simp_all add: env_text_def env_path_def env_mechanism_def env_credential_def env_bool_def
      env_duration_def split: option.splits)

lemma redact_broker_clean: "CHR ''@'' \<notin> set (redact_broker b)"
proof (cases "contains b ''@''")
  case False
  then have "CHR ''@'' \<notin> set b" by (metis contains_iff append_Cons append_Nil split_list)
  then show ?thesis using False set_trim [of b] by (auto simp: redact_broker_def)
qed (simp add: redact_broker_def)

section \<open>Properties\<close>

text \<open>A parser and a TOML reader for concrete runs.\<close>

definition sample_url :: url_parser where
  "sample_url s = Inr \<lparr>url_username = [], url_password = None, url_host = Some ''127.0.0.1''\<rparr>"

definition sample_toml :: toml_api where
  "sample_toml =
     \<lparr>toml_value_of = (\<lambda>_. Inr (TomlTable [''client_id''])),
      toml_config_of = (\<lambda>_. Inr (default_config\<lparr>client_id := ''app''\<rparr>))\<rparr>"

lemma loopback_host: "host_is_loopback ''127.0.0.1''"
  by (simp add: host_is_loopback_def strip_brackets_def strip_prefix_def starts_with_def ip_eval)

lemma default_broker: "trim ''127.0.0.1:9092'' = ''127.0.0.1:9092''"
  by (rule trim_all_graphic) (simp add: graphic_def)

lemma default_client: "trim ''kafkax'' = ''kafkax''" "trim ''app'' = ''app''"
  by (rule trim_all_graphic, simp add: graphic_def)+

lemma default_config_valid: "valid_config sample_url default_config"
  by (simp add: valid_config_def default_config_def default_broker default_client broker_list_def
      broker_ok_def sample_url_def loopback_host sasl_ok_def from_secs_def)

lemma loopback_cases:
  "parse_ip_addr s = Some ip \<Longrightarrow> is_loopback ip \<Longrightarrow>
     (\<exists>o4. ip = V4 o4 \<and> length o4 = 4 \<and> o4 ! 0 = 127) \<or> ip = V6 [0, 0, 0, 0, 0, 0, 0, 1]"
  by (cases ip) (auto dest: parse_ip_addr_length)

text \<open>C14. Validation is exact: a configuration is accepted precisely when it meets the contract
  \<open>valid_config\<close> (usable broker addresses without credentials in them, plain text to loopback hosts
  only, positive deadlines, a CA file only with TLS, complete PLAIN credentials or none, a client id),
  and every refusal is a configuration error.\<close>

theorem validate_exact:
  "(validate parse c = Inr () \<longleftrightarrow> valid_config parse c) \<and>
   (case validate parse c of Inl e \<Rightarrow> is_config_error e | Inr _ \<Rightarrow> True)"
  using validate_Inl [of parse c] by (simp add: validate_ok split: sum.split)

text \<open>C9. Fail closed: with TLS off, every address of an accepted broker list (whatever the blanks and
  empty pieces between the commas) is one the URL parser reads without credentials and with a host
  that is \<open>localhost\<close>, an IPv4 address of 127/8 or the IPv6 address ::1.\<close>

theorem plaintext_only_to_loopback:
  assumes "validate parse c = Inr ()" and "\<not> tls c"
    and "b \<in> set (split_on CHR '','' (brokers c))" and "trim b \<noteq> []"
  shows "\<exists>u h. parse (if contains (trim b) ''://'' then trim b else ''kafka://'' @ trim b) = Inr u \<and>
    url_username u = [] \<and> url_password u = None \<and> url_host u = Some h \<and> h \<noteq> [] \<and>
    (eq_ignore_ascii_case (strip_brackets h) ''localhost'' \<or>
     (\<exists>o4. parse_ip_addr (strip_brackets h) = Some (V4 o4) \<and> length o4 = 4 \<and> o4 ! 0 = 127) \<or>
     parse_ip_addr (strip_brackets h) = Some (V6 [0, 0, 0, 0, 0, 0, 0, 1]))"
proof -
  have "trim b \<in> set (broker_list (brokers c))" using assms(3,4) by (auto simp: broker_list_def)
  then have "broker_ok parse False (trim b)"
    using assms(1,2) by (simp add: validate_ok valid_config_def list_all_iff)
  then obtain u h where *: "parse (if contains (trim b) ''://'' then trim b else ''kafka://'' @ trim b) = Inr u"
    "url_username u = []" "url_password u = None" "url_host u = Some h" "h \<noteq> []" "host_is_loopback h"
    unfolding broker_ok_def by (auto split: sum.splits option.splits)
  from *(6) have "eq_ignore_ascii_case (strip_brackets h) ''localhost'' \<or>
     (\<exists>o4. parse_ip_addr (strip_brackets h) = Some (V4 o4) \<and> length o4 = 4 \<and> o4 ! 0 = 127) \<or>
     parse_ip_addr (strip_brackets h) = Some (V6 [0, 0, 0, 0, 0, 0, 0, 1])"
    by (auto simp: host_is_loopback_def Let_def split: option.splits dest: loopback_cases)
  with *(1-5) show ?thesis by (intro exI [of _ u] exI [of _ h] conjI)
qed

theorem plaintext_only_to_loopback_witness:
  "\<exists>u h. sample_url (if contains (trim ''127.0.0.1:9092'') ''://'' then trim ''127.0.0.1:9092''
      else ''kafka://'' @ trim ''127.0.0.1:9092'') = Inr u \<and> url_username u = [] \<and> url_password u = None \<and>
    url_host u = Some h \<and> h \<noteq> [] \<and>
    (eq_ignore_ascii_case (strip_brackets h) ''localhost'' \<or>
     (\<exists>o4. parse_ip_addr (strip_brackets h) = Some (V4 o4) \<and> length o4 = 4 \<and> o4 ! 0 = 127) \<or>
     parse_ip_addr (strip_brackets h) = Some (V6 [0, 0, 0, 0, 0, 0, 0, 1]))"
  by (rule plaintext_only_to_loopback [of sample_url default_config])
    (simp_all add: validate_ok default_config_valid default_broker, simp_all add: default_config_def)

text \<open>C33. No way around the check: a configuration from the environment, from TOML or from the
  builder meets the contract of \<open>validate\<close>.\<close>

theorem constructed_configs_are_valid:
  assumes "from_env parse env = Inr c \<or> from_toml parse api source = Inr c \<or> build parse b = Inr c"
  shows "valid_config parse c"
  using assms by (auto simp: from_env_def from_toml_def build_def and_then_Inr_iff checked_ok simp flip: validate_ok)

theorem constructed_configs_are_valid_witness:
  "valid_config sample_url default_config"
  by (rule constructed_configs_are_valid [of sample_url "\<lambda>_. None" _ sample_toml "[]" builder_new])
    (simp add: build_def builder_new_def checked_ok default_config_valid)

definition toml_laws :: "toml_api \<Rightarrow> bool" where
  "toml_laws api =
     (\<forall>s. case toml_value_of api s of
        Inr (TomlTable ks) \<Rightarrow>
          (case toml_config_of api s of
             Inr c \<Rightarrow>
               (''sasl_username'' \<in> set ks \<or> sasl_username c = sasl_username default_config) \<and>
               (''sasl_password'' \<in> set ks \<or> sasl_password c = sasl_password default_config)
           | _ \<Rightarrow> True)
      | _ \<Rightarrow> True)"

text \<open>C39. A configuration read from TOML never authenticates: credential keys are refused, so with a
  deserializer that fills absent keys from the default, the result has neither credentials nor a
  SASL mechanism, and a TOML text that sets \<open>sasl_mechanism\<close> is always rejected.\<close>

theorem toml_config_never_authenticates:
  assumes "toml_laws api" and "from_toml parse api source = Inr c"
  shows "sasl_mechanism c = None \<and> sasl_credentials c = None \<and> security_protocol c \<in> {''SSL'', ''PLAINTEXT''}"
proof -
  from assms(2) have c: "reject_secret_keys api source = Inr ()" "toml_config_of api source = Inr c"
    "valid_config parse c"
    by (auto simp: from_toml_def and_then_Inr_iff checked_ok map_err_def simp flip: validate_ok split: sum.splits)
  from c(1) obtain ks where ks: "toml_value_of api source = Inr (TomlTable ks)"
    "''sasl_username'' \<notin> set ks" "''sasl_password'' \<notin> set ks"
    by (auto simp: reject_secret_keys_def split: sum.splits toml_value.splits if_splits)
  have "case toml_value_of api source of
        Inr (TomlTable ks) \<Rightarrow>
          (case toml_config_of api source of
             Inr c \<Rightarrow>
               (''sasl_username'' \<in> set ks \<or> sasl_username c = sasl_username default_config) \<and>
               (''sasl_password'' \<in> set ks \<or> sasl_password c = sasl_password default_config)
           | _ \<Rightarrow> True)
      | _ \<Rightarrow> True"
    using assms(1) unfolding toml_laws_def by (rule spec)
  with ks c(2) have "sasl_username c = None" "sasl_password c = None" by (auto simp: default_config_def)
  with c(3) show ?thesis
    by (auto simp: valid_config_def sasl_ok_def sasl_credentials_def security_protocol_def split: option.splits)
qed

theorem toml_config_never_authenticates_witness:
  "sasl_mechanism (default_config\<lparr>client_id := ''app''\<rparr>) = None \<and>
   sasl_credentials (default_config\<lparr>client_id := ''app''\<rparr>) = None \<and>
   security_protocol (default_config\<lparr>client_id := ''app''\<rparr>) \<in> {''SSL'', ''PLAINTEXT''}"
proof (rule toml_config_never_authenticates [of sample_toml sample_url "[]"])
  show "toml_laws sample_toml" by (simp add: toml_laws_def sample_toml_def default_config_def)
  have "valid_config sample_url (default_config\<lparr>client_id := ''app''\<rparr>)"
    using default_config_valid
    by (simp add: valid_config_def default_client sasl_ok_def sasl_credentials_def default_config_def)
  then show "from_toml sample_url sample_toml [] = Inr (default_config\<lparr>client_id := ''app''\<rparr>)"
    by (simp add: from_toml_def sample_toml_def reject_secret_keys_def checked_ok)
qed

text \<open>The \<open>Debug\<close> output is independent of the secrets: it shows that credentials are present and
  nothing else of them, and no part of a broker address that carries user information.\<close>

theorem debug_hides_secrets:
  "debug_config (c\<lparr>sasl_username := Some u, sasl_password := Some p\<rparr>) =
     debug_config (c\<lparr>sasl_username := Some u', sasl_password := Some p'\<rparr>) \<and>
   CHR ''@'' \<notin> set (redact_brokers (brokers c)) \<and>
   (''brokers'', ShowStr (redact_brokers (brokers c))) \<in> set (debug_config c)"
proof -
  have "CHR ''@'' \<notin> set (redact_brokers (brokers c))"
    unfolding redact_brokers_def by (rule join_not_in) (auto simp: redact_broker_clean)
  then show ?thesis by (simp add: debug_config_def)
qed

text \<open>C40. Durations are exact and bounded: a table is its seconds and nanoseconds, the only refusal is
  a nanosecond field of a second or more, milliseconds never overflow, and the branch for a sum
  beyond the range of \<open>Duration\<close> is dead.\<close>

theorem de_duration_exact:
  "de_duration (DurTable s n) =
     (if unat n < 1000000000 then Inr (unat s * 1000000000 + unat n) else Inl msg_nanos_range) \<and>
   de_duration (DurMillis m) = Inr (unat m * 1000000) \<and>
   (case de_duration d of Inr t \<Rightarrow> t \<le> duration_max | Inl e \<Rightarrow> e = msg_nanos_range)"
proof -
  have s: "unat (x :: u64) \<le> 2 ^ 64 - 1" for x
    using unsigned_less [of x, where ?'a = nat] by simp
  have n: "999999999 < k \<longleftrightarrow> \<not> unat k < 1000000000" for k :: u32
    by (simp add: word_less_nat_alt not_less) arith
  have table: "de_duration (DurTable x k) =
     (if unat k < 1000000000 then Inr (unat x * 1000000000 + unat k) else Inl msg_nanos_range)" for x k
  proof -
    have "unat x * 1000000000 + unat k \<le> duration_max" if "unat k < 1000000000"
      using mult_le_mono1 [OF s [of x], of 1000000000] that by (simp add: duration_max_def)
    moreover have "unat k < 2 ^ 64" using unsigned_less [of k, where ?'a = nat] by simp
    then have "unat (ucast k :: u64) = unat k" by (simp add: unsigned_ucast_eq take_bit_nat_eq_self)
    ultimately show ?thesis
      by (simp add: n duration_checked_add_def from_secs_def from_nanos_def)
  qed
  have bound: "case de_duration d of Inr t \<Rightarrow> t \<le> duration_max | Inl e \<Rightarrow> e = msg_nanos_range"
  proof (cases d)
    case (DurTable x k)
    show ?thesis using mult_le_mono1 [OF s [of x], of 1000000000]
      unfolding DurTable table by (simp add: duration_max_def)
  next
    case (DurMillis x)
    then show ?thesis using mult_le_mono1 [OF s [of x], of 1000000]
      by (simp add: from_millis_def duration_max_def)
  qed
  show ?thesis using table bound by (simp add: from_millis_def)
qed

text \<open>Applying the environment twice is applying it once, and an empty environment changes
  nothing, so \<open>from_env\<close> without variables is the checked default.\<close>

theorem env_overlay_idempotent:
  "(case apply_env_overlay env c of Inr d \<Rightarrow> apply_env_overlay env d = Inr d | Inl e \<Rightarrow> is_config_error e) \<and>
   apply_env_overlay (\<lambda>_. None) c = Inr c \<and>
   from_env parse (\<lambda>_. None) = and_then (validate parse default_config) (\<lambda>_. Inr default_config)"
proof -
  have none: "apply_env_overlay (\<lambda>_. None) x = Inr x" for x
    by (simp add: apply_env_overlay_fields env_text_def env_path_def env_mechanism_def env_credential_def
        env_clears_sasl_def env_bool_def env_duration_def)
  have err: "env_bool env b = Inl e \<Longrightarrow> is_config_error e" "env_duration env n x = Inl e \<Longrightarrow> is_config_error e"
    for b e n x
    by (auto simp: env_bool_def env_duration_def parse_bool_def parse_millis_def Let_def
        split: option.splits if_splits)
  have "case apply_env_overlay env c of Inr d \<Rightarrow> apply_env_overlay env d = Inr d | Inl e \<Rightarrow> is_config_error e"
  proof (cases "apply_env_overlay env c")
    case (Inl e)
    then show ?thesis by (auto simp: apply_env_overlay_fields and_then_Inl_iff dest: err)
  next
    case (Inr d)
    then obtain b dc dop dd where b: "env_bool env (tls c) = Inr b"
      and t: "env_duration env ENV_CONNECT_TIMEOUT_MS (connect_timeout c) = Inr dc"
      "env_duration env ENV_OPERATION_TIMEOUT_MS (operation_timeout c) = Inr dop"
      "env_duration env ENV_DELIVERY_TIMEOUT_MS (delivery_timeout c) = Inr dd"
      unfolding apply_env_overlay_fields and_then_Inr_iff by blast
    from Inr have d: "brokers d = env_text env ENV_BROKERS (brokers c)"
      "client_id d = env_text env ENV_CLIENT_ID (client_id c)"
      "sasl_mechanism d = env_mechanism env (sasl_mechanism c)"
      "sasl_username d = env_credential env ENV_SASL_USERNAME (sasl_username c)"
      "sasl_password d = env_credential env ENV_SASL_PASSWORD (sasl_password c)"
      "tls_ca_file d = env_path env ENV_TLS_CA_FILE (tls_ca_file c)"
      "tls d = b" "connect_timeout d = dc" "operation_timeout d = dop" "delivery_timeout d = dd"
      by (auto simp: apply_env_overlay_fields b t)
    have "apply_env_overlay env d = Inr d"
      unfolding apply_env_overlay_fields
      by (simp add: d env_fields_idem(1-4) env_fields_idem(5) [OF b] t [THEN env_fields_idem(6)])
    then show ?thesis by (simp add: Inr)
  qed
  then show ?thesis by (simp add: none from_env_def)
qed

text \<open>The summary of a TOML error shows the deserializer's message, the byte range and a line
  number; nothing else of the text reaches it.\<close>

theorem toml_summary_hides_source:
  "\<exists>k \<le> count_list source newline. toml_error_summary source err =
     (case te_span err of
        None \<Rightarrow> te_message err
      | Some (a, z) \<Rightarrow> te_message err @ msg_span_a @ show_nat (k + 1) @ msg_span_b @ show_nat a @ ''..'' @
          show_nat z @ msg_offset_count_c)"
proof (cases "te_span err")
  case (Some span)
  obtain a z where span: "span = (a, z)" by (cases span)
  define k where "k = (case str_get_to source a of None \<Rightarrow> 0 | Some h \<Rightarrow> count_list h newline)"
  have "count_list (take a source) newline \<le> count_list source newline"
    by (metis append_take_drop_id count_list_append le_add1)
  then have "k \<le> count_list source newline" by (auto simp: k_def str_get_to_def)
  moreover have "toml_error_summary source err =
      te_message err @ msg_span_a @ show_nat (k + 1) @ msg_span_b @ show_nat a @ ''..'' @ show_nat z @ msg_offset_count_c"
    by (cases "str_get_to source a") (simp_all add: toml_error_summary_def Some span k_def)
  ultimately show ?thesis by (auto simp: Some span)
qed (auto simp: toml_error_summary_def)

end
