(* ===== verification/Pool.thy ===== *)
theory Pool
  imports Lifecycle Config Error_Map
begin

text \<open>
  \<open>src/connection.rs\<close> and \<open>src/connection/\<close>: the connection pool with its counters and lifecycle,
  its construction, the operations that talk to the broker and the topic administration. The
  driver \<open>rskafka\<close> is the record \<open>driver\<close> of what the code calls, with futures as answers; the TLS
  library is the record \<open>tls_api\<close>.

  An operation is one function on the pool. What other tasks do while it runs is an argument: to the
  lifecycle between the atomic accesses of \<open>start_operation\<close>, to the whole pool during the await,
  and when (after the await began) they send the shutdown signal.
\<close>

section \<open>State\<close>

record ('s, 'a, 'c) pool =
  pool_config :: kafka_config
  pool_client :: "'c option"
  published :: u64
  publish_failed :: u64
  publish_timeouts :: u64
  publish_cancelled :: u64
  topics_ensured :: u64
  topics_deleted :: u64
  pool_life :: "('s, 'a) lifecycle"

record pool_stats =
  st_published :: u64
  st_publish_failed :: u64
  st_publish_timeouts :: u64
  st_publish_cancelled :: u64
  st_topics_ensured :: u64
  st_topics_deleted :: u64
  st_closed :: bool

record kafka_health =
  ready :: bool
  detail :: string

datatype unknown_topic_handling = RetryUnknownTopic
datatype compression = NoCompression

text \<open>What is sent for one record.\<close>

record wire_record =
  wire_key :: "u8 list option"
  wire_value :: "u8 list option"
  wire_headers :: "string \<rightharpoonup> u8 list"
  wire_timestamp :: int

record ('c, 'k, 'p) driver =
  drv_list_topics :: "'c \<Rightarrow> (driver_error + string list) future"
  drv_controller :: "'c \<Rightarrow> driver_error + 'k"
  drv_create_topic :: "'k \<Rightarrow> string \<Rightarrow> i32 \<Rightarrow> i16 \<Rightarrow> i32 \<Rightarrow> (driver_error + unit) future"
  drv_delete_topic :: "'k \<Rightarrow> string \<Rightarrow> i32 \<Rightarrow> (driver_error + unit) future"
  drv_partition_client :: "'c \<Rightarrow> string \<Rightarrow> i32 \<Rightarrow> unknown_topic_handling \<Rightarrow> (driver_error + 'p) future"
  drv_produce :: "'p \<Rightarrow> wire_record list \<Rightarrow> compression \<Rightarrow> (driver_error + i64 list) future"

record ('s, 'a, 'c) interference =
  at_check :: "('s, 'a) lifecycle \<Rightarrow> ('s, 'a) lifecycle"
  at_count :: "('s, 'a) lifecycle \<Rightarrow> ('s, 'a) lifecycle"
  at_wait :: "('s, 'a, 'c) pool \<Rightarrow> ('s, 'a, 'c) pool"
  signal :: "instant option"

section \<open>Runtime accessors\<close>

definition pool_is_closed :: "('s, 'a, 'c) pool \<Rightarrow> bool" where
  "pool_is_closed p = is_closed (pool_life p)"

definition pool_ensure_open :: "('s, 'a, 'c) pool \<Rightarrow> unit kafka_result" where
  "pool_ensure_open p = ensure_open (pool_life p)"

definition pool_start_operation ::
  "('s, 'sr, 'a, 'ar) runtime \<Rightarrow> ('s, 'a, 'c) interference \<Rightarrow> ('s, 'a, 'c) pool \<Rightarrow> unit kafka_result \<times> ('s, 'a, 'c) pool"
where
  "pool_start_operation rt i p =
     (let (r, l) = start_operation rt (at_check i) (at_count i) (pool_life p) in (r, p\<lparr>pool_life := l\<rparr>))"

definition pool_drop_guard :: "('s, 'sr, 'a, 'ar) runtime \<Rightarrow> ('s, 'a, 'c) pool \<Rightarrow> ('s, 'a, 'c) pool" where
  "pool_drop_guard rt p = p\<lparr>pool_life := drop_guard rt (pool_life p)\<rparr>"

text \<open>\<open>close\<close> up to its wait.\<close>

definition pool_begin_close :: "('s, 'sr, 'a, 'ar) runtime \<Rightarrow> ('s, 'a, 'c) pool \<Rightarrow> ('s, 'a, 'c) pool" where
  "pool_begin_close rt p = p\<lparr>pool_life := begin_close rt (pool_life p)\<rparr>"

text \<open>When \<open>wait_for_shutdown\<close> on a receiver taken now completes: at once if the flag is set.\<close>

definition shutdown_at ::
  "('s, 'sr, 'a, 'ar) runtime \<Rightarrow> ('s, 'a, 'c) interference \<Rightarrow> ('s, 'a, 'c) pool \<Rightarrow> instant option"
where
  "shutdown_at rt i p = (if wa_borrow (rt_shutdown rt) (shutdown (pool_life p)) then Some 0 else signal i)"

definition record_publish_ok :: "('s, 'a, 'c) pool \<Rightarrow> ('s, 'a, 'c) pool" where
  "record_publish_ok p = p\<lparr>published := published p + 1\<rparr>"

definition record_publish_err :: "('s, 'a, 'c) pool \<Rightarrow> ('s, 'a, 'c) pool" where
  "record_publish_err p = p\<lparr>publish_failed := publish_failed p + 1\<rparr>"

definition record_publish_timeout :: "('s, 'a, 'c) pool \<Rightarrow> ('s, 'a, 'c) pool" where
  "record_publish_timeout p =
     p\<lparr>publish_timeouts := publish_timeouts p + 1, publish_failed := publish_failed p + 1\<rparr>"

definition record_publish_cancelled :: "('s, 'a, 'c) pool \<Rightarrow> ('s, 'a, 'c) pool" where
  "record_publish_cancelled p =
     p\<lparr>publish_cancelled := publish_cancelled p + 1, publish_failed := publish_failed p + 1\<rparr>"

definition record_topic_ensured :: "('s, 'a, 'c) pool \<Rightarrow> ('s, 'a, 'c) pool" where
  "record_topic_ensured p = p\<lparr>topics_ensured := topics_ensured p + 1\<rparr>"

definition record_topic_deleted :: "('s, 'a, 'c) pool \<Rightarrow> ('s, 'a, 'c) pool" where
  "record_topic_deleted p = p\<lparr>topics_deleted := topics_deleted p + 1\<rparr>"

definition pool_compression :: compression where
  "pool_compression = NoCompression"

definition client :: "('s, 'a, 'c) pool \<Rightarrow> 'c kafka_result" where
  "client p = ok_or (Connection msg_unconnected) (pool_client p)"

definition stats :: "('s, 'a, 'c) pool \<Rightarrow> pool_stats" where
  "stats p =
     \<lparr>st_published = published p, st_publish_failed = publish_failed p,
      st_publish_timeouts = publish_timeouts p, st_publish_cancelled = publish_cancelled p,
      st_topics_ensured = topics_ensured p, st_topics_deleted = topics_deleted p,
      st_closed = pool_is_closed p\<rparr>"

text \<open>\<open>Debug\<close>: the configuration's own view, and whether there is a client.\<close>

definition debug_pool :: "('s, 'a, 'c) pool \<Rightarrow> (string \<times> shown) list \<times> bool" where
  "debug_pool p = (debug_config (pool_config p), pool_client p \<noteq> None)"

text \<open>\<open>let _operation = self.start_operation()?;\<close>: the guard lives until the body returns.\<close>

definition with_operation ::
  "('s, 'sr, 'a, 'ar) runtime \<Rightarrow> ('s, 'a, 'c) interference \<Rightarrow>
   (('s, 'a, 'c) pool \<Rightarrow> 'r kafka_result \<times> ('s, 'a, 'c) pool) \<Rightarrow> ('s, 'a, 'c) pool \<Rightarrow> 'r kafka_result \<times> ('s, 'a, 'c) pool"
where
  "with_operation rt i body p =
     (case pool_start_operation rt i p of
        (Inl e, p1) \<Rightarrow> (Inl e, p1)
      | (Inr _, p1) \<Rightarrow> (let (r, p2) = body p1 in (r, pool_drop_guard rt p2)))"

section \<open>Health\<close>

definition health_check ::
  "('s, 'sr, 'a, 'ar) runtime \<Rightarrow> ('c, 'k, 'p) driver \<Rightarrow> ('s, 'a, 'c) interference \<Rightarrow> ('s, 'a, 'c) pool \<Rightarrow>
   kafka_health kafka_result \<times> ('s, 'a, 'c) pool"
where
  "health_check rt drv i p =
     with_operation rt i (\<lambda>p1.
       case client p1 of
         Inl e \<Rightarrow> (Inl e, p1)
       | Inr c \<Rightarrow>
           (let p2 = at_wait i p1 in
            case snd (race (shutdown_at rt i p1) (operation_timeout (pool_config p1)) (drv_list_topics drv c)) of
              Cancelled \<Rightarrow> (Inl (Closed msg_list_topics_cancelled), p2)
            | Expired \<Rightarrow> (Inl (Timeout msg_list_topics_timeout), p2)
            | Answered (Inl err) \<Rightarrow> (Inl (map_kafka_error ''kafkax list_topics'' err), p2)
            | Answered (Inr topics) \<Rightarrow>
                (Inr \<lparr>ready = True, detail = ''topics='' @ show_nat (length topics)\<rparr>, p2))) p"

definition ping ::
  "('s, 'sr, 'a, 'ar) runtime \<Rightarrow> ('c, 'k, 'p) driver \<Rightarrow> ('s, 'a, 'c) interference \<Rightarrow> ('s, 'a, 'c) pool \<Rightarrow>
   unit kafka_result \<times> ('s, 'a, 'c) pool"
where
  "ping rt drv i p =
     (let (r, p') = health_check rt drv i p in (case r of Inl e \<Rightarrow> Inl e | Inr _ \<Rightarrow> Inr (), p'))"

definition health ::
  "('s, 'sr, 'a, 'ar) runtime \<Rightarrow> ('c, 'k, 'p) driver \<Rightarrow> ('s, 'a, 'c) interference \<Rightarrow> ('s, 'a, 'c) pool \<Rightarrow>
   kafka_health kafka_result \<times> ('s, 'a, 'c) pool"
where
  "health rt drv i p =
     (case health_check rt drv i p of
        (Inr h, p') \<Rightarrow> (Inr h, p')
      | (Inl e, p') \<Rightarrow>
          (if is_closed_error e then Inl e
           else Inr \<lparr>ready = False, detail = error_kind_name e @ '': '' @ display_error e\<rparr>, p'))"

section \<open>Topics\<close>

definition validate_topic_request :: "string \<Rightarrow> i32 \<Rightarrow> i16 \<Rightarrow> unit kafka_result" where
  "validate_topic_request topic partitions replication =
     (if trim topic = [] then Inl (Config msg_topic_empty)
      else if sint partitions \<le> 0 then Inl (Config msg_partitions_positive)
      else if sint replication \<le> 0 then Inl (Config msg_replication_positive)
      else Inr ())"

definition is_topic_already_exists_error :: "string \<Rightarrow> bool" where
  "is_topic_already_exists_error message =
     contains_any (to_ascii_lowercase message) [''exist'', ''already'', ''topic_already'']"

definition is_topic_missing_error :: "string \<Rightarrow> bool" where
  "is_topic_missing_error message =
     contains_any (to_ascii_lowercase message)
       [''unknown_topic'', ''unknown topic'', ''does not exist'', ''not_exist'', ''unknowntopic'']"

definition ensure_topic ::
  "('s, 'sr, 'a, 'ar) runtime \<Rightarrow> ('c, 'k, 'p) driver \<Rightarrow> ('s, 'a, 'c) interference \<Rightarrow>
   string \<Rightarrow> i32 \<Rightarrow> i16 \<Rightarrow> ('s, 'a, 'c) pool \<Rightarrow> unit kafka_result \<times> ('s, 'a, 'c) pool"
where
  "ensure_topic rt drv i topic partitions replication p =
     (case validate_topic_request topic partitions replication of
        Inl e \<Rightarrow> (Inl e, p)
      | Inr _ \<Rightarrow>
          with_operation rt i (\<lambda>p1.
            case client p1 of
              Inl e \<Rightarrow> (Inl e, p1)
            | Inr c \<Rightarrow>
                (case drv_controller drv c of
                   Inl err \<Rightarrow> (Inl (map_kafka_error ''kafkax controller'' err), p1)
                 | Inr k \<Rightarrow>
                     (let p2 = at_wait i p1 in
                      case snd (race (shutdown_at rt i p1) (operation_timeout (pool_config p1))
                                  (drv_create_topic drv k topic partitions replication 5000)) of
                        Cancelled \<Rightarrow> (Inl (Closed msg_create_topic_cancelled), p2)
                      | Expired \<Rightarrow> (Inl (Timeout msg_create_topic_timeout), p2)
                      | Answered (Inr _) \<Rightarrow> (Inr (), record_topic_ensured p2)
                      | Answered (Inl err) \<Rightarrow>
                          if is_topic_already_exists_error (driver_text err) then (Inr (), record_topic_ensured p2)
                          else (Inl (map_kafka_error ''kafkax create_topic'' err), p2)))) p)"

definition delete_topic ::
  "('s, 'sr, 'a, 'ar) runtime \<Rightarrow> ('c, 'k, 'p) driver \<Rightarrow> ('s, 'a, 'c) interference \<Rightarrow>
   string \<Rightarrow> ('s, 'a, 'c) pool \<Rightarrow> unit kafka_result \<times> ('s, 'a, 'c) pool"
where
  "delete_topic rt drv i topic p =
     (if trim topic = [] then (Inl (Config msg_topic_empty), p)
      else
        with_operation rt i (\<lambda>p1.
          case client p1 of
            Inl e \<Rightarrow> (Inl e, p1)
          | Inr c \<Rightarrow>
              (case drv_controller drv c of
                 Inl err \<Rightarrow> (Inl (map_kafka_error ''kafkax controller'' err), p1)
               | Inr k \<Rightarrow>
                   (let p2 = at_wait i p1 in
                    case snd (race (shutdown_at rt i p1) (operation_timeout (pool_config p1))
                                (drv_delete_topic drv k topic 5000)) of
                      Cancelled \<Rightarrow> (Inl (Closed msg_delete_topic_cancelled), p2)
                    | Expired \<Rightarrow> (Inl (Timeout msg_delete_topic_timeout), p2)
                    | Answered (Inr _) \<Rightarrow> (Inr (), record_topic_deleted p2)
                    | Answered (Inl err) \<Rightarrow>
                        if is_topic_missing_error (driver_text err) then (Inr (), record_topic_deleted p2)
                        else (Inl (map_kafka_error ''kafkax delete_topic'' err), p2)))) p)"

section \<open>Partition clients\<close>

definition partition_client ::
  "('s, 'sr, 'a, 'ar) runtime \<Rightarrow> ('c, 'k, 'p) driver \<Rightarrow> ('s, 'a, 'c) interference \<Rightarrow>
   string \<Rightarrow> i32 \<Rightarrow> ('s, 'a, 'c) pool \<Rightarrow> 'p kafka_result \<times> ('s, 'a, 'c) pool"
where
  "partition_client rt drv i topic part p =
     (if trim topic = [] then (Inl (Config msg_topic_empty), p)
      else if sint part < 0 then (Inl (Config msg_partition_negative), p)
      else
        with_operation rt i (\<lambda>p1.
          case client p1 of
            Inl e \<Rightarrow> (Inl e, p1)
          | Inr c \<Rightarrow>
              (let p2 = at_wait i p1 in
               case snd (race (shutdown_at rt i p1) (operation_timeout (pool_config p1))
                           (drv_partition_client drv c topic part RetryUnknownTopic)) of
                 Cancelled \<Rightarrow> (Inl (Closed msg_partition_client_cancelled), p2)
               | Expired \<Rightarrow> (Inl (Timeout msg_partition_client_timeout), p2)
               | Answered (Inl err) \<Rightarrow> (Inl (map_kafka_error ''kafkax partition_client'' err), p2)
               | Answered (Inr pc) \<Rightarrow> (Inr pc, p2))) p)"

section \<open>Facts\<close>

text \<open>The counters, and the interference that leaves counters and guards alone.\<close>

definition counters :: "('s, 'a, 'c) pool \<Rightarrow> u64 list" where
  "counters p =
     [published p, publish_failed p, publish_timeouts p, publish_cancelled p, topics_ensured p, topics_deleted p]"

definition quiet :: "('s, 'a, 'c) interference \<Rightarrow> bool" where
  "quiet i =
     ((\<forall>l. active (at_check i l) = active l) \<and> (\<forall>l. active (at_count i l) = active l) \<and>
      (\<forall>p. active (pool_life (at_wait i p)) = active (pool_life p) \<and> counters (at_wait i p) = counters p))"

lemma quietD:
  assumes "quiet i"
  shows "active (at_check i l) = active l" "active (at_count i l) = active l"
    "active (pool_life (at_wait i p)) = active (pool_life p)" "counters (at_wait i p) = counters p"
  using assms by (simp_all add: quiet_def)

lemma counters_simps [simp]:
  "counters (p\<lparr>pool_life := l\<rparr>) = counters p"
  "counters (pool_drop_guard rt p) = counters p"
  by (simp_all add: counters_def pool_drop_guard_def)

lemma record_life [simp]:
  "pool_life (record_publish_ok p) = pool_life p" "pool_life (record_publish_err p) = pool_life p"
  "pool_life (record_publish_timeout p) = pool_life p" "pool_life (record_publish_cancelled p) = pool_life p"
  "pool_life (record_topic_ensured p) = pool_life p" "pool_life (record_topic_deleted p) = pool_life p"
  by (simp_all add: record_publish_ok_def record_publish_err_def record_publish_timeout_def
      record_publish_cancelled_def record_topic_ensured_def record_topic_deleted_def)

lemma pool_start_operation_active:
  assumes "quiet i" and "pool_start_operation rt i p = (r, p1)"
  shows "active (pool_life p1) = active (pool_life p) + (if is_ok r then 1 else 0)" "counters p1 = counters p"
proof -
  obtain l where l: "start_operation rt (at_check i) (at_count i) (pool_life p) = (r, l)" "p1 = p\<lparr>pool_life := l\<rparr>"
    using assms(2) by (auto simp: pool_start_operation_def split: prod.splits)
  then show "active (pool_life p1) = active (pool_life p) + (if is_ok r then 1 else 0)" "counters p1 = counters p"
    by (auto simp: start_operation_def ensure_open_def life_defs drop_guard_def Let_def quietD [OF assms(1)]
        split: if_splits)
qed

lemma start_operation_closed:
  "pool_is_closed p \<Longrightarrow> pool_start_operation rt i p = (Inl (Closed msg_pool_closed), p)"
  by (simp add: pool_start_operation_def pool_is_closed_def start_operation_def ensure_open_def)

lemma pool_start_operation_Inl:
  "pool_start_operation rt i p = (Inl e, p1) \<Longrightarrow> e = Closed msg_pool_closed \<or> e = Closed msg_pool_closing"
  by (auto simp: pool_start_operation_def start_operation_def ensure_open_def Let_def split: prod.splits if_splits)

text \<open>The frame of an operation: what the body does to guards and counters is what the whole does.\<close>

lemma with_operation_active:
  assumes "quiet i" and "\<And>p1. active (pool_life (snd (body p1))) = active (pool_life p1)"
  shows "active (pool_life (snd (with_operation rt i body p))) = active (pool_life p)"
proof (cases "pool_start_operation rt i p")
  case (Pair r p1)
  show ?thesis
    using pool_start_operation_active(1) [OF assms(1) Pair] assms(2) [of p1]
    by (cases r; cases "body p1") (simp_all add: with_operation_def Pair pool_drop_guard_def drop_guard_def life_defs)
qed

lemma with_operation_counters:
  assumes "quiet i"
    and "\<And>p1. counters p1 = counters p \<Longrightarrow> P (fst (body p1)) (counters (snd (body p1)))"
    and "\<And>e. e = Closed msg_pool_closed \<or> e = Closed msg_pool_closing \<Longrightarrow> P (Inl e) (counters p)"
  shows "P (fst (with_operation rt i body p)) (counters (snd (with_operation rt i body p)))"
proof (cases "pool_start_operation rt i p")
  case (Pair r p1)
  show ?thesis
    using pool_start_operation_active(2) [OF assms(1) Pair] assms(2) [of p1] assms(3)
      pool_start_operation_Inl [of rt i p _ p1]
    by (cases r; cases "body p1") (auto simp: with_operation_def Pair)
qed

lemma with_operation_closed:
  "pool_is_closed p \<Longrightarrow> with_operation rt i body p = (Inl (Closed msg_pool_closed), p)"
  by (simp add: with_operation_def start_operation_closed)

text \<open>Every operation leaves the number of operations in flight as it found it, on every path.\<close>

lemma pool_operations_active:
  assumes "quiet i"
  shows "active (pool_life (snd (health rt drv i p))) = active (pool_life p)"
    and "active (pool_life (snd (ping rt drv i p))) = active (pool_life p)"
    and "active (pool_life (snd (ensure_topic rt drv i topic n r p))) = active (pool_life p)"
    and "active (pool_life (snd (delete_topic rt drv i topic p))) = active (pool_life p)"
    and "active (pool_life (snd (partition_client rt drv i topic q p))) = active (pool_life p)"
proof -
  note release = with_operation_active [OF assms]
  have check: "active (pool_life (snd (health_check rt drv i p))) = active (pool_life p)"
    unfolding health_check_def
    by (rule release) (auto simp: Let_def quietD [OF assms] split: sum.split outcome.split)
  then show "active (pool_life (snd (health rt drv i p))) = active (pool_life p)"
    "active (pool_life (snd (ping rt drv i p))) = active (pool_life p)"
    by (cases "health_check rt drv i p"; simp add: health_def ping_def split: sum.split)+
  show "active (pool_life (snd (ensure_topic rt drv i topic n r p))) = active (pool_life p)"
    unfolding ensure_topic_def
    by (cases "validate_topic_request topic n r")
      (simp_all, rule release, auto simp: Let_def quietD [OF assms] split: sum.split outcome.split)
  show "active (pool_life (snd (delete_topic rt drv i topic p))) = active (pool_life p)"
    unfolding delete_topic_def
    by (cases "trim topic = []")
      (simp_all, rule release, auto simp: Let_def quietD [OF assms] split: sum.split outcome.split)
  show "active (pool_life (snd (partition_client rt drv i topic q p))) = active (pool_life p)"
    unfolding partition_client_def
    by (cases "trim topic = []"; cases "sint q < 0")
      (simp_all, rule release, auto simp: Let_def quietD [OF assms] split: sum.split outcome.split)
qed

text \<open>A topic counter counts the calls that returned \<open>Ok\<close>.\<close>

lemma topic_counters:
  assumes "quiet i"
  shows "counters (snd (ensure_topic rt drv i topic n r p)) =
      (if is_ok (fst (ensure_topic rt drv i topic n r p)) then (counters p)[4 := topics_ensured p + 1] else counters p) \<and>
    counters (snd (delete_topic rt drv i topic p)) =
      (if is_ok (fst (delete_topic rt drv i topic p)) then (counters p)[5 := topics_deleted p + 1] else counters p)"
proof -
  have bump: "counters (record_topic_ensured p2) = (counters p)[4 := topics_ensured p + 1]"
    "counters (record_topic_deleted p2) = (counters p)[5 := topics_deleted p + 1]"
    if "counters p2 = counters p" for p2
    using that by (auto simp: counters_def record_topic_ensured_def record_topic_deleted_def)
  note frame = with_operation_counters [OF assms]
  have "counters (snd (ensure_topic rt drv i topic n r p)) =
      (if is_ok (fst (ensure_topic rt drv i topic n r p)) then (counters p)[4 := topics_ensured p + 1] else counters p)"
  proof (cases "validate_topic_request topic n r")
    case (Inr u)
    show ?thesis
      unfolding ensure_topic_def Inr sum.case
      by (rule frame [where P = "\<lambda>x c. c = (if is_ok x then (counters p)[4 := topics_ensured p + 1] else counters p)"])
        (auto simp: Let_def quietD [OF assms] bump split: sum.split outcome.split)
  qed (simp add: ensure_topic_def)
  moreover have "counters (snd (delete_topic rt drv i topic p)) =
      (if is_ok (fst (delete_topic rt drv i topic p)) then (counters p)[5 := topics_deleted p + 1] else counters p)"
  proof (cases "trim topic = []")
    case False
    show ?thesis
      unfolding delete_topic_def if_not_P [OF False]
      by (rule frame [where P = "\<lambda>x c. c = (if is_ok x then (counters p)[5 := topics_deleted p + 1] else counters p)"])
        (auto simp: Let_def quietD [OF assms] bump split: sum.split outcome.split)
  qed (simp add: delete_topic_def)
  ultimately show ?thesis ..
qed

lemma partition_client_counters:
  "quiet i \<Longrightarrow> counters (snd (partition_client rt drv i topic q p)) = counters p"
proof (cases "trim topic = [] \<or> sint q < 0")
  case False
  assume quiet: "quiet i"
  show ?thesis
    unfolding partition_client_def
    using False
    by (auto intro!: with_operation_counters [OF quiet, where P = "\<lambda>_ c. c = counters p"]
        simp: Let_def quietD [OF quiet] split: sum.split outcome.split)
qed (auto simp: partition_client_def)

section \<open>Properties\<close>

text \<open>A pool and a broker for concrete runs: the broker answers after 3 units of time.\<close>

definition sample_pool :: "(bool \<times> nat, u64 \<times> nat, unit) pool" where
  "sample_pool =
     \<lparr>pool_config = default_config, pool_client = Some (), published = 0, publish_failed = 0,
      publish_timeouts = 0, publish_cancelled = 0, topics_ensured = 0, topics_deleted = 0,
      pool_life = lifecycle_new sample_rt\<rparr>"

definition sample_driver :: "i64 list \<Rightarrow> (unit, unit, unit) driver" where
  "sample_driver offs =
     \<lparr>drv_list_topics = (\<lambda>_. Some (3, Inr [''t''])), drv_controller = (\<lambda>_. Inr ()),
      drv_create_topic = (\<lambda>_ _ _ _ _. Some (3, Inr ())), drv_delete_topic = (\<lambda>_ _ _. Some (3, Inr ())),
      drv_partition_client = (\<lambda>_ _ _ _. Some (3, Inr ())), drv_produce = (\<lambda>_ _ _. Some (3, Inr offs))\<rparr>"

definition alone :: "('s, 'a, 'c) interference" where
  "alone = \<lparr>at_check = (\<lambda>l. l), at_count = (\<lambda>l. l), at_wait = (\<lambda>p. p), signal = None\<rparr>"

lemma alone_quiet: "quiet alone"
  by (simp add: quiet_def alone_def)

text \<open>\<open>health\<close> never fails for the broker's sake: its only error is a closed pool, and otherwise it
  reports ready exactly when the strict check succeeds, with the failure's own label in the text.\<close>

theorem health_reports_every_failure:
  "case health_check rt drv i p of
     (Inr h, p') \<Rightarrow> health rt drv i p = (Inr h, p') \<and> ready h
   | (Inl e, p') \<Rightarrow>
       if is_closed_error e then health rt drv i p = (Inl e, p')
       else (case health rt drv i p of
               (Inr h, q) \<Rightarrow> q = p' \<and> \<not> ready h \<and> starts_with (detail h) (error_kind_name e @ '': '')
             | (Inl _, _) \<Rightarrow> False)"
proof (cases "health_check rt drv i p")
  case (Pair r p')
  have "ready h" if "r = Inr h" for h
    using Pair that
    by (auto simp: health_check_def with_operation_def Let_def split: prod.splits sum.splits outcome.splits)
  then show ?thesis by (auto simp: health_def Pair starts_with_iff split: sum.split)
qed

text \<open>Any driver error whose text contains \<open>exist\<close> counts as success in \<open>ensure_topic\<close>: also an error
  that says that something does not exist, for which the topic has not been created.\<close>

theorem ensure_topic_accepts_missing:
  "ensure_topic sample_rt
     ((sample_driver [])\<lparr>drv_create_topic := (\<lambda>_ _ _ _ _. Some (3, Inl
        \<lparr>downcast_rskafka = None, driver_text = ''broker 7 does not exist''\<rparr>))\<rparr>)
     alone ''t'' 1 1 sample_pool =
   (Inr (), sample_pool\<lparr>topics_ensured := 1, pool_life := notify_activity sample_rt (pool_life sample_pool)\<rparr>)"
proof -
  have t: "trim ''t'' = ''t''" by (rule trim_all_graphic) (simp add: graphic_def)
  have e: "is_topic_already_exists_error ''broker 7 does not exist''" by code_simp
  show ?thesis
    by (simp add: ensure_topic_def validate_topic_request_def t with_operation_def pool_start_operation_def
        start_operation_def ensure_open_def life_defs alone_def client_def sample_pool_def sample_driver_def
        lifecycle_new_def sample_rt_def versioned_watch_def shutdown_at_def race_def timeout_def e
        record_topic_ensured_def pool_drop_guard_def drop_guard_def default_config_def from_secs_def)
qed

end
