(* ===== verification/Connect.thy ===== *)
theory Connect
  imports Pool
begin

text \<open>
  \<open>src/connection/connect.rs\<close>: construction of a pool, with and without a connection, and the TLS
  client configuration. \<open>rustls\<close>, the PEM reader, the files they read and \<open>rskafka\<close>'s
  \<open>ClientBuilder\<close> are arguments. A connection attempt is a future of its result.
\<close>

section \<open>TLS configuration\<close>

text \<open>
  \<open>tls_install\<close> is \<open>None\<close> when \<open>install_default\<close> succeeds, else the \<open>Debug\<close> text of its error;
  \<open>tls_metadata\<close> answers whether the path is a regular file and its length.
\<close>

record ('f, 'cert, 'roots) tls_api =
  tls_install :: "string option"
  tls_has_provider :: bool
  tls_public_roots :: 'roots
  tls_metadata :: "string \<Rightarrow> string + (bool \<times> u64)"
  tls_open :: "string \<Rightarrow> string + 'f"
  tls_certs :: "'f \<Rightarrow> (string + 'cert) list"
  tls_add :: "'roots \<Rightarrow> 'cert \<Rightarrow> string + 'roots"

fun collect_results :: "('e + 'a) list \<Rightarrow> 'e + 'a list" where
  "collect_results [] = Inr []"
| "collect_results (Inl e # rs) = Inl e"
| "collect_results (Inr x # rs) = (case collect_results rs of Inl e \<Rightarrow> Inl e | Inr xs \<Rightarrow> Inr (x # xs))"

fun add_certificates ::
  "('roots \<Rightarrow> 'cert \<Rightarrow> string + 'roots) \<Rightarrow> 'roots \<Rightarrow> 'cert list \<Rightarrow> 'roots kafka_result"
where
  "add_certificates add roots [] = Inr roots"
| "add_certificates add roots (c # cs) =
     (case add roots c of
        Inl err \<Rightarrow> Inl (Config (msg_ca_cert @ err))
      | Inr roots' \<Rightarrow> add_certificates add roots' cs)"

definition load_ca_file :: "('f, 'cert, 'roots) tls_api \<Rightarrow> 'roots \<Rightarrow> string \<Rightarrow> 'roots kafka_result" where
  "load_ca_file api roots path =
     (case tls_metadata api path of
        Inl err \<Rightarrow> Inl (Config (msg_ca_stat @ err))
      | Inr (is_file, len) \<Rightarrow>
          if \<not> is_file then Inl (Config msg_ca_not_file)
          else if 1024 * 1024 < len then Inl (Config msg_ca_too_large)
          else
            (case tls_open api path of
               Inl err \<Rightarrow> Inl (Config (msg_ca_open @ err))
             | Inr f \<Rightarrow>
                 (case collect_results (tls_certs api f) of
                    Inl err \<Rightarrow> Inl (Config (msg_ca_pem @ err))
                  | Inr certificates \<Rightarrow>
                      if certificates = [] then Inl (Config msg_ca_empty)
                      else add_certificates (tls_add api) roots certificates)))"

text \<open>The closure handed to \<open>spawn_blocking\<close>.\<close>

definition tls_config_task :: "('f, 'cert, 'roots) tls_api \<Rightarrow> string option \<Rightarrow> 'roots kafka_result" where
  "tls_config_task api ca_file =
     (case tls_install api of
        Some installed \<Rightarrow>
          if \<not> tls_has_provider api then Inl (Config (msg_crypto_provider @ installed))
          else (case ca_file of None \<Rightarrow> Inr (tls_public_roots api) | Some path \<Rightarrow> load_ca_file api (tls_public_roots api) path)
      | None \<Rightarrow>
          (case ca_file of None \<Rightarrow> Inr (tls_public_roots api) | Some path \<Rightarrow> load_ca_file api (tls_public_roots api) path))"

text \<open>\<open>blocking\<close>: when the blocking task is finished, and the text of its join error if it died.\<close>

definition build_tls_config ::
  "('f, 'cert, 'roots) tls_api \<Rightarrow> string option future \<Rightarrow> string option \<Rightarrow> 'roots kafka_result future"
where
  "build_tls_config api blocking ca_file =
     (case blocking of
        None \<Rightarrow> None
      | Some (t, Some err) \<Rightarrow> Some (t, Inl (Connection (msg_tls_task @ err)))
      | Some (t, None) \<Rightarrow> Some (t, tls_config_task api ca_file))"

section \<open>Construction\<close>

definition fresh_pool ::
  "('s, 'sr, 'a, 'ar) runtime \<Rightarrow> kafka_config \<Rightarrow> 'c option \<Rightarrow> ('s, 'a, 'c) pool"
where
  "fresh_pool rt c cl =
     \<lparr>pool_config = c, pool_client = cl, published = 0, publish_failed = 0, publish_timeouts = 0,
      publish_cancelled = 0, topics_ensured = 0, topics_deleted = 0, pool_life = lifecycle_new rt\<rparr>"

definition pool_new ::
  "url_parser \<Rightarrow> ('s, 'sr, 'a, 'ar) runtime \<Rightarrow> kafka_config \<Rightarrow> ('s, 'a, 'c) pool kafka_result"
where
  "pool_new parse rt c = and_then (validate parse c) (\<lambda>_. Inr (fresh_pool rt c None))"

text \<open>What the client builder is given before \<open>build()\<close>.\<close>

record 'roots client_request =
  cr_brokers :: "string list"
  cr_client_id :: string
  cr_tls :: "'roots option"
  cr_sasl :: "(string \<times> string) option"

definition build_client ::
  "('roots client_request \<Rightarrow> (driver_error + 'c) future) \<Rightarrow> ('s, 'sr, 'a, 'ar) runtime \<Rightarrow> kafka_config \<Rightarrow>
   'roots option \<Rightarrow> ('s, 'a, 'c) pool kafka_result future"
where
  "build_client build_driver rt c roots =
     (case sasl_credentials c of
        None \<Rightarrow>
          if sasl_mechanism c \<noteq> None then Some (0, Inl (Config msg_sasl_incomplete))
          else future_bind
                 (build_driver \<lparr>cr_brokers = broker_list (brokers c), cr_client_id = client_id c,
                                cr_tls = roots, cr_sasl = None\<rparr>)
                 (\<lambda>r. Some (0, case r of Inl err \<Rightarrow> Inl (map_kafka_error ''kafkax connect'' err)
                                       | Inr cl \<Rightarrow> Inr (fresh_pool rt c (Some cl))))
      | Some (username, password) \<Rightarrow>
          future_bind
            (build_driver \<lparr>cr_brokers = broker_list (brokers c), cr_client_id = client_id c,
                           cr_tls = roots, cr_sasl = Some (username, password)\<rparr>)
            (\<lambda>r. Some (0, case r of Inl err \<Rightarrow> Inl (map_kafka_error ''kafkax connect'' err)
                                  | Inr cl \<Rightarrow> Inr (fresh_pool rt c (Some cl)))))"

definition connect_inner ::
  "('f, 'cert, 'roots) tls_api \<Rightarrow> string option future \<Rightarrow> ('roots client_request \<Rightarrow> (driver_error + 'c) future) \<Rightarrow>
   ('s, 'sr, 'a, 'ar) runtime \<Rightarrow> kafka_config \<Rightarrow> ('s, 'a, 'c) pool kafka_result future"
where
  "connect_inner api blocking build_driver rt c =
     (if tls c
      then future_bind (build_tls_config api blocking (tls_ca_file c))
             (\<lambda>r. case r of Inl e \<Rightarrow> Some (0, Inl e) | Inr roots \<Rightarrow> build_client build_driver rt c (Some roots))
      else build_client build_driver rt c None)"

definition connect ::
  "url_parser \<Rightarrow> ('f, 'cert, 'roots) tls_api \<Rightarrow> string option future \<Rightarrow>
   ('roots client_request \<Rightarrow> (driver_error + 'c) future) \<Rightarrow> ('s, 'sr, 'a, 'ar) runtime \<Rightarrow> kafka_config \<Rightarrow>
   instant \<times> ('s, 'a, 'c) pool kafka_result"
where
  "connect parse api blocking build_driver rt c =
     (case validate parse c of
        Inl e \<Rightarrow> (0, Inl e)
      | Inr _ \<Rightarrow>
          (case timeout (connect_timeout c) (connect_inner api blocking build_driver rt c) of
             (t, Elapsed) \<Rightarrow> (t, Inl (Timeout msg_connect_timeout))
           | (t, Completed r) \<Rightarrow> (t, r)))"

definition connect_from_env ::
  "url_parser \<Rightarrow> env \<Rightarrow> ('f, 'cert, 'roots) tls_api \<Rightarrow> string option future \<Rightarrow>
   ('roots client_request \<Rightarrow> (driver_error + 'c) future) \<Rightarrow> ('s, 'sr, 'a, 'ar) runtime \<Rightarrow>
   instant \<times> ('s, 'a, 'c) pool kafka_result"
where
  "connect_from_env parse env api blocking build_driver rt =
     (case from_env parse env of
        Inl e \<Rightarrow> (0, Inl e)
      | Inr c \<Rightarrow> connect parse api blocking build_driver rt c)"

section \<open>Facts\<close>

lemma collect_results_Inr: "collect_results rs = Inr xs \<longleftrightarrow> rs = map Inr xs"
proof
  show "collect_results rs = Inr xs \<Longrightarrow> rs = map Inr xs"
    by (induction rs arbitrary: xs rule: collect_results.induct) (auto split: sum.splits)
  have "collect_results (map Inr ys) = Inr ys" for ys :: "'b list" by (induction ys) simp_all
  then show "rs = map Inr xs \<Longrightarrow> collect_results rs = Inr xs" by simp
qed

text \<open>The root stores after each certificate.\<close>

lemma add_certificates_chain:
  "cs \<noteq> [] \<Longrightarrow> add_certificates add r cs = Inr roots \<longleftrightarrow>
     (\<exists>stores. map2 add (r # butlast stores) cs = map Inr stores \<and> length stores = length cs \<and> roots = last stores)"
proof (induction cs arbitrary: r)
  case (Cons c cs)
  show ?case
  proof (cases "cs = []")
    case True
    then show ?thesis by (auto simp: length_Suc_conv intro!: exI [of _ "[roots]"] split: sum.split)
  next
    case False
    have "map2 add (r # butlast (r' # stores)) (c # cs) = map Inr (r' # stores) \<longleftrightarrow>
        add r c = Inr r' \<and> map2 add (r' # butlast stores) cs = map Inr stores" if "length stores = length cs" for r' stores
      using that False by auto
    then have "(\<exists>stores. map2 add (r # butlast stores) (c # cs) = map Inr stores \<and> length stores = length (c # cs) \<and>
        roots = last stores) \<longleftrightarrow>
      (\<exists>r' stores. add r c = Inr r' \<and> map2 add (r' # butlast stores) cs = map Inr stores \<and> length stores = length cs \<and>
         roots = last stores)"
      using False unfolding list.size(4) Suc_length_conv [symmetric] length_Suc_conv by fastforce
    then show ?thesis using Cons.IH [OF False] by (auto split: sum.splits)
  qed
qed simp

lemma tls_config_error: "tls_config_task api ca = Inl e \<Longrightarrow> error_kind_name e = ''config''"
proof -
  have "add_certificates add r cs = Inl e \<Longrightarrow> error_kind_name e = ''config''" for add :: "'r \<Rightarrow> 'c \<Rightarrow> string + 'r" and r cs
    by (induction cs arbitrary: r) (auto simp: error_kind_name_def split: sum.splits)
  then show "tls_config_task api ca = Inl e \<Longrightarrow> error_kind_name e = ''config''"
    by (auto simp: tls_config_task_def load_ca_file_def error_kind_name_def
        split: option.splits sum.splits prod.splits if_splits)
qed

text \<open>What the code asks the driver to connect with.\<close>

definition request_for :: "kafka_config \<Rightarrow> 'roots option \<Rightarrow> 'roots client_request" where
  "request_for c roots =
     \<lparr>cr_brokers = broker_list (brokers c), cr_client_id = client_id c, cr_tls = roots, cr_sasl = sasl_credentials c\<rparr>"

lemma build_client_ok:
  assumes "build_client build_driver rt c roots = Some (t, Inr p)"
  shows "\<exists>u cl. build_driver (request_for c roots) = Some (u, Inr cl) \<and> p = fresh_pool rt c (Some cl)"
  using assms
  by (auto simp: build_client_def future_bind_def request_for_def split: option.splits if_splits sum.splits)

lemma connect_inner_ok:
  assumes "connect_inner api blocking build_driver rt c = Some (t, Inr p)"
  shows "\<exists>roots u cl. (roots = None \<longleftrightarrow> \<not> tls c) \<and>
    (\<forall>r. roots = Some r \<longrightarrow> tls_config_task api (tls_ca_file c) = Inr r) \<and>
    build_driver (request_for c roots) = Some (u, Inr cl) \<and> p = fresh_pool rt c (Some cl)"
proof (cases "tls c")
  case True
  with assms obtain u r where *: "build_tls_config api blocking (tls_ca_file c) = Some (u, Inr r)"
    and "\<exists>v. build_client build_driver rt c (Some r) = Some (v, Inr p)"
    by (auto simp: connect_inner_def future_bind_def split: option.splits sum.splits)
  then obtain w cl where "build_driver (request_for c (Some r)) = Some (w, Inr cl)" "p = fresh_pool rt c (Some cl)"
    using build_client_ok by blast
  moreover have "tls_config_task api (tls_ca_file c) = Inr r"
    using * by (auto simp: build_tls_config_def split: option.splits prod.splits)
  ultimately show ?thesis using True by (intro exI [of _ "Some r"]) auto
next
  case False
  with assms show ?thesis
    by (intro exI [of _ None]) (auto simp: connect_inner_def dest: build_client_ok)
qed

lemma connect_ok:
  assumes "snd (connect parse api blocking build_driver rt c) = Inr p"
  shows "valid_config parse c \<and>
    (\<exists>roots u cl. build_driver (request_for c roots) = Some (u, Inr cl) \<and> p = fresh_pool rt c (Some cl) \<and>
      (case roots of
         None \<Rightarrow> \<not> tls c \<and> list_all (broker_ok parse False) (cr_brokers (request_for c roots))
       | Some r \<Rightarrow> tls c \<and> tls_config_task api (tls_ca_file c) = Inr r))"
proof -
  from assms obtain t where valid: "valid_config parse c"
    and "connect_inner api blocking build_driver rt c = Some (t, Inr p)"
    by (auto simp: connect_def timeout_def simp flip: validate_ok
        split: sum.splits prod.splits timed.splits option.splits if_splits)
  from connect_inner_ok [OF this(2)] obtain roots u cl where *: "roots = None \<longleftrightarrow> \<not> tls c"
    "\<And>r. roots = Some r \<Longrightarrow> tls_config_task api (tls_ca_file c) = Inr r"
    "build_driver (request_for c roots) = Some (u, Inr cl)" "p = fresh_pool rt c (Some cl)" by blast
  moreover have "list_all (broker_ok parse False) (cr_brokers (request_for c roots))" if "\<not> tls c"
    using valid that by (simp add: valid_config_def request_for_def)
  ultimately show ?thesis using valid
    by (intro conjI exI [of _ roots] exI [of _ u] exI [of _ cl]) (auto split: option.splits)
qed

lemma connect_fresh:
  assumes "snd (connect parse api blocking build_driver rt c) = Inr p"
  shows "counters p = [0, 0, 0, 0, 0, 0]" and "pool_life p = lifecycle_new rt"
  using connect_ok [OF assms] by (auto simp: fresh_pool_def counters_def)

section \<open>Properties\<close>

text \<open>C29. \<open>connect\<close> returns by its deadline. A pool it returns has a validated configuration, a client,
  zero counters and an open lifecycle, and the driver was asked for exactly the configured brokers,
  with TLS on exactly when it is configured (the roots the TLS task computed), with the configured
  credentials, and in plain text only for brokers that pass the loopback test.\<close>

theorem connect_establishes:
  "fst (connect parse api blocking build_driver rt c) \<le> connect_timeout c \<and>
   (case snd (connect parse api blocking build_driver rt c) of
      Inr p \<Rightarrow>
        valid_config parse c \<and>
        (\<exists>roots u cl. build_driver (request_for c roots) = Some (u, Inr cl) \<and>
          p = \<lparr>pool_config = c, pool_client = Some cl, published = 0, publish_failed = 0, publish_timeouts = 0,
               publish_cancelled = 0, topics_ensured = 0, topics_deleted = 0,
               pool_life = \<lparr>closed = False, active = 0, shutdown = wa_channel (rt_shutdown rt) False,
                 activity = wa_channel (rt_activity rt) 0\<rparr>\<rparr> \<and>
          (case roots of
             None \<Rightarrow> \<not> tls c \<and> list_all (broker_ok parse False) (cr_brokers (request_for c roots))
           | Some r \<Rightarrow> tls c \<and> tls_config_task api (tls_ca_file c) = Inr r))
    | Inl _ \<Rightarrow> True)"
proof -
  have "fst (connect parse api blocking build_driver rt c) \<le> connect_timeout c"
    using timeout_bound [of "connect_timeout c" "connect_inner api blocking build_driver rt c"]
    by (auto simp: connect_def split: sum.splits prod.splits timed.splits)
  then show ?thesis
    using connect_ok [of parse api blocking build_driver rt c]
    by (auto simp: fresh_pool_def lifecycle_new_def split: sum.split)
qed

text \<open>C30. A custom CA file is trusted only as a whole: the TLS configuration succeeds exactly when a
  crypto provider is installed and, if a file is configured, it is a regular file of at most 1 MiB
  that opens, every PEM block of it decodes to a certificate, there is at least one, and the root store
  accepts each of them in the order of the file, starting from the public roots and each time going on
  with the store that the one before gave; the last of these stores are the roots. When one block does
  not decode or one certificate is refused, or anything else fails, there are no roots, and the error
  is one of configuration.\<close>

theorem tls_config_exact:
  "(tls_config_task api ca = Inr roots \<longleftrightarrow>
     (tls_install api = None \<or> tls_has_provider api) \<and>
     (case ca of
        None \<Rightarrow> roots = tls_public_roots api
      | Some path \<Rightarrow>
          \<exists>len f cs stores. tls_metadata api path = Inr (True, len) \<and> unat len \<le> 2 ^ 20 \<and> tls_open api path = Inr f \<and>
            tls_certs api f = map Inr cs \<and> cs \<noteq> [] \<and>
            map2 (tls_add api) (tls_public_roots api # butlast stores) cs = map Inr stores \<and>
            length stores = length cs \<and> roots = last stores)) \<and>
   (case tls_config_task api ca of Inl e \<Rightarrow> error_kind_name e = ''config'' | Inr _ \<Rightarrow> True)"
proof
  have len: "\<not> 1024 * 1024 < (l :: u64) \<longleftrightarrow> unat l \<le> 2 ^ 20" for l
    by (simp add: word_less_nat_alt not_less)
  have "load_ca_file api r path = Inr roots \<longleftrightarrow>
      (\<exists>len f cs. tls_metadata api path = Inr (True, len) \<and> unat len \<le> 2 ^ 20 \<and> tls_open api path = Inr f \<and>
            tls_certs api f = map Inr cs \<and> cs \<noteq> [] \<and> add_certificates (tls_add api) r cs = Inr roots)" for r path
    unfolding load_ca_file_def len [symmetric] collect_results_Inr [symmetric]
    by (auto split: sum.splits prod.splits)
  then have load: "load_ca_file api r path = Inr roots \<longleftrightarrow>
      (\<exists>len f cs stores. tls_metadata api path = Inr (True, len) \<and> unat len \<le> 2 ^ 20 \<and> tls_open api path = Inr f \<and>
            tls_certs api f = map Inr cs \<and> cs \<noteq> [] \<and>
            map2 (tls_add api) (r # butlast stores) cs = map Inr stores \<and> length stores = length cs \<and>
            roots = last stores)" for r path
    by (simp only:) (metis add_certificates_chain)
  then show "tls_config_task api ca = Inr roots \<longleftrightarrow>
     (tls_install api = None \<or> tls_has_provider api) \<and>
     (case ca of
        None \<Rightarrow> roots = tls_public_roots api
      | Some path \<Rightarrow>
          \<exists>len f cs stores. tls_metadata api path = Inr (True, len) \<and> unat len \<le> 2 ^ 20 \<and> tls_open api path = Inr f \<and>
            tls_certs api f = map Inr cs \<and> cs \<noteq> [] \<and>
            map2 (tls_add api) (tls_public_roots api # butlast stores) cs = map Inr stores \<and>
            length stores = length cs \<and> roots = last stores)"
    by (auto simp: tls_config_task_def load split: option.splits)
  show "case tls_config_task api ca of Inl e \<Rightarrow> error_kind_name e = ''config'' | Inr _ \<Rightarrow> True"
    using tls_config_error [of api ca] by (auto split: sum.split)
qed

end
