(* ===== verification/Producer.thy ===== *)
theory Producer
  imports Pool Message
begin

text \<open>
  \<open>src/producer.rs\<close>: publishing one record with a bounded wait for the broker. The first
  interference is the one of the request for the partition client, the second that of the send.
\<close>

section \<open>The bounded wait\<close>

datatype ('t, 'e) limited_produce = LpCancelled | LpTimedOut | LpReady "'e + 't"

definition limited_produce_await ::
  "instant option \<Rightarrow> instant \<Rightarrow> ('e + 't) future \<Rightarrow> instant \<times> ('t, 'e) limited_produce"
where
  "limited_produce_await sd deadline produce =
     (let (t, r) = race sd deadline produce in
      (t, case r of Cancelled \<Rightarrow> LpCancelled | Expired \<Rightarrow> LpTimedOut | Answered x \<Rightarrow> LpReady x))"

definition apply_limited_produce_outcome ::
  "('s, 'a, 'c) pool \<Rightarrow> i32 \<Rightarrow> (i64 list, 'e) limited_produce \<Rightarrow> ('e \<Rightarrow> kafka_error) \<Rightarrow>
   delivery kafka_result \<times> ('s, 'a, 'c) pool"
where
  "apply_limited_produce_outcome p part result to_error =
     (case result of
        LpCancelled \<Rightarrow> (Inl (Closed msg_produce_cancelled), record_publish_cancelled p)
      | LpTimedOut \<Rightarrow> (Inl (Timeout msg_produce_timeout), record_publish_timeout p)
      | LpReady (Inr offs) \<Rightarrow>
          (case offs of
             [off] \<Rightarrow> (Inr \<lparr>dl_partition = part, dl_offset = off\<rparr>, record_publish_ok p)
           | _ \<Rightarrow>
               (Inl (Backend (msg_offset_count_a @ show_nat (length offs) @ msg_offset_count_b @ show_i32 part @
                              msg_offset_count_c)),
                record_publish_err p))
      | LpReady (Inl err) \<Rightarrow> (Inl (to_error err), record_publish_err p))"

section \<open>Publishing\<close>

definition record_if_closed ::
  "('s, 'a, 'c) pool \<Rightarrow> kafka_error \<Rightarrow> kafka_error \<times> ('s, 'a, 'c) pool"
where
  "record_if_closed p e = (e, if is_closed_error e then record_publish_cancelled p else p)"

definition validate_publish_topic :: "string \<Rightarrow> unit kafka_result" where
  "validate_publish_topic topic = (if trim topic = [] then Inl (Config msg_topic_empty) else Inr ())"

definition wire_of :: "int \<Rightarrow> publish_record \<Rightarrow> wire_record" where
  "wire_of now r =
     \<lparr>wire_key = pr_key r, wire_value = Some (pr_payload r), wire_headers = pr_headers r, wire_timestamp = now\<rparr>"

text \<open>An early return with an error that may have to be counted.\<close>

definition fail_with :: "('s, 'a, 'c) pool \<Rightarrow> kafka_error \<Rightarrow> 'r kafka_result \<times> ('s, 'a, 'c) pool" where
  "fail_with p e = (let (e', p') = record_if_closed p e in (Inl e', p'))"

definition publish ::
  "('s, 'sr, 'a, 'ar) runtime \<Rightarrow> ('c, 'k, 'p) driver \<Rightarrow> ('s, 'a, 'c) interference \<Rightarrow> ('s, 'a, 'c) interference \<Rightarrow>
   int \<Rightarrow> publish_record \<Rightarrow> ('s, 'a, 'c) pool \<Rightarrow> delivery kafka_result \<times> ('s, 'a, 'c) pool"
where
  "publish rt drv i1 i2 now r p =
     (case pool_ensure_open p of
        Inl e \<Rightarrow> fail_with p e
      | Inr _ \<Rightarrow>
      (case validate_publish_topic (pr_topic r) of
         Inl e \<Rightarrow> (Inl e, p)
       | Inr _ \<Rightarrow>
       if sint (pr_partition r) < 0 then (Inl (Config msg_partition_negative), p)
       else
       (case partition_client rt drv i1 (pr_topic r) (pr_partition r) p of
          (Inl e, p1) \<Rightarrow> fail_with p1 e
        | (Inr pc, p1) \<Rightarrow>
        (case pool_start_operation rt i2 p1 of
           (Inl e, p2) \<Rightarrow> fail_with p2 e
         | (Inr _, p2) \<Rightarrow>
             (let sd = shutdown_at rt i2 p2;
                  result = snd (limited_produce_await sd (delivery_timeout (pool_config p2))
                                  (drv_produce drv pc [wire_of now r] pool_compression));
                  (res, p4) = apply_limited_produce_outcome (at_wait i2 p2) (pr_partition r) result
                                (map_kafka_error ''kafkax produce'')
              in (res, pool_drop_guard rt p4))))))"

definition publish_to_partition ::
  "('s, 'sr, 'a, 'ar) runtime \<Rightarrow> ('c, 'k, 'p) driver \<Rightarrow> ('s, 'a, 'c) interference \<Rightarrow> ('s, 'a, 'c) interference \<Rightarrow>
   int \<Rightarrow> string \<Rightarrow> i32 \<Rightarrow> bytes \<Rightarrow> ('s, 'a, 'c) pool \<Rightarrow> delivery kafka_result \<times> ('s, 'a, 'c) pool"
where
  "publish_to_partition rt drv i1 i2 now topic part payload p =
     publish rt drv i1 i2 now (publish_payload topic part payload) p"

definition publish_with_key ::
  "('s, 'sr, 'a, 'ar) runtime \<Rightarrow> ('c, 'k, 'p) driver \<Rightarrow> ('s, 'a, 'c) interference \<Rightarrow> ('s, 'a, 'c) interference \<Rightarrow>
   int \<Rightarrow> string \<Rightarrow> i32 \<Rightarrow> bytes \<Rightarrow> bytes \<Rightarrow> ('s, 'a, 'c) pool \<Rightarrow> delivery kafka_result \<times> ('s, 'a, 'c) pool"
where
  "publish_with_key rt drv i1 i2 now topic part key payload p =
     publish rt drv i1 i2 now (with_key (publish_payload topic part payload) key) p"

section \<open>Facts\<close>

text \<open>The send after the partition client has been obtained.\<close>

definition send_part ::
  "('s, 'sr, 'a, 'ar) runtime \<Rightarrow> ('c, 'k, 'p) driver \<Rightarrow> ('s, 'a, 'c) interference \<Rightarrow> int \<Rightarrow> publish_record \<Rightarrow> 'p \<Rightarrow>
   ('s, 'a, 'c) pool \<Rightarrow> delivery kafka_result \<times> ('s, 'a, 'c) pool"
where
  "send_part rt drv i now r pc p =
     apply_limited_produce_outcome (at_wait i p) (pr_partition r)
       (snd (limited_produce_await (shutdown_at rt i p) (delivery_timeout (pool_config p))
               (drv_produce drv pc [wire_of now r] pool_compression)))
       (map_kafka_error ''kafkax produce'')"

text \<open>Where a call of \<open>publish\<close> ends.\<close>

lemma publish_cases:
  obtains (closed) e where "pool_ensure_open p = Inl e" "publish rt drv i1 i2 now r p = fail_with p e"
  | (invalid) e where "is_config_error e" "publish rt drv i1 i2 now r p = (Inl e, p)"
      "trim (pr_topic r) = [] \<or> sint (pr_partition r) < 0"
  | (no_client) e p1 where "partition_client rt drv i1 (pr_topic r) (pr_partition r) p = (Inl e, p1)"
      "publish rt drv i1 i2 now r p = fail_with p1 e"
  | (closing) pc p1 e p2 where "partition_client rt drv i1 (pr_topic r) (pr_partition r) p = (Inr pc, p1)"
      "pool_start_operation rt i2 p1 = (Inl e, p2)" "publish rt drv i1 i2 now r p = fail_with p2 e"
  | (sent) pc p1 u p2 where "partition_client rt drv i1 (pr_topic r) (pr_partition r) p = (Inr pc, p1)"
      "pool_start_operation rt i2 p1 = (Inr u, p2)"
      "publish rt drv i1 i2 now r p =
         (fst (send_part rt drv i2 now r pc p2), pool_drop_guard rt (snd (send_part rt drv i2 now r pc p2)))"
      "is_ok (pool_ensure_open p)" "trim (pr_topic r) \<noteq> []" "0 \<le> sint (pr_partition r)"
proof (cases "pool_ensure_open p")
  case Inl
  with closed show ?thesis by (simp add: publish_def)
next
  case opened: (Inr v)
  show ?thesis
  proof (cases "trim (pr_topic r) = [] \<or> sint (pr_partition r) < 0")
    case True
    then show ?thesis
      by (intro invalid [of "if trim (pr_topic r) = [] then Config msg_topic_empty else Config msg_partition_negative"])
        (auto simp: publish_def opened validate_publish_topic_def)
  next
    case False
    then have *: "publish rt drv i1 i2 now r p =
       (case partition_client rt drv i1 (pr_topic r) (pr_partition r) p of
          (Inl e, p1) \<Rightarrow> fail_with p1 e
        | (Inr pc, p1) \<Rightarrow>
        (case pool_start_operation rt i2 p1 of
           (Inl e, p2) \<Rightarrow> fail_with p2 e
         | (Inr _, p2) \<Rightarrow>
             (fst (send_part rt drv i2 now r pc p2), pool_drop_guard rt (snd (send_part rt drv i2 now r pc p2)))))"
      by (simp add: publish_def opened validate_publish_topic_def send_part_def Let_def split: prod.split sum.split)
    obtain x p1 where pc: "partition_client rt drv i1 (pr_topic r) (pr_partition r) p = (x, p1)" by fastforce
    obtain y p2 where op: "pool_start_operation rt i2 p1 = (y, p2)" by fastforce
    show ?thesis
    proof (cases x)
      case Inl
      with no_client [of _ p1] pc * show ?thesis by simp
    next
      case (Inr c)
      then show ?thesis
        using closing [of c p1 _ p2] sent [of c p1 _ p2] pc op * opened False by (cases y) simp_all
    qed
  qed
qed

lemma send_part_cases:
  obtains (cancelled) "send_part rt drv i now r pc p = (Inl (Closed msg_produce_cancelled), record_publish_cancelled (at_wait i p))"
  | (timed_out) "send_part rt drv i now r pc p = (Inl (Timeout msg_produce_timeout), record_publish_timeout (at_wait i p))"
  | (refused) e where "send_part rt drv i now r pc p = (Inl e, record_publish_err (at_wait i p))"
  | (acknowledged) t off where
      "race (shutdown_at rt i p) (delivery_timeout (pool_config p)) (drv_produce drv pc [wire_of now r] pool_compression) =
         (t, Answered (Inr [off]))"
      "send_part rt drv i now r pc p =
         (Inr \<lparr>dl_partition = pr_partition r, dl_offset = off\<rparr>, record_publish_ok (at_wait i p))"
proof (cases "race (shutdown_at rt i p) (delivery_timeout (pool_config p)) (drv_produce drv pc [wire_of now r] pool_compression)")
  case (Pair t x)
  note send = send_part_def [of rt drv i now r pc p]
  show ?thesis
  proof (cases x)
    case Cancelled
    then show ?thesis using cancelled by (simp add: send Pair limited_produce_await_def apply_limited_produce_outcome_def)
  next
    case Expired
    then show ?thesis using timed_out by (simp add: send Pair limited_produce_await_def apply_limited_produce_outcome_def)
  next
    case (Answered y)
    show ?thesis
    proof (cases "\<exists>off. y = Inr [off]")
      case True
      then show ?thesis using acknowledged Pair Answered
        by (auto simp: send limited_produce_await_def apply_limited_produce_outcome_def)
    next
      case False
      have "\<exists>e. send_part rt drv i now r pc p = (Inl e, record_publish_err (at_wait i p))"
      proof (cases y)
        case (Inr offs)
        with False obtain e where "(case offs of [off] \<Rightarrow> False | _ \<Rightarrow> True)" by (cases offs; cases "tl offs") auto
        then show ?thesis
          by (auto simp: send Pair Answered Inr limited_produce_await_def apply_limited_produce_outcome_def
              split: list.splits)
      qed (simp add: send Pair Answered limited_produce_await_def apply_limited_produce_outcome_def)
      with refused show ?thesis by blast
    qed
  qed
qed

lemma fail_with_simps [simp]:
  "fst (fail_with p e) = Inl e" "pool_life (snd (fail_with p e)) = pool_life p"
  by (simp_all add: fail_with_def record_if_closed_def)

text \<open>\<open>publish\<close> releases both of its guards on every path.\<close>

lemma publish_active:
  assumes "quiet i1" and "quiet i2"
  shows "active (pool_life (snd (publish rt drv i1 i2 now r p))) = active (pool_life p)"
proof -
  have client: "active (pool_life p1) = active (pool_life p)"
    if "partition_client rt drv i1 (pr_topic r) (pr_partition r) p = (x, p1)" for x p1
    using pool_operations_active(5) [OF assms(1), of rt drv "pr_topic r" "pr_partition r" p] that by simp
  show ?thesis
  proof (cases rule: publish_cases [of p rt drv i1 i2 now r])
    case (closing pc p1 e p2)
    then show ?thesis
      using client [OF closing(1)] pool_start_operation_active(1) [OF assms(2) closing(2)] by simp
  next
    case (sent pc p1 u p2)
    have "active (pool_life p2) = active (pool_life p) + 1"
      using client [OF sent(1)] pool_start_operation_active(1) [OF assms(2) sent(2)] by simp
    then show ?thesis
      by (cases rule: send_part_cases [of rt drv i2 now r pc p2])
        (simp_all add: sent(3) pool_drop_guard_def drop_guard_def life_defs quietD [OF assms(2)])
  qed (use client in auto)
qed

lemma fail_with_counters:
  "counters (snd (fail_with p e)) =
     (if is_closed_error e then (counters p)[1 := publish_failed p + 1, 3 := publish_cancelled p + 1] else counters p)"
  by (simp add: fail_with_def record_if_closed_def record_publish_cancelled_def counters_def)

lemma counters_nth:
  "counters p = counters q \<Longrightarrow> published p = published q" "counters p = counters q \<Longrightarrow> publish_failed p = publish_failed q"
  "counters p = counters q \<Longrightarrow> publish_timeouts p = publish_timeouts q"
  "counters p = counters q \<Longrightarrow> publish_cancelled p = publish_cancelled q"
  by (simp_all add: counters_def)

lemma record_counters:
  "counters (record_publish_ok p) = (counters p)[0 := published p + 1]"
  "counters (record_publish_err p) = (counters p)[1 := publish_failed p + 1]"
  "counters (record_publish_timeout p) = (counters p)[1 := publish_failed p + 1, 2 := publish_timeouts p + 1]"
  "counters (record_publish_cancelled p) = (counters p)[1 := publish_failed p + 1, 3 := publish_cancelled p + 1]"
  by (simp_all add: counters_def record_publish_ok_def record_publish_err_def record_publish_timeout_def
      record_publish_cancelled_def)

lemma publish_counters:
  assumes "quiet i1" and "quiet i2"
  shows "case publish rt drv i1 i2 now r p of
      (Inr d, p') \<Rightarrow> counters p' = (counters p)[0 := published p + 1]
    | (Inl e, p') \<Rightarrow>
        \<not> is_closed_error e \<and> counters p' = counters p \<or>
        counters p' = (counters p)[1 := publish_failed p + 1] \<or>
        e = Timeout msg_produce_timeout \<and>
          counters p' = (counters p)[1 := publish_failed p + 1, 2 := publish_timeouts p + 1] \<or>
        is_closed_error e \<and>
          counters p' = (counters p)[1 := publish_failed p + 1, 3 := publish_cancelled p + 1]"
proof -
  have client: "counters p1 = counters p"
    if "partition_client rt drv i1 (pr_topic r) (pr_partition r) p = (x, p1)" for x p1
    using partition_client_counters [OF assms(1), of rt drv "pr_topic r" "pr_partition r" p] that by simp
  have failed: ?thesis if "publish rt drv i1 i2 now r p = fail_with q e" "counters q = counters p" for q e
    by (simp add: that fail_with_def record_if_closed_def record_counters counters_nth [OF that(2)])
  show ?thesis
  proof (cases rule: publish_cases [of p rt drv i1 i2 now r])
    case (invalid e)
    then show ?thesis by (cases e) auto
  next
    case (no_client e p1)
    show ?thesis by (rule failed [OF no_client(2) client [OF no_client(1)]])
  next
    case (closing pc p1 e p2)
    have "counters p2 = counters p"
      using client [OF closing(1)] pool_start_operation_active(2) [OF assms(2) closing(2)] by simp
    then show ?thesis by (rule failed [OF closing(3)])
  next
    case (sent pc p1 u p2)
    have "counters p2 = counters p"
      using client [OF sent(1)] pool_start_operation_active(2) [OF assms(2) sent(2)] by simp
    then have w: "counters (at_wait i2 p2) = counters p" by (simp add: quietD [OF assms(2)])
    note n = counters_nth [OF w]
    show ?thesis
      by (cases rule: send_part_cases [of rt drv i2 now r pc p2]) (simp_all add: sent(3) record_counters w n)
  next
    case (closed e)
    show ?thesis by (rule failed [OF closed(2) refl])
  qed
qed

text \<open>How the wait for the broker ends, \<open>None\<close> when the call returns before it sends.\<close>

definition produce_answer ::
  "('s, 'sr, 'a, 'ar) runtime \<Rightarrow> ('c, 'k, 'p) driver \<Rightarrow> ('s, 'a, 'c) interference \<Rightarrow> ('s, 'a, 'c) interference \<Rightarrow>
   int \<Rightarrow> publish_record \<Rightarrow> ('s, 'a, 'c) pool \<Rightarrow> (driver_error + i64 list) outcome option"
where
  "produce_answer rt drv i1 i2 now r p =
     (if is_ok (pool_ensure_open p) \<and> trim (pr_topic r) \<noteq> [] \<and> 0 \<le> sint (pr_partition r)
      then (case partition_client rt drv i1 (pr_topic r) (pr_partition r) p of
              (Inr pc, p1) \<Rightarrow>
                (case pool_start_operation rt i2 p1 of
                   (Inr _, p2) \<Rightarrow>
                     Some (snd (race (shutdown_at rt i2 p2) (delivery_timeout (pool_config p2))
                       (drv_produce drv pc [wire_of now r] NoCompression)))
                 | (Inl _, _) \<Rightarrow> None)
            | (Inl _, _) \<Rightarrow> None)
      else None)"

lemma send_part_answer:
  "send_part rt drv i now r pc p =
     (case snd (race (shutdown_at rt i p) (delivery_timeout (pool_config p))
         (drv_produce drv pc [wire_of now r] NoCompression)) of
        Cancelled \<Rightarrow> (Inl (Closed msg_produce_cancelled), record_publish_cancelled (at_wait i p))
      | Expired \<Rightarrow> (Inl (Timeout msg_produce_timeout), record_publish_timeout (at_wait i p))
      | Answered (Inl err) \<Rightarrow> (Inl (map_kafka_error ''kafkax produce'' err), record_publish_err (at_wait i p))
      | Answered (Inr offs) \<Rightarrow>
          if length offs = 1
          then (Inr \<lparr>dl_partition = pr_partition r, dl_offset = hd offs\<rparr>, record_publish_ok (at_wait i p))
          else (Inl (Backend (msg_offset_count_a @ show_nat (length offs) @ msg_offset_count_b @
                  show_i32 (pr_partition r) @ msg_offset_count_c)), record_publish_err (at_wait i p)))"
  unfolding send_part_def limited_produce_await_def apply_limited_produce_outcome_def pool_compression_def
  by (auto split: prod.split outcome.split sum.split list.split)

section \<open>Properties\<close>

text \<open>C5. \<open>publish\<close> never invents an acknowledgement: if it returns a delivery, the driver was given exactly
  this record (payload, key and headers unchanged) for a client of this topic and partition, answered
  with exactly one offset within the delivery timeout and before any shutdown signal, and the delivery
  is that offset with the record's partition.\<close>

theorem publish_ok_is_acknowledged:
  assumes "publish rt drv i1 i2 now r p = (Inr d, p')"
  shows "\<exists>pc p1 p2 t. partition_client rt drv i1 (pr_topic r) (pr_partition r) p = (Inr pc, p1) \<and>
    pool_start_operation rt i2 p1 = (Inr (), p2) \<and>
    drv_produce drv pc
      [\<lparr>wire_key = pr_key r, wire_value = Some (pr_payload r), wire_headers = pr_headers r, wire_timestamp = now\<rparr>]
      NoCompression = Some (t, Inr [dl_offset d]) \<and>
    t \<le> delivery_timeout (pool_config p2) \<and>
    (case shutdown_at rt i2 p2 of None \<Rightarrow> True | Some s \<Rightarrow> t < s) \<and>
    dl_partition d = pr_partition r"
  using assms
proof (cases rule: publish_cases [of p rt drv i1 i2 now r])
  case (sent pc p1 u p2)
  then obtain q where "send_part rt drv i2 now r pc p2 = (Inr d, q)"
    using assms by (cases "send_part rt drv i2 now r pc p2") auto
  then obtain t where "race (shutdown_at rt i2 p2) (delivery_timeout (pool_config p2))
      (drv_produce drv pc [wire_of now r] pool_compression) = (t, Answered (Inr [dl_offset d]))"
    "dl_partition d = pr_partition r"
    by (cases rule: send_part_cases [of rt drv i2 now r pc p2]) auto
  then show ?thesis using sent
    by (intro exI [of _ pc] exI [of _ p1] exI [of _ p2] exI [of _ t])
      (simp add: race_Answered wire_of_def pool_compression_def)
qed (simp_all add: prod_eq_iff)

text \<open>A run: the client is there after 3, the acknowledgement 3 later.\<close>

lemma sample_publish:
  "publish sample_rt (sample_driver [42]) alone alone 0 (publish_payload ''t'' 1 []) sample_pool =
     (Inr \<lparr>dl_partition = 1, dl_offset = 42\<rparr>,
      sample_pool\<lparr>published := 1,
        pool_life := notify_activity sample_rt (notify_activity sample_rt (pool_life sample_pool))\<rparr>)"
proof -
  have t: "trim ''t'' = ''t''" by (rule trim_all_graphic) (simp add: graphic_def)
  show ?thesis
    by (simp add: publish_def pool_ensure_open_def validate_publish_topic_def partition_client_def t
        with_operation_def pool_start_operation_def start_operation_def ensure_open_def life_defs alone_def
        client_def sample_pool_def sample_driver_def lifecycle_new_def sample_rt_def versioned_watch_def
        shutdown_at_def race_def timeout_def pool_drop_guard_def drop_guard_def default_config_def from_secs_def
        publish_payload_def limited_produce_await_def apply_limited_produce_outcome_def record_publish_ok_def)
qed

theorem publish_ok_is_acknowledged_witness:
  "\<exists>pc p1 p2 t. partition_client sample_rt (sample_driver [42]) alone ''t'' 1 sample_pool = (Inr pc, p1) \<and>
    pool_start_operation sample_rt alone p1 = (Inr (), p2) \<and>
    drv_produce (sample_driver [42]) pc
      [\<lparr>wire_key = None, wire_value = Some [], wire_headers = Map.empty, wire_timestamp = 0\<rparr>]
      NoCompression = Some (t, Inr [42]) \<and>
    t \<le> delivery_timeout (pool_config p2) \<and>
    (case shutdown_at sample_rt alone p2 of None \<Rightarrow> True | Some s \<Rightarrow> t < s) \<and> (1 :: i32) = 1"
  using publish_ok_is_acknowledged [OF sample_publish] by (simp add: publish_payload_def)

text \<open>C21. The publish counters are exact for every way a call can end, without other tasks' counts. A
  call that ends before it sends counts nothing, unless it failed because the pool is closed, which is
  one failure and one cancellation. After the send, the shutdown signal gives \<open>Closed\<close> and counts one
  failure and one cancellation, the deadline gives \<open>Timeout\<close> and counts one failure and one timeout, an
  error of the broker gives that error and counts one failure, an answer without exactly one offset
  gives \<open>Backend\<close> and counts one failure, and one offset gives the delivery and counts one success. No
  other counter moves.\<close>

theorem publish_counters_exact:
  assumes "quiet i1" and "quiet i2"
  shows "let (result, p') = publish rt drv i1 i2 now r p;
             success = (counters p)[0 := published p + 1];
             failure = (counters p)[1 := publish_failed p + 1];
             timed_out = (counters p)[1 := publish_failed p + 1, 2 := publish_timeouts p + 1];
             cancelled = (counters p)[1 := publish_failed p + 1, 3 := publish_cancelled p + 1]
         in case produce_answer rt drv i1 i2 now r p of
              None \<Rightarrow>
                (case result of
                   Inl e \<Rightarrow> counters p' = (if error_kind_name e = ''closed'' then cancelled else counters p)
                 | Inr _ \<Rightarrow> False)
            | Some Cancelled \<Rightarrow> result = Inl (Closed msg_produce_cancelled) \<and> counters p' = cancelled
            | Some Expired \<Rightarrow> result = Inl (Timeout msg_produce_timeout) \<and> counters p' = timed_out
            | Some (Answered (Inl err)) \<Rightarrow>
                result = Inl (map_kafka_error ''kafkax produce'' err) \<and> counters p' = failure
            | Some (Answered (Inr offsets)) \<Rightarrow>
                if length offsets = 1
                then result = Inr \<lparr>dl_partition = pr_partition r, dl_offset = hd offsets\<rparr> \<and> counters p' = success
                else (\<exists>m. result = Inl (Backend m)) \<and> counters p' = failure"
proof -
  have client: "counters p1 = counters p"
    if "partition_client rt drv i1 (pr_topic r) (pr_partition r) p = (x, p1)" for x p1
    using partition_client_counters [OF assms(1), of rt drv "pr_topic r" "pr_partition r" p] that by simp
  have kind: "is_closed_error e \<longleftrightarrow> error_kind_name e = ''closed''" for e
    by (cases e) (simp_all add: error_kind_name_def)
  show ?thesis
  proof (cases rule: publish_cases [of p rt drv i1 i2 now r])
    case (closed e)
    then show ?thesis by (simp add: produce_answer_def fail_with_counters kind case_prod_beta Let_def)
  next
    case (invalid e)
    then show ?thesis by (cases e) (auto simp: produce_answer_def error_kind_name_def split: prod.split)
  next
    case (no_client e p1)
    note n = counters_nth [OF client [OF no_client(1)]] client [OF no_client(1)]
    show ?thesis
      using no_client n
      by (simp add: produce_answer_def fail_with_counters kind Let_def case_prod_beta)
  next
    case (closing pc p1 e p2)
    have "counters p2 = counters p"
      using client [OF closing(1)] pool_start_operation_active(2) [OF assms(2) closing(2)] by simp
    then show ?thesis
      using closing counters_nth [of p2 p]
      by (simp add: produce_answer_def fail_with_counters kind Let_def case_prod_beta)
  next
    case (sent pc p1 u p2)
    have "counters p2 = counters p"
      using client [OF sent(1)] pool_start_operation_active(2) [OF assms(2) sent(2)] by simp
    then have w: "counters (at_wait i2 p2) = counters p" by (simp add: quietD [OF assms(2)])
    note n = counters_nth [OF w]
    show ?thesis
      using sent by (auto simp: produce_answer_def send_part_answer record_counters w n Let_def
          split: outcome.split sum.split)
  qed
qed

theorem publish_counters_exact_witness:
  "counters (snd (publish sample_rt (sample_driver [42]) alone alone 0 (publish_payload ''t'' 1 []) sample_pool)) =
     (counters sample_pool)[0 := published sample_pool + 1]"
  using publish_counters_exact [OF alone_quiet alone_quiet, where rt = sample_rt and drv = "sample_driver [42]"
      and now = 0 and r = "publish_payload ''t'' 1 []" and p = sample_pool]
  by (simp add: sample_publish Let_def split: option.splits outcome.splits sum.splits if_splits)

text \<open>The wait of a produce is bounded: it ends by the delivery timeout and no later than the shutdown
  signal, the signal wins a tie, and an answer counts only when it came first.\<close>

theorem produce_wait_is_bounded:
  "fst (limited_produce_await sd d fut) \<le> d \<and>
   (case sd of None \<Rightarrow> True | Some s \<Rightarrow> fst (limited_produce_await sd d fut) \<le> s) \<and>
   (case snd (limited_produce_await sd d fut) of
      LpReady x \<Rightarrow> fut = Some (fst (limited_produce_await sd d fut), x)
    | LpCancelled \<Rightarrow> sd = Some (fst (limited_produce_await sd d fut))
    | LpTimedOut \<Rightarrow> fst (limited_produce_await sd d fut) = d \<and> (case fut of None \<Rightarrow> True | Some (t, _) \<Rightarrow> d < t))"
  using race_bound [of sd d fut]
  by (auto simp: limited_produce_await_def race_def timeout_def Let_def split: option.splits prod.splits timed.splits)

text \<open>On a pool without a connection \<open>publish\<close> fails with a connection error, and this failure shows
  in no counter, although \<open>publish_failed\<close> is documented as the number of failures.\<close>

theorem unconnected_publish_not_counted:
  "publish sample_rt (sample_driver []) alone alone 0 (publish_payload ''t'' 1 []) (sample_pool\<lparr>pool_client := None\<rparr>) =
     (Inl (Connection msg_unconnected),
      sample_pool\<lparr>pool_client := None, pool_life := notify_activity sample_rt (pool_life sample_pool)\<rparr>)"
proof -
  have t: "trim ''t'' = ''t''" by (rule trim_all_graphic) (simp add: graphic_def)
  show ?thesis
    by (simp add: publish_def pool_ensure_open_def validate_publish_topic_def partition_client_def t
        with_operation_def pool_start_operation_def start_operation_def ensure_open_def life_defs alone_def
        client_def sample_pool_def lifecycle_new_def pool_drop_guard_def drop_guard_def
        publish_payload_def fail_with_def record_if_closed_def)
qed

end
