(* ===== verification/Consumer.thy ===== *)
theory Consumer
  imports Pool Message
begin

text \<open>
  \<open>src/consumer.rs\<close> and the factories of \<open>src/pool.rs\<close>: the consumer configuration, the set-up of a
  session, its background task and the receiving side. The task and the receiver share a bounded
  \<open>mpsc\<close> channel of \<open>tokio\<close>, a record of operations with its documented behaviour as \<open>mpsc_laws\<close>;
  together with the pool's flags they form a step relation.
\<close>

section \<open>Configuration\<close>

record consumer_config =
  cc_topic :: string
  cc_partition :: i32
  cc_from_beginning :: bool
  cc_start_offset :: "i64 option"

datatype start_offset = StartAt i64 | StartEarliest | StartLatest

definition consumer_buffer_capacity :: nat where
  "consumer_buffer_capacity = 64"

definition subscribe :: "string \<Rightarrow> consumer_config" where
  "subscribe topic =
     \<lparr>cc_topic = topic, cc_partition = 0, cc_from_beginning = True, cc_start_offset = None\<rparr>"

definition assign :: "string \<Rightarrow> i32 \<Rightarrow> consumer_config" where
  "assign topic part =
     \<lparr>cc_topic = topic, cc_partition = part, cc_from_beginning = True, cc_start_offset = None\<rparr>"

definition with_start_offset :: "consumer_config \<Rightarrow> i64 \<Rightarrow> consumer_config" where
  "with_start_offset c offset = c\<lparr>cc_start_offset := Some offset, cc_from_beginning := False\<rparr>"

definition resolve_start_offset :: "consumer_config \<Rightarrow> start_offset" where
  "resolve_start_offset c =
     (case cc_start_offset c of
        Some offset \<Rightarrow> StartAt offset
      | None \<Rightarrow> if cc_from_beginning c then StartEarliest else StartLatest)"

definition validate_consumer_config :: "consumer_config \<Rightarrow> unit kafka_result" where
  "validate_consumer_config c =
     (if trim (cc_topic c) = [] then Inl (Config msg_consumer_topic_empty)
      else if sint (cc_partition c) < 0 then Inl (Config msg_consumer_partition_negative)
      else Inr ())"

section \<open>Set-up\<close>

text \<open>What the background task is started with; it owns the guard taken here.\<close>

record 'p session_start =
  sn_client :: 'p
  sn_start :: start_offset
  sn_topic :: string
  sn_partition :: i32

definition consumer_connect ::
  "('s, 'sr, 'a, 'ar) runtime \<Rightarrow> ('c, 'k, 'p) driver \<Rightarrow> ('s, 'a, 'c) interference \<Rightarrow> ('s, 'a, 'c) interference \<Rightarrow>
   consumer_config \<Rightarrow> ('s, 'a, 'c) pool \<Rightarrow> 'p session_start kafka_result \<times> ('s, 'a, 'c) pool"
where
  "consumer_connect rt drv i1 i2 c p =
     (case validate_consumer_config c of
        Inl e \<Rightarrow> (Inl e, p)
      | Inr _ \<Rightarrow>
          (case partition_client rt drv i1 (cc_topic c) (cc_partition c) p of
             (Inl e, p1) \<Rightarrow> (Inl e, p1)
           | (Inr pc, p1) \<Rightarrow>
               (case pool_start_operation rt i2 p1 of
                  (Inl e, p2) \<Rightarrow> (Inl e, p2)
                | (Inr _, p2) \<Rightarrow>
                    (Inr \<lparr>sn_client = pc, sn_start = resolve_start_offset c, sn_topic = cc_topic c,
                          sn_partition = cc_partition c\<rparr>, p2))))"

text \<open>\<open>KafkaPool::consumer\<close>\<close>

definition pool_consumer ::
  "('s, 'sr, 'a, 'ar) runtime \<Rightarrow> ('c, 'k, 'p) driver \<Rightarrow> ('s, 'a, 'c) interference \<Rightarrow> ('s, 'a, 'c) interference \<Rightarrow>
   consumer_config \<Rightarrow> ('s, 'a, 'c) pool \<Rightarrow> 'p session_start kafka_result \<times> ('s, 'a, 'c) pool"
where
  "pool_consumer rt drv i1 i2 c p =
     (case pool_ensure_open p of Inl e \<Rightarrow> (Inl e, p) | Inr _ \<Rightarrow> consumer_connect rt drv i1 i2 c p)"

section \<open>Items\<close>

text \<open>A record as the driver's stream yields it.\<close>

record fetched =
  fe_offset :: i64
  fe_key :: "bytes option"
  fe_value :: "bytes option"
  fe_headers :: "string \<rightharpoonup> bytes"
  fe_timestamp :: int

type_synonym stream_item = "driver_error + (fetched \<times> i64)"

definition to_message :: "string \<Rightarrow> i32 \<Rightarrow> fetched \<Rightarrow> kafka_message" where
  "to_message topic part r =
     \<lparr>km_topic = topic, km_partition = part, km_offset = fe_offset r, km_payload = fe_value r,
      km_key = fe_key r, km_headers = fe_headers r, km_timestamp = Some (fe_timestamp r)\<rparr>"

definition to_output :: "string \<Rightarrow> i32 \<Rightarrow> stream_item \<Rightarrow> kafka_message kafka_result" where
  "to_output topic part item =
     (case item of
        Inr (r, high_watermark) \<Rightarrow> Inr (to_message topic part r)
      | Inl err \<Rightarrow> Inl (map_kafka_error ''kafkax fetch'' err))"

section \<open>The channel\<close>

record ('v, 'q) mpsc_api =
  mq_channel :: "nat \<Rightarrow> 'q"
  mq_send :: "'v \<Rightarrow> 'q \<Rightarrow> 'q option"
  mq_recv :: "'q \<Rightarrow> ('v \<times> 'q) option"
  mq_items :: "'q \<Rightarrow> 'v list"
  mq_capacity :: "'q \<Rightarrow> nat"

text \<open>A send waits exactly while the channel is full, a receive while it is empty; the order is kept.\<close>

definition mpsc_laws :: "('v, 'q) mpsc_api \<Rightarrow> bool" where
  "mpsc_laws api =
     ((\<forall>n. mq_items api (mq_channel api n) = [] \<and> mq_capacity api (mq_channel api n) = n) \<and>
      (\<forall>v q. case mq_send api v q of
         None \<Rightarrow> mq_capacity api q \<le> length (mq_items api q)
       | Some q' \<Rightarrow> length (mq_items api q) < mq_capacity api q \<and> mq_items api q' = mq_items api q @ [v] \<and>
           mq_capacity api q' = mq_capacity api q) \<and>
      (\<forall>q. case mq_recv api q of
         None \<Rightarrow> mq_items api q = []
       | Some (v, q') \<Rightarrow> mq_items api q = v # mq_items api q' \<and> mq_capacity api q' = mq_capacity api q))"

lemma mpsc_lawsD:
  fixes api :: "('v, 'q) mpsc_api"
  assumes "mpsc_laws api"
  shows "mq_items api (mq_channel api n) = []" and "mq_capacity api (mq_channel api n) = n"
    and "mq_send api v q = Some q' \<Longrightarrow> length (mq_items api q) < mq_capacity api q \<and>
           mq_items api q' = mq_items api q @ [v] \<and> mq_capacity api q' = mq_capacity api q"
    and "mq_recv api q = Some (v, q') \<Longrightarrow> mq_items api q = v # mq_items api q' \<and> mq_capacity api q' = mq_capacity api q"
    and "mq_recv api q = None \<Longrightarrow> mq_items api q = []"
    and "mq_send api v q = None \<Longrightarrow> mq_capacity api q \<le> length (mq_items api q)"
proof -
  have s: "case mq_send api v q of
         None \<Rightarrow> mq_capacity api q \<le> length (mq_items api q)
       | Some q' \<Rightarrow> length (mq_items api q) < mq_capacity api q \<and> mq_items api q' = mq_items api q @ [v] \<and>
           mq_capacity api q' = mq_capacity api q" for v :: 'v and q :: 'q
    using assms unfolding mpsc_laws_def by blast
  have r: "case mq_recv api q of
         None \<Rightarrow> mq_items api q = []
       | Some (v, q') \<Rightarrow> mq_items api q = v # mq_items api q' \<and> mq_capacity api q' = mq_capacity api q" for q :: 'q
    using assms unfolding mpsc_laws_def by blast
  show "mq_items api (mq_channel api n) = []" "mq_capacity api (mq_channel api n) = n"
    using assms by (simp_all add: mpsc_laws_def)
  show "mq_send api v q = Some q' \<Longrightarrow> length (mq_items api q) < mq_capacity api q \<and>
           mq_items api q' = mq_items api q @ [v] \<and> mq_capacity api q' = mq_capacity api q"
    and "mq_send api v q = None \<Longrightarrow> mq_capacity api q \<le> length (mq_items api q)"
    using s [where v = v and q = q] by simp_all
  show "mq_recv api q = Some (v, q') \<Longrightarrow> mq_items api q = v # mq_items api q' \<and> mq_capacity api q' = mq_capacity api q"
    and "mq_recv api q = None \<Longrightarrow> mq_items api q = []"
    using r [where q = q] by simp_all
qed

text \<open>An instance for concrete runs.\<close>

definition list_mpsc :: "('v, 'v list \<times> nat) mpsc_api" where
  "list_mpsc =
     \<lparr>mq_channel = (\<lambda>n. ([], n)),
      mq_send = (\<lambda>v q. if length (fst q) < snd q then Some (fst q @ [v], snd q) else None),
      mq_recv = (\<lambda>q. case fst q of [] \<Rightarrow> None | v # vs \<Rightarrow> Some (v, (vs, snd q))),
      mq_items = fst, mq_capacity = snd\<rparr>"

lemma list_mpsc_laws: "mpsc_laws list_mpsc"
  by (auto simp: mpsc_laws_def list_mpsc_def split: list.splits)

section \<open>Receiving\<close>

text \<open>
  One poll of \<open>recv\<close>: \<open>None\<close> while it has to wait. \<open>senders_gone\<close>: the task has ended and dropped
  its sender.
\<close>

definition consumer_recv ::
  "('v, 'q) mpsc_api \<Rightarrow> bool \<Rightarrow> 'q \<Rightarrow> ('v option \<times> 'q) option"
where
  "consumer_recv api senders_gone q =
     (case mq_recv api q of
        Some (v, q') \<Rightarrow> Some (Some v, q')
      | None \<Rightarrow> if senders_gone then Some (None, q) else None)"

definition recv ::
  "(kafka_message kafka_result, 'q) mpsc_api \<Rightarrow> unit kafka_result \<Rightarrow> bool \<Rightarrow> 'q \<Rightarrow>
   (kafka_message kafka_result option \<times> 'q) option"
where
  "recv api open_check senders_gone q =
     (case open_check of
        Inl e \<Rightarrow> Some (Some (Inl e), q)
      | Inr _ \<Rightarrow> consumer_recv api senders_gone q)"

text \<open>\<open>item\<close>: when and with what the channel's \<open>recv\<close> would complete.\<close>

definition recv_timeout ::
  "unit kafka_result \<Rightarrow> instant \<Rightarrow> kafka_message kafka_result option future \<Rightarrow> kafka_message option kafka_result"
where
  "recv_timeout open_check d item =
     (case open_check of
        Inl e \<Rightarrow> Inl e
      | Inr _ \<Rightarrow>
          (case snd (timeout d item) of
             Completed (Some (Inr m)) \<Rightarrow> Inr (Some m)
           | Completed (Some (Inl e)) \<Rightarrow> Inl e
           | Completed None \<Rightarrow> Inr None
           | Elapsed \<Rightarrow> Inl (Timeout msg_recv_timeout)))"

section \<open>The running session\<close>

text \<open>
  The background task pulls from the stream, or holds an output it has to send, or has ended. The
  receiver is idle or inside a \<open>recv\<close> that has passed its check. \<open>ss_closed\<close> is what the receiver
  last read of the pool's flag, \<open>ss_signal\<close> the content of the shutdown channel; they change
  independently. \<open>ss_pulled\<close> and \<open>ss_received\<close> record what the stream yielded and what the caller got.
\<close>

datatype task_pc = TaskPull | TaskSend "kafka_message kafka_result" | TaskDone

record 'q session =
  ss_closed :: bool
  ss_signal :: bool
  ss_task :: task_pc
  ss_queue :: 'q
  ss_receiving :: bool
  ss_pulled :: "stream_item list"
  ss_received :: "kafka_message kafka_result list"

text \<open>
  \<open>select!\<close> is biased: with the signal set the task neither pulls nor sends. The stream is the
  environment's: a pull may yield any item, or the end.
\<close>

inductive session_step ::
  "(kafka_message kafka_result, 'q) mpsc_api \<Rightarrow> string \<Rightarrow> i32 \<Rightarrow> 'q session \<Rightarrow> 'q session \<Rightarrow> bool"
  for api :: "(kafka_message kafka_result, 'q) mpsc_api" and topic :: string and part :: i32
where
  close_flag: "session_step api topic part s (s\<lparr>ss_closed := True\<rparr>)"
| close_signal: "session_step api topic part s (s\<lparr>ss_signal := True\<rparr>)"
| pull_stop: "ss_task s = TaskPull \<Longrightarrow> ss_signal s \<Longrightarrow> session_step api topic part s (s\<lparr>ss_task := TaskDone\<rparr>)"
| pull_item: "ss_task s = TaskPull \<Longrightarrow> \<not> ss_signal s \<Longrightarrow>
     session_step api topic part s
       (s\<lparr>ss_task := TaskSend (to_output topic part item), ss_pulled := ss_pulled s @ [item]\<rparr>)"
| pull_end: "ss_task s = TaskPull \<Longrightarrow> \<not> ss_signal s \<Longrightarrow> session_step api topic part s (s\<lparr>ss_task := TaskDone\<rparr>)"
| send_stop: "ss_task s = TaskSend out \<Longrightarrow> ss_signal s \<Longrightarrow> session_step api topic part s (s\<lparr>ss_task := TaskDone\<rparr>)"
| send_item: "ss_task s = TaskSend out \<Longrightarrow> \<not> ss_signal s \<Longrightarrow> mq_send api out (ss_queue s) = Some q \<Longrightarrow>
     session_step api topic part s
       (s\<lparr>ss_task := if is_ok out then TaskPull else TaskDone, ss_queue := q\<rparr>)"
| recv_check: "\<not> ss_receiving s \<Longrightarrow> \<not> ss_closed s \<Longrightarrow> session_step api topic part s (s\<lparr>ss_receiving := True\<rparr>)"
| recv_done: "ss_receiving s \<Longrightarrow> consumer_recv api (ss_task s = TaskDone) (ss_queue s) = Some (r, q) \<Longrightarrow>
     session_step api topic part s
       (s\<lparr>ss_receiving := False, ss_queue := q,
          ss_received := ss_received s @ (case r of None \<Rightarrow> [] | Some v \<Rightarrow> [v])\<rparr>)"
| recv_elapsed: "ss_receiving s \<Longrightarrow> session_step api topic part s (s\<lparr>ss_receiving := False\<rparr>)"
| dropped: "session_step api topic part s (s\<lparr>ss_task := TaskDone\<rparr>)"

definition session_init :: "(kafka_message kafka_result, 'q) mpsc_api \<Rightarrow> 'q session" where
  "session_init api =
     \<lparr>ss_closed = False, ss_signal = False, ss_task = TaskPull,
      ss_queue = mq_channel api consumer_buffer_capacity, ss_receiving = False, ss_pulled = [], ss_received = []\<rparr>"

inductive session_reachable ::
  "(kafka_message kafka_result, 'q) mpsc_api \<Rightarrow> string \<Rightarrow> i32 \<Rightarrow> 'q session \<Rightarrow> bool"
  for api :: "(kafka_message kafka_result, 'q) mpsc_api" and topic :: string and part :: i32
where
  start: "session_reachable api topic part (session_init api)"
| step: "session_reachable api topic part s \<Longrightarrow> session_step api topic part s s' \<Longrightarrow> session_reachable api topic part s'"

inductive_cases session_stepE: "session_step api topic part s s'"

section \<open>The invariant\<close>

definition in_hand :: "task_pc \<Rightarrow> kafka_message kafka_result list" where
  "in_hand q = (case q of TaskSend out \<Rightarrow> [out] | _ \<Rightarrow> [])"

text \<open>
  Everything pulled is, in order, received, queued or in the task's hand; a task that has ended may
  have dropped the last one. Only the last output can be an error.
\<close>

definition session_inv ::
  "(kafka_message kafka_result, 'q) mpsc_api \<Rightarrow> string \<Rightarrow> i32 \<Rightarrow> 'q session \<Rightarrow> bool"
where
  "session_inv api topic part s =
     ((\<exists>lost. map (to_output topic part) (ss_pulled s) =
          ss_received s @ mq_items api (ss_queue s) @ in_hand (ss_task s) @ lost \<and>
        length lost \<le> 1 \<and> (lost = [] \<or> ss_task s = TaskDone)) \<and>
      mq_capacity api (ss_queue s) = consumer_buffer_capacity \<and>
      length (mq_items api (ss_queue s)) \<le> consumer_buffer_capacity \<and>
      list_all is_ok (butlast (map (to_output topic part) (ss_pulled s))) \<and>
      (ss_task s = TaskPull \<longrightarrow> list_all is_ok (map (to_output topic part) (ss_pulled s))))"

definition ordered_flow ::
  "(kafka_message kafka_result, 'q) mpsc_api \<Rightarrow> string \<Rightarrow> i32 \<Rightarrow> 'q session \<Rightarrow> kafka_message kafka_result list \<Rightarrow> bool"
where
  "ordered_flow api topic part s lost =
     (map (to_output topic part) (ss_pulled s) =
        ss_received s @ mq_items api (ss_queue s) @ in_hand (ss_task s) @ lost \<and>
      length lost \<le> 1 \<and> (lost = [] \<or> ss_task s = TaskDone))"

lemma session_inv_alt:
  "session_inv api topic part s \<longleftrightarrow>
     (\<exists>lost. ordered_flow api topic part s lost) \<and>
     mq_capacity api (ss_queue s) = consumer_buffer_capacity \<and>
     length (mq_items api (ss_queue s)) \<le> consumer_buffer_capacity \<and>
     list_all is_ok (butlast (map (to_output topic part) (ss_pulled s))) \<and>
     (ss_task s = TaskPull \<longrightarrow> list_all is_ok (map (to_output topic part) (ss_pulled s)))"
  by (simp add: session_inv_def ordered_flow_def)

lemma in_hand_simps [simp]:
  "in_hand TaskPull = []" "in_hand (TaskSend out) = [out]" "in_hand TaskDone = []"
  by (simp_all add: in_hand_def)

lemma flow_stop:
  assumes "ordered_flow api topic part s lost" and "in_hand (ss_task s) = [] \<or> lost = []"
  shows "ordered_flow api topic part (s\<lparr>ss_task := TaskDone\<rparr>) (in_hand (ss_task s) @ lost)"
  using assms by (auto simp: ordered_flow_def in_hand_def split: task_pc.splits)

lemma session_inv_stop: "session_inv api topic part s \<Longrightarrow> session_inv api topic part (s\<lparr>ss_task := TaskDone\<rparr>)"
proof (unfold session_inv_alt, elim conjE exE, intro conjI)
  fix lost
  assume flow: "ordered_flow api topic part s lost"
  then have "in_hand (ss_task s) = [] \<or> lost = []" by (auto simp: ordered_flow_def)
  from flow_stop [OF flow this]
  show "\<exists>lost. ordered_flow api topic part (s\<lparr>ss_task := TaskDone\<rparr>) lost" by blast
qed simp_all

lemma session_inv_pull:
  assumes "session_inv api topic part s" and "ss_task s = TaskPull"
  shows "session_inv api topic part
    (s\<lparr>ss_task := TaskSend (to_output topic part item), ss_pulled := ss_pulled s @ [item]\<rparr>)"
  using assms by (auto simp: session_inv_alt ordered_flow_def butlast_append)

lemma session_inv_send:
  assumes "mpsc_laws api" and "session_inv api topic part s" and "ss_task s = TaskSend out"
    and "mq_send api out (ss_queue s) = Some q"
  shows "session_inv api topic part (s\<lparr>ss_task := if is_ok out then TaskPull else TaskDone, ss_queue := q\<rparr>)"
proof -
  note q = mpsc_lawsD(3) [OF assms(1,4)]
  from assms(2,3) have flow: "map (to_output topic part) (ss_pulled s) =
      ss_received s @ mq_items api (ss_queue s) @ [out]"
    by (auto simp: session_inv_alt ordered_flow_def)
  have "list_all is_ok (map (to_output topic part) (ss_pulled s))" if "is_ok out"
    using assms(2) that unfolding session_inv_alt flow by (simp add: butlast_append)
  with assms(2) q flow show ?thesis
    by (auto simp: session_inv_alt ordered_flow_def intro!: exI [of _ "[]"])
qed

lemma session_inv_recv:
  assumes "mpsc_laws api" and "session_inv api topic part s"
    and "consumer_recv api (ss_task s = TaskDone) (ss_queue s) = Some (r, q)"
  shows "session_inv api topic part
    (s\<lparr>ss_receiving := False, ss_queue := q,
       ss_received := ss_received s @ (case r of None \<Rightarrow> [] | Some v \<Rightarrow> [v])\<rparr>)"
proof (cases "mq_recv api (ss_queue s)")
  case None
  with assms(2,3) show ?thesis
    by (auto simp: consumer_recv_def session_inv_alt ordered_flow_def split: if_splits)
next
  case (Some vq)
  then obtain v where v: "mq_recv api (ss_queue s) = Some (v, q)" "r = Some v"
    using assms(3) by (auto simp: consumer_recv_def split: prod.splits)
  from mpsc_lawsD(4) [OF assms(1) v(1)] assms(2) show ?thesis
    by (auto simp: session_inv_alt ordered_flow_def v(2))
qed

lemma session_inv_frame:
  "session_inv api topic part s \<Longrightarrow> session_inv api topic part (s\<lparr>ss_closed := a\<rparr>)"
  "session_inv api topic part s \<Longrightarrow> session_inv api topic part (s\<lparr>ss_signal := a\<rparr>)"
  "session_inv api topic part s \<Longrightarrow> session_inv api topic part (s\<lparr>ss_receiving := a\<rparr>)"
  by (simp_all add: session_inv_def)

lemma session_inv_step:
  assumes "session_step api topic part s s'" and "mpsc_laws api" and "session_inv api topic part s"
  shows "session_inv api topic part s'"
  using assms(1)
  by (rule session_stepE)
    (simp_all add: assms(2,3) session_inv_frame session_inv_stop session_inv_pull session_inv_send session_inv_recv)

lemma session_inv_reachable:
  assumes "session_reachable api topic part s" and "mpsc_laws api"
  shows "session_inv api topic part s"
  using assms(1)
proof (induction rule: session_reachable.induct)
  case start
  show ?case
    by (simp add: session_inv_def session_init_def mpsc_lawsD(1,2) [OF assms(2)])
next
  case (step s s')
  then show ?case using session_inv_step assms(2) by blast
qed

section \<open>A concrete session\<close>

definition sample_item :: "i64 \<Rightarrow> stream_item" where
  "sample_item off =
     Inr (\<lparr>fe_offset = off, fe_key = None, fe_value = None, fe_headers = Map.empty, fe_timestamp = 0\<rparr>, off + 1)"

definition sample_session :: "(kafka_message kafka_result list \<times> nat) session" where
  "sample_session =
     \<lparr>ss_closed = True, ss_signal = True, ss_task = TaskSend (to_output ''t'' 0 (sample_item 7)),
      ss_queue = ([], 64), ss_receiving = False, ss_pulled = [sample_item 7], ss_received = []\<rparr>"

lemma sample_session_reachable: "session_reachable list_mpsc ''t'' 0 sample_session"
proof -
  note go = session_reachable.step [where api = list_mpsc and topic = "''t''" and part = 0]
  have 1: "session_reachable list_mpsc ''t'' 0 (session_init list_mpsc)" by (rule session_reachable.start)
  from go [OF 1 pull_item [where item = "sample_item 7"]]
  have 2: "session_reachable list_mpsc ''t'' 0
     (sample_session\<lparr>ss_closed := False, ss_signal := False\<rparr>)"
    by (simp add: session_init_def sample_session_def list_mpsc_def consumer_buffer_capacity_def)
  from go [OF 2 close_flag]
  have 3: "session_reachable list_mpsc ''t'' 0 (sample_session\<lparr>ss_signal := False\<rparr>)"
    by (simp add: sample_session_def)
  from go [OF 3 close_signal] show ?thesis by (simp add: sample_session_def)
qed

text \<open>Setting up a session keeps one guard, and counts nothing.\<close>

lemma pool_consumer_active:
  assumes "quiet i1" and "quiet i2"
  shows "active (pool_life (snd (pool_consumer rt drv i1 i2 c p))) =
      active (pool_life p) + (if is_ok (fst (pool_consumer rt drv i1 i2 c p)) then 1 else 0)"
    and "counters (snd (pool_consumer rt drv i1 i2 c p)) = counters p"
proof -
  obtain x p1 where pc: "partition_client rt drv i1 (cc_topic c) (cc_partition c) p = (x, p1)" by fastforce
  obtain y p2 where op: "pool_start_operation rt i2 p1 = (y, p2)" by fastforce
  have "active (pool_life p1) = active (pool_life p)" "counters p1 = counters p"
    using pool_operations_active(5) [OF assms(1), of rt drv "cc_topic c" "cc_partition c" p]
      partition_client_counters [OF assms(1), of rt drv "cc_topic c" "cc_partition c" p] pc by simp_all
  then show "active (pool_life (snd (pool_consumer rt drv i1 i2 c p))) =
      active (pool_life p) + (if is_ok (fst (pool_consumer rt drv i1 i2 c p)) then 1 else 0)"
    "counters (snd (pool_consumer rt drv i1 i2 c p)) = counters p"
    using pool_start_operation_active [OF assms(2) op]
    by (cases "pool_ensure_open p"; cases "validate_consumer_config c"; cases x; cases y;
        simp add: pool_consumer_def consumer_connect_def pc op)+
qed

section \<open>Properties\<close>

text \<open>C10. A session delivers in order and without loss under backpressure: in every reachable state the
  caller has received a prefix of what the stream yielded, translated item by item; what is not yet
  received is in the queue, which never holds more than 64 items, or in the task's hand, and at most
  one item, only of a task that has ended, is dropped; an error is the last item of a session.\<close>

theorem consumer_delivers_in_order:
  assumes "mpsc_laws api" and "session_reachable api topic part s"
  shows "\<exists>rest. map (to_output topic part) (ss_pulled s) = ss_received s @ mq_items api (ss_queue s) @ rest \<and>
      length rest \<le> 1 \<and> length (mq_items api (ss_queue s)) \<le> 64 \<and>
      list_all is_ok (butlast (map (to_output topic part) (ss_pulled s)))"
proof -
  from session_inv_reachable [OF assms(2,1)] obtain lost where "ordered_flow api topic part s lost"
    "length (mq_items api (ss_queue s)) \<le> 64" "list_all is_ok (butlast (map (to_output topic part) (ss_pulled s)))"
    by (auto simp: session_inv_alt consumer_buffer_capacity_def)
  then show ?thesis
    by (intro exI [of _ "in_hand (ss_task s) @ lost"]) (auto simp: ordered_flow_def in_hand_def split: task_pc.splits)
qed

theorem consumer_delivers_in_order_witness:
  "\<exists>rest. map (to_output ''t'' 0) (ss_pulled sample_session) =
      ss_received sample_session @ mq_items list_mpsc (ss_queue sample_session) @ rest \<and>
    length rest \<le> 1 \<and> length (mq_items list_mpsc (ss_queue sample_session)) \<le> 64 \<and>
    list_all is_ok (butlast (map (to_output ''t'' 0) (ss_pulled sample_session)))"
  by (rule consumer_delivers_in_order [OF list_mpsc_laws sample_session_reachable])

text \<open>The shutdown signal ends the background task at its next move: with the signal set it has such
  a move, even while its queue is full and nobody receives, every move of it is to its end, and
  nothing more is pulled or queued. So the guard it holds cannot keep \<open>close\<close> waiting.\<close>

theorem signal_ends_consumer_task:
  assumes "ss_signal s"
  shows "(ss_task s = TaskDone \<or> (\<exists>s'. session_step api topic part s s' \<and> ss_task s' = TaskDone \<and> ss_queue s' = ss_queue s)) \<and>
    (\<forall>s'. session_step api topic part s s' \<longrightarrow>
       ss_signal s' \<and> (ss_task s' = ss_task s \<or> ss_task s' = TaskDone) \<and> ss_pulled s' = ss_pulled s)"
proof
  show "ss_task s = TaskDone \<or> (\<exists>s'. session_step api topic part s s' \<and> ss_task s' = TaskDone \<and> ss_queue s' = ss_queue s)"
  proof (cases "ss_task s")
    case TaskPull
    from pull_stop [OF TaskPull assms] show ?thesis by fastforce
  next
    case (TaskSend out)
    from send_stop [OF TaskSend assms] show ?thesis by fastforce
  qed simp
  show "\<forall>s'. session_step api topic part s s' \<longrightarrow>
       ss_signal s' \<and> (ss_task s' = ss_task s \<or> ss_task s' = TaskDone) \<and> ss_pulled s' = ss_pulled s"
    using assms by (auto elim: session_stepE)
qed

theorem signal_ends_consumer_task_witness:
  "\<exists>s'. session_step list_mpsc ''t'' 0 sample_session s' \<and> ss_task s' = TaskDone \<and> ss_queue s' = ss_queue sample_session"
  using signal_ends_consumer_task [of sample_session list_mpsc "''t''" 0] by (simp add: sample_session_def)

text \<open>Setting up a consumer is guarded: bad shapes are refused before any broker call, a failure leaves
  the number of operations in flight as it was, and a session keeps exactly one guard, with the start
  position of its configuration: an explicit offset first, else the beginning or the end.\<close>

theorem consumer_setup_guard:
  assumes "quiet i1" and "quiet i2"
  shows "active (pool_life (snd (pool_consumer rt drv i1 i2 c p))) =
      active (pool_life p) + (if is_ok (fst (pool_consumer rt drv i1 i2 c p)) then 1 else 0) \<and>
    (case fst (pool_consumer rt drv i1 i2 c p) of
       Inr sn \<Rightarrow>
         trim (cc_topic c) \<noteq> [] \<and> 0 \<le> sint (cc_partition c) \<and>
         sn_topic sn = cc_topic c \<and> sn_partition sn = cc_partition c \<and>
         sn_start sn = (case cc_start_offset c of
             Some off \<Rightarrow> StartAt off | None \<Rightarrow> if cc_from_beginning c then StartEarliest else StartLatest)
     | Inl _ \<Rightarrow> True)"
  using pool_consumer_active [OF assms, of rt drv c p]
  by (auto simp: pool_consumer_def consumer_connect_def resolve_start_offset_def validate_consumer_config_def
      split: if_splits option.splits sum.splits prod.splits)

theorem consumer_setup_guard_witness:
  "active (pool_life (snd (pool_consumer sample_rt (sample_driver []) alone alone (assign ''t'' 0) sample_pool))) =
     active (pool_life sample_pool) +
       (if is_ok (fst (pool_consumer sample_rt (sample_driver []) alone alone (assign ''t'' 0) sample_pool)) then 1 else 0)"
  by (rule consumer_setup_guard [OF alone_quiet alone_quiet, THEN conjunct1])

text \<open>On a closed pool a call of \<open>recv\<close> answers with the error \<open>Closed\<close> and leaves the queue alone, where
  its documentation promises \<open>None\<close>; items that are already queued are no longer delivered.\<close>

theorem recv_on_closed_pool:
  "recv api (ensure_open (store_closed l)) gone q = Some (Some (Inl (Closed msg_pool_closed)), q)"
  by (simp add: recv_def ensure_open_def life_defs)

end
