(* ===== verification/At_Least_Once.thy ===== *)
theory At_Least_Once
  imports Consumer Offset_Store File_Contract
begin

text \<open>
  \<open>src/at_least_once.rs\<close>: the consumer that advances a position only on \<open>ack\<close>. The store is any
  provider of the \<open>offset_store\<close> contract, passed as its two operations; the underlying consumer is
  its \<open>recv\<close>. The second part puts sessions, crashes and reconnects together over one partition.
\<close>

section \<open>The consumer\<close>

record 'k alo =
  al_inner :: 'k
  al_topic :: string
  al_partition :: i32
  al_pending :: "kafka_message option"
  al_terminated :: bool

definition ensure_active :: "'k alo \<Rightarrow> unit kafka_result" where
  "ensure_active a = (if al_terminated a then Inl (Closed msg_alo_terminated) else Inr ())"

text \<open>\<open>connect\<close>: \<open>consume\<close> is \<open>pool.consumer(config).await\<close>.\<close>

definition alo_connect ::
  "('st \<Rightarrow> string \<Rightarrow> i32 \<Rightarrow> i64 option kafka_result \<times> 'st) \<Rightarrow>
   (consumer_config \<Rightarrow> 'w \<Rightarrow> 'k kafka_result \<times> 'w) \<Rightarrow> consumer_config \<Rightarrow> 'st \<Rightarrow> 'w \<Rightarrow> 'k alo kafka_result \<times> 'st \<times> 'w"
where
  "alo_connect committed consume c st w =
     (if trim (cc_topic c) = [] then (Inl (Config msg_alo_topic_empty), st, w)
      else if sint (cc_partition c) < 0 then (Inl (Config msg_alo_partition_negative), st, w)
      else
        (case committed st (cc_topic c) (cc_partition c) of
           (Inl e, st') \<Rightarrow> (Inl e, st', w)
         | (Inr found, st') \<Rightarrow>
             (let c' = (case found of
                          Some n \<Rightarrow> c\<lparr>cc_start_offset := Some n, cc_from_beginning := False\<rparr>
                        | None \<Rightarrow> c) in
              case consume c' w of
                (Inl e, w') \<Rightarrow> (Inl e, st', w')
              | (Inr k, w') \<Rightarrow>
                  (Inr \<lparr>al_inner = k, al_topic = cc_topic c, al_partition = cc_partition c, al_pending = None,
                        al_terminated = False\<rparr>, st', w'))))"

text \<open>\<open>recv\<close>; \<open>None\<close> while the underlying \<open>recv\<close> waits.\<close>

definition alo_recv ::
  "('k \<Rightarrow> (kafka_message kafka_result option \<times> 'k) option) \<Rightarrow> 'k alo \<Rightarrow> (kafka_message kafka_result option \<times> 'k alo) option"
where
  "alo_recv inner_recv a =
     (case ensure_active a of
        Inl e \<Rightarrow> Some (Some (Inl e), a)
      | Inr _ \<Rightarrow>
          (case al_pending a of
             Some m \<Rightarrow> Some (Some (Inr m), a)
           | None \<Rightarrow>
               (case inner_recv (al_inner a) of
                  None \<Rightarrow> None
                | Some (r, k) \<Rightarrow>
                    (case r of
                       Some (Inr m) \<Rightarrow> Some (Some (Inr m), a\<lparr>al_inner := k, al_pending := Some m\<rparr>)
                     | Some (Inl e) \<Rightarrow> Some (Some (Inl e), a\<lparr>al_inner := k\<rparr>)
                     | None \<Rightarrow> Some (None, a\<lparr>al_inner := k\<rparr>)))))"

definition alo_recv_timeout ::
  "('k \<Rightarrow> kafka_message option kafka_result \<times> 'k) \<Rightarrow> 'k alo \<Rightarrow> kafka_message option kafka_result \<times> 'k alo"
where
  "alo_recv_timeout inner_recv a =
     (case ensure_active a of
        Inl e \<Rightarrow> (Inl e, a)
      | Inr _ \<Rightarrow>
          (case al_pending a of
             Some m \<Rightarrow> (Inr (Some m), a)
           | None \<Rightarrow>
               (case inner_recv (al_inner a) of
                  (Inl e, k) \<Rightarrow> (Inl e, a\<lparr>al_inner := k\<rparr>)
                | (Inr (Some m), k) \<Rightarrow> (Inr (Some m), a\<lparr>al_inner := k, al_pending := Some m\<rparr>)
                | (Inr None, k) \<Rightarrow> (Inr None, a\<lparr>al_inner := k\<rparr>))))"

definition alo_ack ::
  "('st \<Rightarrow> string \<Rightarrow> i32 \<Rightarrow> i64 \<Rightarrow> unit kafka_result \<times> 'st) \<Rightarrow> 'st \<Rightarrow> 'k alo \<Rightarrow> unit kafka_result \<times> 'st \<times> 'k alo"
where
  "alo_ack commit st a =
     (case ensure_active a of
        Inl e \<Rightarrow> (Inl e, st, a)
      | Inr _ \<Rightarrow>
          (case al_pending a of
             None \<Rightarrow> (Inl (Config msg_no_pending), st, a)
           | Some m \<Rightarrow>
               (case commit st (km_topic m) (km_partition m) (km_offset m) of
                  (Inl e, st') \<Rightarrow> (Inl e, st', a)
                | (Inr _, st') \<Rightarrow> (Inr (), st', a\<lparr>al_pending := None\<rparr>))))"

definition alo_committed ::
  "('st \<Rightarrow> string \<Rightarrow> i32 \<Rightarrow> i64 option kafka_result \<times> 'st) \<Rightarrow> 'st \<Rightarrow> 'k alo \<Rightarrow> i64 option kafka_result \<times> 'st"
where
  "alo_committed committed st a = committed st (al_topic a) (al_partition a)"

definition nack_keep_pending :: "'k alo \<Rightarrow> 'k alo" where
  "nack_keep_pending a = a"

definition drop_pending_unacked :: "'k alo \<Rightarrow> 'k alo" where
  "drop_pending_unacked a = a\<lparr>al_pending := None, al_terminated := True\<rparr>"

text \<open>The free function \<open>resolve_start_offset\<close>.\<close>

definition alo_resolve_start_offset ::
  "('st \<Rightarrow> string \<Rightarrow> i32 \<Rightarrow> i64 option kafka_result \<times> 'st) \<Rightarrow> 'st \<Rightarrow> string \<Rightarrow> i32 \<Rightarrow> i64 option kafka_result \<times> 'st"
where
  "alo_resolve_start_offset committed st topic part = committed st topic part"

section \<open>Sessions over one partition\<close>

text \<open>
  The driver reads a partition in order from the start it is given. \<open>log\<close> is the whole log, of
  which \<open>written\<close> messages are there when a session connects. The underlying consumer of a session is
  the rest of the log it has still to deliver; a receive yields its head, or an error, or the end of
  the stream.
\<close>

definition log_from :: "kafka_message list \<Rightarrow> nat \<Rightarrow> start_offset \<Rightarrow> kafka_message list" where
  "log_from log written start =
     (case start of
        StartEarliest \<Rightarrow> log
      | StartAt n \<Rightarrow> filter (\<lambda>m. sint n \<le> sint (km_offset m)) log
      | StartLatest \<Rightarrow> drop written log)"

definition partition_log :: "string \<Rightarrow> i32 \<Rightarrow> kafka_message list \<Rightarrow> bool" where
  "partition_log topic part log =
     (list_all (\<lambda>m. km_topic m = topic \<and> km_partition m = part \<and> committable (km_offset m)) log \<and>
      sorted_wrt (\<lambda>m m'. sint (km_offset m) < sint (km_offset m')) log)"

text \<open>\<open>sy_tried\<close>: the messages for which \<open>ack\<close> has been called.\<close>

record 'st alo_system =
  sy_store :: 'st
  sy_session :: "kafka_message list alo option"
  sy_tried :: "kafka_message set"

datatype recv_answer = NextMessage | FetchError kafka_error | StreamEnd

fun answer_recv :: "recv_answer \<Rightarrow> kafka_message list \<Rightarrow> (kafka_message kafka_result option \<times> kafka_message list) option" where
  "answer_recv NextMessage [] = None"
| "answer_recv NextMessage (m # ms) = Some (Some (Inr m), ms)"
| "answer_recv (FetchError e) ms = Some (Some (Inl e), ms)"
| "answer_recv StreamEnd ms = Some (None, ms)"

definition consume_log :: "kafka_message list \<Rightarrow> nat \<Rightarrow> consumer_config \<Rightarrow> unit \<Rightarrow> kafka_message list kafka_result \<times> unit" where
  "consume_log log written c w = (Inr (log_from log written (resolve_start_offset c)), ())"

text \<open>A session can be lost at any time; every step is one operation of the consumer.\<close>

inductive alo_step ::
  "('st \<Rightarrow> string \<Rightarrow> i32 \<Rightarrow> i64 option kafka_result \<times> 'st) \<Rightarrow>
   ('st \<Rightarrow> string \<Rightarrow> i32 \<Rightarrow> i64 \<Rightarrow> unit kafka_result \<times> 'st) \<Rightarrow>
   kafka_message list \<Rightarrow> consumer_config \<Rightarrow> 'st alo_system \<Rightarrow> 'st alo_system \<Rightarrow> bool"
  for committed :: "'st \<Rightarrow> string \<Rightarrow> i32 \<Rightarrow> i64 option kafka_result \<times> 'st"
    and commit :: "'st \<Rightarrow> string \<Rightarrow> i32 \<Rightarrow> i64 \<Rightarrow> unit kafka_result \<times> 'st"
    and log :: "kafka_message list" and c :: consumer_config
where
  connect_ok: "alo_connect committed (consume_log log written) c (sy_store s) () = (Inr a, st, u) \<Longrightarrow>
     alo_step committed commit log c s (s\<lparr>sy_store := st, sy_session := Some a\<rparr>)"
| connect_fails: "alo_connect committed (consume_log log written) c (sy_store s) () = (Inl e, st, u) \<Longrightarrow>
     alo_step committed commit log c s (s\<lparr>sy_store := st, sy_session := None\<rparr>)"
| receive: "sy_session s = Some a \<Longrightarrow> alo_recv (answer_recv ans) a = Some (r, a') \<Longrightarrow>
     alo_step committed commit log c s (s\<lparr>sy_session := Some a'\<rparr>)"
| acknowledge: "sy_session s = Some a \<Longrightarrow> alo_ack commit (sy_store s) a = (r, st, a') \<Longrightarrow>
     alo_step committed commit log c s
       (s\<lparr>sy_store := st, sy_session := Some a',
          sy_tried := sy_tried s \<union> (if al_terminated a then {} else set_option (al_pending a))\<rparr>)"
| keep_pending: "sy_session s = Some a \<Longrightarrow>
     alo_step committed commit log c s (s\<lparr>sy_session := Some (nack_keep_pending a)\<rparr>)"
| drop_pending: "sy_session s = Some a \<Longrightarrow>
     alo_step committed commit log c s (s\<lparr>sy_session := Some (drop_pending_unacked a)\<rparr>)"
| lose_session: "alo_step committed commit log c s (s\<lparr>sy_session := None\<rparr>)"

inductive alo_reachable ::
  "('st \<Rightarrow> string \<Rightarrow> i32 \<Rightarrow> i64 option kafka_result \<times> 'st) \<Rightarrow>
   ('st \<Rightarrow> string \<Rightarrow> i32 \<Rightarrow> i64 \<Rightarrow> unit kafka_result \<times> 'st) \<Rightarrow>
   kafka_message list \<Rightarrow> consumer_config \<Rightarrow> 'st \<Rightarrow> 'st alo_system \<Rightarrow> bool"
  for committed :: "'st \<Rightarrow> string \<Rightarrow> i32 \<Rightarrow> i64 option kafka_result \<times> 'st"
    and commit :: "'st \<Rightarrow> string \<Rightarrow> i32 \<Rightarrow> i64 \<Rightarrow> unit kafka_result \<times> 'st"
    and log :: "kafka_message list" and c :: consumer_config and st0 :: 'st
where
  start: "alo_reachable committed commit log c st0 \<lparr>sy_store = st0, sy_session = None, sy_tried = {}\<rparr>"
| step: "alo_reachable committed commit log c st0 s \<Longrightarrow> alo_step committed commit log c s s' \<Longrightarrow>
     alo_reachable committed commit log c st0 s'"

inductive_cases alo_stepE: "alo_step committed commit log c s s'"

text \<open>
  The messages a configuration asks for, and those at or after the position that a store held at
  the start.
\<close>

definition wanted :: "consumer_config \<Rightarrow> i64 option \<Rightarrow> kafka_message \<Rightarrow> bool" where
  "wanted c n0 m =
     (case n0 of
        Some n \<Rightarrow> sint n \<le> sint (km_offset m)
      | None \<Rightarrow>
          (case cc_start_offset c of
             Some n \<Rightarrow> sint n \<le> sint (km_offset m)
           | None \<Rightarrow> cc_from_beginning c))"

section \<open>The invariant, over any store\<close>

text \<open>The session part: what is wanted and was not tried is still to come, in order.\<close>

definition alo_session_inv ::
  "kafka_message list \<Rightarrow> consumer_config \<Rightarrow> i64 option \<Rightarrow> kafka_message set \<Rightarrow> kafka_message list alo \<Rightarrow> bool"
where
  "alo_session_inv log c n0 tried a =
     (al_terminated a \<or>
      sorted_wrt (\<lambda>m m'. sint (km_offset m) < sint (km_offset m'))
        ((case al_pending a of None \<Rightarrow> [] | Some m \<Rightarrow> [m]) @ al_inner a) \<and>
      set (al_inner a) \<subseteq> set log \<and> set_option (al_pending a) \<subseteq> set log \<and>
      (\<forall>m \<in> set log. wanted c n0 m \<longrightarrow> m \<in> tried \<or> m \<in> set (al_inner a) \<or> al_pending a = Some m))"

lemma alo_connect_ok:
  assumes "alo_connect committed (consume_log log written) c st () = (Inr a, st', u)"
  shows "\<exists>found st1. committed st (cc_topic c) (cc_partition c) = (Inr found, st1) \<and> al_pending a = None \<and>
    al_inner a = log_from log written (resolve_start_offset
      (case found of Some n \<Rightarrow> c\<lparr>cc_start_offset := Some n, cc_from_beginning := False\<rparr> | None \<Rightarrow> c))"
proof (cases "committed st (cc_topic c) (cc_partition c)")
  case (Pair x st1)
  with assms show ?thesis
    by (cases x) (auto simp: alo_connect_def consume_log_def Let_def split: if_splits)
qed

lemma log_from_sub: "set (log_from log written start) \<subseteq> set log"
  by (auto simp: log_from_def split: start_offset.split dest: in_set_dropD)

lemma log_from_sorted: "sorted_wrt P log \<Longrightarrow> sorted_wrt P (log_from log written start)"
  by (auto simp: log_from_def sorted_wrt_filter sorted_wrt_drop split: start_offset.split)


context offset_store
begin

text \<open>The store part: a position has only passed messages that were tried.\<close>

definition alo_store_inv ::
  "kafka_message list \<Rightarrow> consumer_config \<Rightarrow> i64 option \<Rightarrow> kafka_message set \<Rightarrow> 's \<Rightarrow> bool"
where
  "alo_store_inv log c n0 tried st =
     (inv st \<and> (n0 = None \<or> view st (cc_topic c, cc_partition c) \<noteq> None) \<and>
      (\<forall>m \<in> set log. \<forall>n. wanted c n0 m \<longrightarrow> view st (cc_topic c, cc_partition c) = Some n \<longrightarrow>
         sint (km_offset m) < sint n \<longrightarrow> m \<in> tried))"

definition alo_inv :: "kafka_message list \<Rightarrow> consumer_config \<Rightarrow> i64 option \<Rightarrow> 's alo_system \<Rightarrow> bool" where
  "alo_inv log c n0 s =
     (alo_store_inv log c n0 (sy_tried s) (sy_store s) \<and>
      (case sy_session s of None \<Rightarrow> True | Some a \<Rightarrow> alo_session_inv log c n0 (sy_tried s) a))"

lemma connect_store:
  assumes "alo_connect committed (consume_log log written) c st () = (r, st', u)" and "inv st"
  shows "inv st' \<and> view st' = view st"
proof (cases "committed st (cc_topic c) (cc_partition c)")
  case (Pair x st1)
  with assms committed_frame [OF assms(2) Pair] show ?thesis
    by (auto simp: alo_connect_def consume_log_def Let_def split: if_splits sum.splits)
qed

lemma store_inv_view:
  "alo_store_inv log c n0 tried st \<Longrightarrow> inv st' \<and> view st' = view st \<Longrightarrow> alo_store_inv log c n0 tried st'"
  by (simp add: alo_store_inv_def)

lemma connect_session:
  assumes "alo_connect committed (consume_log log written) c st () = (Inr a, st', u)"
    and "alo_store_inv log c n0 tried st"
    and "partition_log (cc_topic c) (cc_partition c) log"
  shows "alo_session_inv log c n0 tried a"
    and "\<And>m. m \<in> set log \<Longrightarrow> wanted c n0 m \<Longrightarrow> m \<in> tried \<or> m \<in> set (al_inner a)"
proof -
  let ?k = "(cc_topic c, cc_partition c)"
  obtain found st1 where found: "committed st (cc_topic c) (cc_partition c) = (Inr found, st1)"
    and a: "al_inner a = log_from log written (resolve_start_offset (case found of
        Some n \<Rightarrow> c\<lparr>cc_start_offset := Some n, cc_from_beginning := False\<rparr> | None \<Rightarrow> c))"
      "al_pending a = None"
    using alo_connect_ok [OF assms(1)] by blast
  have "inv st" using assms(2) by (simp add: alo_store_inv_def)
  from committed_ok [OF this found] have f: "found = view st ?k" .
  have sub: "set (al_inner a) \<subseteq> set log" unfolding a by (rule log_from_sub)
  have sorted: "sorted_wrt (\<lambda>m m'. sint (km_offset m) < sint (km_offset m')) (al_inner a)"
    unfolding a using assms(3) by (intro log_from_sorted) (simp add: partition_log_def)
  have cover: "m \<in> tried \<or> m \<in> set (al_inner a)" if m: "m \<in> set log" "wanted c n0 m" for m
  proof (cases "view st ?k")
    case None
    with assms(2) have "n0 = None" by (auto simp: alo_store_inv_def)
    with m None show ?thesis
      by (auto simp: a f log_from_def resolve_start_offset_def wanted_def split: option.splits)
  next
    case (Some n)
    show ?thesis
    proof (cases "sint (km_offset m) < sint n")
      case True
      with assms(2) m Some show ?thesis by (auto simp: alo_store_inv_def)
    next
      case False
      with m Some show ?thesis by (simp add: a f log_from_def resolve_start_offset_def)
    qed
  qed
  show "alo_session_inv log c n0 tried a"
    using cover sub sorted by (auto simp: alo_session_inv_def a(2))
  show "\<And>m. m \<in> set log \<Longrightarrow> wanted c n0 m \<Longrightarrow> m \<in> tried \<or> m \<in> set (al_inner a)" by (rule cover)
qed

lemma receive_session:
  assumes "alo_recv (answer_recv ans) a = Some (r, a')" and "alo_session_inv log c n0 tried a"
  shows "alo_session_inv log c n0 tried a'"
proof (cases "al_terminated a \<or> al_pending a \<noteq> None")
  case True
  with assms show ?thesis by (auto simp: alo_recv_def ensure_active_def split: option.splits if_splits)
next
  case False
  then have *: "\<not> al_terminated a" "al_pending a = None" by auto
  show ?thesis
  proof (cases ans)
    case NextMessage
    with assms * obtain m ms where "al_inner a = m # ms" "a' = a\<lparr>al_inner := ms, al_pending := Some m\<rparr>"
      by (cases "al_inner a") (auto simp: alo_recv_def ensure_active_def)
    with assms(2) * show ?thesis by (auto simp: alo_session_inv_def)
  qed (use assms * in \<open>auto simp: alo_recv_def ensure_active_def alo_session_inv_def\<close>)
qed

lemma acknowledge_inv:
  assumes "alo_ack commit st a = (r, st', a')" and "alo_session_inv log c n0 tried a"
    and "alo_store_inv log c n0 tried st" and "partition_log (cc_topic c) (cc_partition c) log"
    and "storable (cc_topic c)"
    and tried': "tried' = tried \<union> (if al_terminated a then {} else set_option (al_pending a))"
  shows "alo_session_inv log c n0 tried' a' \<and> alo_store_inv log c n0 tried' st'"
proof (cases "al_terminated a \<or> al_pending a = None")
  case True
  with assms show ?thesis by (auto simp: alo_ack_def ensure_active_def tried' split: option.splits if_splits)
next
  case False
  then obtain m where active: "\<not> al_terminated a" and m: "al_pending a = Some m" by auto
  let ?k = "(cc_topic c, cc_partition c)"
  from assms(2) active m have in_log: "m \<in> set log"
    and later: "\<And>x. x \<in> set (al_inner a) \<Longrightarrow> sint (km_offset m) < sint (km_offset x)"
    by (auto simp: alo_session_inv_def)
  with assms(4) have key: "(km_topic m, km_partition m) = ?k" and off: "committable (km_offset m)"
    by (auto simp: partition_log_def list_all_iff)
  obtain r1 where cm: "commit st (cc_topic c) (cc_partition c) (km_offset m) = (r1, st')"
    and a': "a' = a \<or> a' = a\<lparr>al_pending := None\<rparr>"
    using assms(1) active m key by (auto simp: alo_ack_def ensure_active_def split: prod.splits sum.splits)
  have t: "tried' = insert m tried" by (simp add: tried' active m)
  have session: "alo_session_inv log c n0 tried' a'"
    using a' assms(2) active m by (auto simp: alo_session_inv_def t)
  have "inv st" using assms(3) by (simp add: alo_store_inv_def)
  have passed: "x \<in> tried'" if "x \<in> set log" "wanted c n0 x" "sint (km_offset x) < sint (km_offset m) + 1" for x
  proof -
    have "x \<in> tried \<or> x \<in> set (al_inner a) \<or> x = m"
      using assms(2) active m that by (auto simp: alo_session_inv_def)
    with later [of x] that(3) show ?thesis by (auto simp: t)
  qed
  have "alo_store_inv log c n0 tried' st'"
    using \<open>inv st\<close> assms(5) cm
  proof (cases rule: commit_cases)
    case unchanged
    with assms(3) commit_inv [OF \<open>inv st\<close> assms(5) cm] show ?thesis by (auto simp: alo_store_inv_def t)
  next
    case advanced
    have "x \<in> tried'" if x: "x \<in> set log" "wanted c n0 x" "view st' ?k = Some n" "sint (km_offset x) < sint n" for x n
    proof (cases "view st ?k")
      case None
      with advanced x show ?thesis using sint_committable [OF off] passed by simp
    next
      case (Some n1)
      with advanced x have "sint (km_offset x) < max (sint n1) (sint (km_offset m) + 1)"
        using sint_committable [OF off] by (auto simp: sint_smax)
      with Some x assms(3) passed show ?thesis by (auto simp: alo_store_inv_def t less_max_iff_disj)
    qed
    moreover have "view st' ?k \<noteq> None" using advanced by simp
    ultimately show ?thesis using commit_inv [OF \<open>inv st\<close> assms(5) cm] by (auto simp: alo_store_inv_def)
  qed
  with session show ?thesis ..
qed

lemma alo_inv_step:
  assumes "alo_step committed commit log c s s'" and "alo_inv log c n0 s"
    and "partition_log (cc_topic c) (cc_partition c) log" and "storable (cc_topic c)"
  shows "alo_inv log c n0 s'"
  using assms(1)
proof (cases rule: alo_step.cases)
  case (connect_ok written a st u)
  have store: "alo_store_inv log c n0 (sy_tried s) (sy_store s)" using assms(2) by (simp add: alo_inv_def)
  then have "inv (sy_store s)" by (simp add: alo_store_inv_def)
  from store_inv_view [OF store connect_store [OF connect_ok(2) this]] connect_session(1) [OF connect_ok(2) store assms(3)]
  show ?thesis by (simp add: connect_ok(1) alo_inv_def)
next
  case (connect_fails written e st u)
  have store: "alo_store_inv log c n0 (sy_tried s) (sy_store s)" using assms(2) by (simp add: alo_inv_def)
  then have "inv (sy_store s)" by (simp add: alo_store_inv_def)
  from store_inv_view [OF store connect_store [OF connect_fails(2) this]]
  show ?thesis by (simp add: connect_fails(1) alo_inv_def)
next
  case (receive a ans r a')
  then show ?thesis using assms(2) receive_session [OF receive(3)] by (simp add: alo_inv_def)
next
  case (acknowledge a r st a')
  then show ?thesis using assms(2) acknowledge_inv [OF acknowledge(3) _ _ assms(3,4) refl] by (simp add: alo_inv_def)
next
  case (keep_pending a)
  then show ?thesis using assms(2) by (simp add: alo_inv_def nack_keep_pending_def)
next
  case (drop_pending a)
  then show ?thesis using assms(2) by (simp add: alo_inv_def drop_pending_unacked_def alo_session_inv_def)
next
  case lose_session
  then show ?thesis using assms(2) by (simp add: alo_inv_def)
qed

lemma alo_inv_reachable:
  assumes "alo_reachable committed commit log c st0 s" and "inv st0"
    and "partition_log (cc_topic c) (cc_partition c) log" and "storable (cc_topic c)"
  shows "alo_inv log c (view st0 (cc_topic c, cc_partition c)) s"
  using assms(1)
proof (induction rule: alo_reachable.induct)
  case start
  show ?case using assms(2) by (auto simp: alo_inv_def alo_store_inv_def wanted_def)
next
  case (step s s')
  then show ?case using alo_inv_step assms(3,4) by blast
qed

text \<open>What the invariant means for one message.\<close>

lemma alo_message:
  assumes "alo_reachable committed commit log c st0 s" and "inv st0"
    and "partition_log (cc_topic c) (cc_partition c) log" and "storable (cc_topic c)"
    and "m \<in> set log" and "wanted c (view st0 (cc_topic c, cc_partition c)) m" and "m \<notin> sy_tried s"
  shows "(case view (sy_store s) (cc_topic c, cc_partition c) of None \<Rightarrow> True | Some n \<Rightarrow> sint n \<le> sint (km_offset m))"
    and "alo_connect committed (consume_log log written) c (sy_store s) () = (Inr a, st, u) \<Longrightarrow> m \<in> set (al_inner a)"
proof -
  note inv = alo_inv_reachable [OF assms(1-4)]
  then have store: "alo_store_inv log c (view st0 (cc_topic c, cc_partition c)) (sy_tried s) (sy_store s)"
    by (simp add: alo_inv_def)
  then show "case view (sy_store s) (cc_topic c, cc_partition c) of None \<Rightarrow> True | Some n \<Rightarrow> sint n \<le> sint (km_offset m)"
    using assms(5-7) by (auto simp: alo_store_inv_def not_less [symmetric] split: option.split)
  show "alo_connect committed (consume_log log written) c (sy_store s) () = (Inr a, st, u) \<Longrightarrow> m \<in> set (al_inner a)"
    using connect_session(2) [OF _ store assms(3,5,6)] assms(7) by blast
qed

text \<open>Positions only grow along a run, so a session never goes back behind a committed position.\<close>

lemma reachable_view_le:
  assumes "alo_reachable committed commit log c st0 s" and "inv st0"
    and "partition_log (cc_topic c) (cc_partition c) log" and "storable (cc_topic c)"
  shows "view_le (view st0) (view (sy_store s))"
  using assms(1)
proof (induction rule: alo_reachable.induct)
  case (step s s')
  have all: "alo_inv log c (view st0 (cc_topic c, cc_partition c)) s"
    by (rule alo_inv_reachable [OF step(1) assms(2-4)])
  then have i: "inv (sy_store s)" by (simp add: alo_inv_def alo_store_inv_def)
  have "view_le (view (sy_store s)) (view (sy_store s'))"
    using step(2)
  proof (cases rule: alo_step.cases)
    case (connect_ok written a st u)
    then show ?thesis using connect_store [OF connect_ok(2) i] by simp
  next
    case (connect_fails written e st u)
    then show ?thesis using connect_store [OF connect_fails(2) i] by simp
  next
    case (acknowledge a r st a')
    show ?thesis
    proof (cases "al_terminated a \<or> al_pending a = None")
      case True
      with acknowledge show ?thesis by (auto simp: alo_ack_def ensure_active_def split: option.splits if_splits)
    next
      case False
      then obtain m where active: "\<not> al_terminated a" and m: "al_pending a = Some m" by auto
      with all acknowledge(2) have "m \<in> set log" by (simp add: alo_inv_def alo_session_inv_def)
      with assms(3) have key: "km_topic m = cc_topic c" "km_partition m = cc_partition c"
        by (auto simp: partition_log_def list_all_iff)
      obtain r1 where "commit (sy_store s) (cc_topic c) (cc_partition c) (km_offset m) = (r1, st)"
        using acknowledge(3) active m key by (auto simp: alo_ack_def ensure_active_def split: prod.splits sum.splits)
      from commit_monotone [OF i assms(4) this] show ?thesis by (simp add: acknowledge(1))
    qed
  qed simp_all
  then show ?case using step.IH view_le_trans by blast
qed simp

lemma acked_skipped:
  assumes "commit st (cc_topic c) (cc_partition c) off = (Inr (), st1)" and "inv st"
    and "partition_log (cc_topic c) (cc_partition c) log" and "storable (cc_topic c)"
    and "alo_reachable committed commit log c st1 s"
    and "alo_connect committed (consume_log log written) c (sy_store s) () = (Inr a, st', u)"
    and "m \<in> set (al_inner a)"
  shows "sint off < sint (km_offset m)"
proof -
  let ?k = "(cc_topic c, cc_partition c)"
  have i1: "inv st1" using commit_inv assms(1,2,4) by blast
  obtain n where n: "view st1 ?k = Some n" "sint off + 1 \<le> sint n"
    using commit_reaches [OF assms(2,4,1)] by blast
  then obtain n' where n': "view (sy_store s) ?k = Some n'" "sint n \<le> sint n'"
    using reachable_view_le [OF assms(5) i1 assms(3,4)] unfolding view_le_def by blast
  have "inv (sy_store s)"
    using alo_inv_reachable [OF assms(5) i1 assms(3,4)] by (simp add: alo_inv_def alo_store_inv_def)
  moreover obtain found st2 where "committed (sy_store s) (cc_topic c) (cc_partition c) = (Inr found, st2)"
    "al_inner a = log_from log written (resolve_start_offset (case found of
        Some n \<Rightarrow> c\<lparr>cc_start_offset := Some n, cc_from_beginning := False\<rparr> | None \<Rightarrow> c))"
    using alo_connect_ok [OF assms(6)] by blast
  ultimately have "al_inner a = filter (\<lambda>m. sint n' \<le> sint (km_offset m)) log"
    using committed_ok [of "sy_store s" "cc_topic c" "cc_partition c" found st2] n'(1)
    by (simp add: log_from_def resolve_start_offset_def)
  with assms(7) n n' show ?thesis by simp
qed

end

section \<open>Concrete runs\<close>

definition sample_message :: "i64 \<Rightarrow> kafka_message" where
  "sample_message off =
     \<lparr>km_topic = ''orders'', km_partition = 2, km_offset = off, km_payload = None, km_key = None,
      km_headers = Map.empty, km_timestamp = None\<rparr>"

definition sample_log :: "kafka_message list" where
  "sample_log = [sample_message 100, sample_message 103]"

lemma sample_log_ok: "partition_log (cc_topic (assign ''orders'' 2)) (cc_partition (assign ''orders'' 2)) sample_log"
  by (simp add: partition_log_def sample_log_def sample_message_def assign_def committable_def i64_max_def)

lemma orders_trim: "trim ''orders'' = ''orders''"
  by (rule trim_all_graphic) (simp add: graphic_def)

lemma sample_commit_100: "fst (file_commit sample_path (quiet_world sample_fs) ''orders'' 2 100) = Inr ()"
  by code_simp

lemma sample_committed_after:
  "fst (file_committed sample_path (snd (file_commit sample_path (quiet_world sample_fs) ''orders'' 2 100)) ''orders'' 2) =
     Inr (Some 101)"
  by code_simp

text \<open>A session in which the first message is pending.\<close>

definition sample_pending :: "kafka_message list alo" where
  "sample_pending =
     \<lparr>al_inner = [], al_topic = ''orders'', al_partition = 2, al_pending = Some (sample_message 100),
      al_terminated = False\<rparr>"

section \<open>Properties\<close>

text \<open>C3. At-least-once with the in-memory store: over any sequence of connects, receives, acks (failed
  ones included), dropped messages and lost sessions, a wanted message for which \<open>ack\<close> was never
  called lies at or after the committed position, and every session that connects later will
  deliver it.\<close>

theorem at_least_once_memory:
  assumes "alo_reachable memory_committed memory_commit log c st0 s" and "distinct (map fst st0)"
    and "partition_log (cc_topic c) (cc_partition c) log" and "trim (cc_topic c) \<noteq> []" and "0 \<le> sint (cc_partition c)"
    and "m \<in> set log" and "wanted c (map_of st0 (cc_topic c, cc_partition c)) m" and "m \<notin> sy_tried s"
  shows "(case map_of (sy_store s) (cc_topic c, cc_partition c) of
      None \<Rightarrow> True | Some n \<Rightarrow> sint n \<le> sint (km_offset m)) \<and>
    (\<exists>a. alo_connect memory_committed (consume_log log written) c (sy_store s) () = (Inr a, sy_store s, ()) \<and>
       m \<in> set (al_inner a))"
proof -
  note msg = memory.alo_message [OF assms(1,2,3) TrueI assms(6-8)]
  have "\<exists>a. alo_connect memory_committed (consume_log log written) c (sy_store s) () = (Inr a, sy_store s, ())"
    using assms(4,5) by (simp add: alo_connect_def memory_committed_def consume_log_def Let_def)
  with msg show ?thesis by blast
qed

theorem at_least_once_memory_witness:
  "\<exists>a. alo_connect memory_committed (consume_log sample_log 2) (assign ''orders'' 2) memory_new () =
      (Inr a, memory_new, ()) \<and> sample_message 103 \<in> set (al_inner a)"
  using at_least_once_memory [OF alo_reachable.start _ sample_log_ok, of memory_new "sample_message 103" 2]
  by (simp add: memory_new_def sample_log_def wanted_def assign_def orders_trim)

text \<open>At-least-once with the file store: the same over runs in which system calls fail, for topics the
  file format can represent; a commit that reports an error after it took effect does not break it.\<close>

theorem at_least_once_file:
  assumes "alo_reachable (file_committed path) (file_commit path) log c w0 s" and "file_inv path w0"
    and "partition_log (cc_topic c) (cc_partition c) log" and "clean_topic (cc_topic c)"
    and "m \<in> set log" and "wanted c (file_view path w0 (cc_topic c, cc_partition c)) m" and "m \<notin> sy_tried s"
  shows "(case file_view path (sy_store s) (cc_topic c, cc_partition c) of
      None \<Rightarrow> True | Some n \<Rightarrow> sint n \<le> sint (km_offset m)) \<and>
    (case alo_connect (file_committed path) (consume_log log written) c (sy_store s) () of
      (Inr a, _) \<Rightarrow> m \<in> set (al_inner a) | (Inl _, _) \<Rightarrow> True)"
proof -
  note msg = file_provider.alo_message [OF assms]
  show ?thesis
    by (cases "alo_connect (file_committed path) (consume_log log written) c (sy_store s) ()")
      (auto intro: msg split: sum.split)
qed

theorem at_least_once_file_witness:
  "case alo_connect (file_committed sample_path) (consume_log sample_log 2) (assign ''orders'' 2)
      (quiet_world sample_fs) () of
      (Inr a, _) \<Rightarrow> sample_message 103 \<in> set (al_inner a) | (Inl _, _) \<Rightarrow> True"
proof -
  have "file_view sample_path (quiet_world sample_fs) (''orders'', 2) = Some 100"
    by (simp add: file_view_def sample_table)
  then show ?thesis
    using at_least_once_file [OF alo_reachable.start sample_inv sample_log_ok, of "sample_message 103" 2]
    by (simp add: sample_clean sample_log_def wanted_def assign_def sample_message_def)
qed

text \<open>An acknowledged message is not delivered again: once \<open>ack\<close> has returned \<open>Ok\<close> for it, every
  session that connects later, after any further run with failing system calls, starts behind it.\<close>

theorem acked_not_redelivered:
  assumes "alo_ack (file_commit path) w a = (Inr (), w1, a1)" and "al_pending a = Some m"
    and "file_inv path w" and "partition_log (cc_topic c) (cc_partition c) log" and "clean_topic (cc_topic c)"
    and "m \<in> set log" and "alo_reachable (file_committed path) (file_commit path) log c w1 s"
    and "alo_connect (file_committed path) (consume_log log written) c (sy_store s) () = (Inr b, w2, u)"
  shows "m \<notin> set (al_inner b) \<and> (\<forall>x \<in> set (al_inner b). sint (km_offset m) < sint (km_offset x))"
proof -
  have "km_topic m = cc_topic c" "km_partition m = cc_partition c"
    using assms(4,6) by (auto simp: partition_log_def list_all_iff)
  with assms(1,2) have "file_commit path w (cc_topic c) (cc_partition c) (km_offset m) = (Inr (), w1)"
    by (auto simp: alo_ack_def ensure_active_def split: if_splits sum.splits prod.splits)
  from file_provider.acked_skipped [OF this assms(3,4,5,7,8)] show ?thesis by blast
qed

theorem acked_not_redelivered_witness:
  "\<exists>w1 w2 b. fst (alo_ack (file_commit sample_path) (quiet_world sample_fs) sample_pending) = Inr () \<and>
     alo_connect (file_committed sample_path) (consume_log sample_log 2) (assign ''orders'' 2) w1 () = (Inr b, w2, ()) \<and>
     sample_message 100 \<notin> set (al_inner b)"
proof -
  let ?c = "assign ''orders'' 2"
  define w1 where "w1 = snd (file_commit sample_path (quiet_world sample_fs) ''orders'' 2 100)"
  have "file_commit sample_path (quiet_world sample_fs) ''orders'' 2 100 = (Inr (), w1)"
    using sample_commit_100 by (simp add: prod_eq_iff w1_def)
  then have ack: "alo_ack (file_commit sample_path) (quiet_world sample_fs) sample_pending =
      (Inr (), w1, sample_pending\<lparr>al_pending := None\<rparr>)"
    by (simp add: alo_ack_def ensure_active_def sample_pending_def sample_message_def)
  obtain w2 where "file_committed sample_path w1 ''orders'' 2 = (Inr (Some 101), w2)"
    using sample_committed_after unfolding w1_def [symmetric] by (cases "file_committed sample_path w1 ''orders'' 2") simp
  then obtain b where con:
      "alo_connect (file_committed sample_path) (consume_log sample_log 2) ?c w1 () = (Inr b, w2, ())"
    by (simp add: alo_connect_def consume_log_def assign_def orders_trim Let_def)
  have "sample_message 100 \<notin> set (al_inner b)"
    using acked_not_redelivered [OF ack _ sample_inv sample_log_ok _ _ alo_reachable.start, of "sample_message 100"] con
      sample_clean by (simp add: sample_log_def assign_def sample_pending_def)
  moreover have "fst (alo_ack (file_commit sample_path) (quiet_world sample_fs) sample_pending) = Inr ()"
    by (simp add: ack)
  ultimately show ?thesis using con by blast
qed

text \<open>C31. Reconnecting on a pool: a session that \<open>connect\<close> sets up through \<open>KafkaPool::consumer\<close> starts at
  the committed position if the store has one and else where its configuration says, on its own topic
  and partition, with nothing pending and with exactly one guard of the pool.\<close>

theorem reconnect_resumes_at_commit:
  assumes "quiet i1" and "quiet i2"
    and "alo_connect committed (pool_consumer rt drv i1 i2) c st p = (Inr a, st', p')"
  shows "\<exists>found. committed st (cc_topic c) (cc_partition c) = (Inr found, st') \<and>
      sn_start (al_inner a) =
        (case found of Some n \<Rightarrow> StartAt n
         | None \<Rightarrow> (case cc_start_offset c of
             Some off \<Rightarrow> StartAt off | None \<Rightarrow> if cc_from_beginning c then StartEarliest else StartLatest)) \<and>
      sn_topic (al_inner a) = cc_topic c \<and> sn_partition (al_inner a) = cc_partition c \<and>
      al_pending a = None \<and> \<not> al_terminated a \<and> active (pool_life p') = active (pool_life p) + 1"
proof -
  obtain found where found: "committed st (cc_topic c) (cc_partition c) = (Inr found, st')"
    using assms(3) by (auto simp: alo_connect_def Let_def split: if_splits prod.splits sum.splits)
  define c' where
    "c' = (case found of Some n \<Rightarrow> c\<lparr>cc_start_offset := Some n, cc_from_beginning := False\<rparr> | None \<Rightarrow> c)"
  with assms(3) found obtain k where k: "pool_consumer rt drv i1 i2 c' p = (Inr k, p')"
    and a: "al_inner a = k" "al_pending a = None" "\<not> al_terminated a"
    by (auto simp: alo_connect_def Let_def split: if_splits prod.splits sum.splits)
  have "cc_topic c' = cc_topic c" "cc_partition c' = cc_partition c" by (simp_all add: c'_def split: option.split)
  moreover have "sn_topic k = cc_topic c' \<and> sn_partition k = cc_partition c' \<and> sn_start k = resolve_start_offset c'"
    using k by (auto simp: pool_consumer_def consumer_connect_def split: sum.splits prod.splits)
  ultimately show ?thesis
    using pool_consumer_active(1) [OF assms(1,2), of rt drv c' p] k a found
    by (auto simp: resolve_start_offset_def c'_def split: option.splits)
qed

theorem reconnect_resumes_at_commit_witness:
  "\<exists>k p'. alo_connect memory_committed (pool_consumer sample_rt (sample_driver []) alone alone)
       (assign ''orders'' 2) [((''orders'', 2), 101)] sample_pool =
     (Inr \<lparr>al_inner = k, al_topic = ''orders'', al_partition = 2, al_pending = None, al_terminated = False\<rparr>,
      [((''orders'', 2), 101)], p') \<and> sn_start k = StartAt 101"
proof -
  have "\<exists>k p'. alo_connect memory_committed (pool_consumer sample_rt (sample_driver []) alone alone)
       (assign ''orders'' 2) [((''orders'', 2), 101)] sample_pool =
     (Inr \<lparr>al_inner = k, al_topic = ''orders'', al_partition = 2, al_pending = None, al_terminated = False\<rparr>,
      [((''orders'', 2), 101)], p')"
    by (simp add: alo_connect_def assign_def orders_trim memory_committed_def pool_consumer_def consumer_connect_def
        validate_consumer_config_def pool_ensure_open_def partition_client_def
        with_operation_def pool_start_operation_def start_operation_def ensure_open_def life_defs alone_def
        client_def sample_pool_def sample_driver_def lifecycle_new_def sample_rt_def versioned_watch_def
        shutdown_at_def race_def timeout_def pool_drop_guard_def drop_guard_def default_config_def from_secs_def)
  then obtain k p' where con: "alo_connect memory_committed (pool_consumer sample_rt (sample_driver []) alone alone)
       (assign ''orders'' 2) [((''orders'', 2), 101)] sample_pool =
     (Inr \<lparr>al_inner = k, al_topic = ''orders'', al_partition = 2, al_pending = None, al_terminated = False\<rparr>,
      [((''orders'', 2), 101)], p')" by blast
  then show ?thesis
    using reconnect_resumes_at_commit [OF alone_quiet alone_quiet con]
    by (auto simp: memory_committed_def assign_def)
qed

text \<open>C37. One message at a time: while a message is pending, \<open>recv\<close> and \<open>recv_timeout\<close> return that message
  and do not touch the underlying consumer; only a successful \<open>ack\<close> clears it, and it commits exactly
  that message's position; a failed one can be repeated. After \<open>drop_pending_unacked\<close> both only
  answer \<open>Closed\<close>, and \<open>ack\<close> writes nothing.\<close>

theorem pending_is_exclusive:
  "alo_recv rcv (a\<lparr>al_pending := Some m, al_terminated := False\<rparr>) =
     Some (Some (Inr m), a\<lparr>al_pending := Some m, al_terminated := False\<rparr>) \<and>
   alo_recv_timeout rcv_t (a\<lparr>al_pending := Some m, al_terminated := False\<rparr>) =
     (Inr (Some m), a\<lparr>al_pending := Some m, al_terminated := False\<rparr>) \<and>
   alo_ack commit st (a\<lparr>al_pending := Some m, al_terminated := False\<rparr>) =
     (case commit st (km_topic m) (km_partition m) (km_offset m) of
        (Inr _, st') \<Rightarrow> (Inr (), st', a\<lparr>al_pending := None, al_terminated := False\<rparr>)
      | (Inl e, st') \<Rightarrow> (Inl e, st', a\<lparr>al_pending := Some m, al_terminated := False\<rparr>)) \<and>
   alo_recv rcv (drop_pending_unacked b) = Some (Some (Inl (Closed msg_alo_terminated)), drop_pending_unacked b) \<and>
   alo_recv_timeout rcv_t (drop_pending_unacked b) = (Inl (Closed msg_alo_terminated), drop_pending_unacked b) \<and>
   alo_ack commit st (drop_pending_unacked b) = (Inl (Closed msg_alo_terminated), st, drop_pending_unacked b)"
  by (auto simp: alo_recv_def alo_recv_timeout_def alo_ack_def ensure_active_def drop_pending_unacked_def
      split: prod.split sum.split)

definition latest_config :: consumer_config where
  "latest_config = (assign ''orders'' 2)\<lparr>cc_from_beginning := False\<rparr>"

text \<open>The guarantee needs a position to return to: with a configuration that starts at the end and a
  store without a position, a message that was delivered and not acknowledged is not delivered again
  after a reconnect.\<close>

theorem latest_start_loses_unacked:
  "alo_connect memory_committed (consume_log [sample_message 100] 0) latest_config memory_new () =
     (Inr \<lparr>al_inner = [sample_message 100], al_topic = ''orders'', al_partition = 2, al_pending = None,
           al_terminated = False\<rparr>, memory_new, ()) \<and>
   alo_recv (answer_recv NextMessage)
     \<lparr>al_inner = [sample_message 100], al_topic = ''orders'', al_partition = 2, al_pending = None,
      al_terminated = False\<rparr> =
     Some (Some (Inr (sample_message 100)),
       \<lparr>al_inner = [], al_topic = ''orders'', al_partition = 2, al_pending = Some (sample_message 100),
        al_terminated = False\<rparr>) \<and>
   alo_connect memory_committed (consume_log [sample_message 100] 1) latest_config memory_new () =
     (Inr \<lparr>al_inner = [], al_topic = ''orders'', al_partition = 2, al_pending = None,
           al_terminated = False\<rparr>, memory_new, ())"
  by (simp add: alo_connect_def latest_config_def assign_def orders_trim memory_committed_def memory_new_def
      consume_log_def log_from_def resolve_start_offset_def alo_recv_def ensure_active_def)

end
