(* ===== verification/Client.thy ===== *)
theory Client
  imports Connect Producer Consumer
begin

text \<open>
  A program that uses the pool: any sequence of calls of the public operations of
  \<open>src/connection/\<close>, \<open>src/producer.rs\<close> and \<open>src/pool.rs\<close> on one pool. What the operations have in
  common, how they account for their guards and their counters, is the locale \<open>pool_operation\<close>;
  each operation is an instance, and the lemmas about runs are proved from the contract.
\<close>

section \<open>Calls\<close>

datatype api_call =
    CallPing | CallHealth | CallEnsureTopic string i32 i16 | CallDeleteTopic string
  | CallPublish int publish_record | CallConsumer consumer_config

datatype 'p api_reply =
    ReplyPing "unit kafka_result" | ReplyHealth "kafka_health kafka_result"
  | ReplyEnsured "unit kafka_result" | ReplyDeleted "unit kafka_result"
  | ReplyDelivery "delivery kafka_result" | ReplySession "'p session_start kafka_result"

fun run_call ::
  "('s, 'sr, 'a, 'ar) runtime \<Rightarrow> ('c, 'k, 'p) driver \<Rightarrow> ('s, 'a, 'c) interference \<Rightarrow> ('s, 'a, 'c) interference \<Rightarrow>
   api_call \<Rightarrow> ('s, 'a, 'c) pool \<Rightarrow> 'p api_reply \<times> ('s, 'a, 'c) pool"
where
  "run_call rt drv i1 i2 CallPing p = map_prod ReplyPing id (ping rt drv i1 p)"
| "run_call rt drv i1 i2 CallHealth p = map_prod ReplyHealth id (health rt drv i1 p)"
| "run_call rt drv i1 i2 (CallEnsureTopic topic n r) p = map_prod ReplyEnsured id (ensure_topic rt drv i1 topic n r p)"
| "run_call rt drv i1 i2 (CallDeleteTopic topic) p = map_prod ReplyDeleted id (delete_topic rt drv i1 topic p)"
| "run_call rt drv i1 i2 (CallPublish now r) p = map_prod ReplyDelivery id (publish rt drv i1 i2 now r p)"
| "run_call rt drv i1 i2 (CallConsumer c) p = map_prod ReplySession id (pool_consumer rt drv i1 i2 c p)"

text \<open>Each call comes with what other tasks do during its first and its second guarded part.\<close>

type_synonym ('s, 'a, 'c) api_step = "('s, 'a, 'c) interference \<times> ('s, 'a, 'c) interference \<times> api_call"

primrec run_calls ::
  "('s, 'sr, 'a, 'ar) runtime \<Rightarrow> ('c, 'k, 'p) driver \<Rightarrow> ('s, 'a, 'c) api_step list \<Rightarrow> ('s, 'a, 'c) pool \<Rightarrow>
   'p api_reply list \<times> ('s, 'a, 'c) pool"
where
  "run_calls rt drv [] p = ([], p)"
| "run_calls rt drv (x # xs) p =
     (case x of (i1, i2, call) \<Rightarrow>
        (let (r, p1) = run_call rt drv i1 i2 call p; (rs, p2) = run_calls rt drv xs p1 in (r # rs, p2)))"

text \<open>What a reply says.\<close>

fun ok_delivery :: "'p api_reply \<Rightarrow> bool" where
  "ok_delivery (ReplyDelivery r) = is_ok r" | "ok_delivery _ = False"

fun failed_delivery :: "'p api_reply \<Rightarrow> bool" where
  "failed_delivery (ReplyDelivery r) = (\<not> is_ok r)" | "failed_delivery _ = False"

fun ok_ensured :: "'p api_reply \<Rightarrow> bool" where
  "ok_ensured (ReplyEnsured r) = is_ok r" | "ok_ensured _ = False"

fun ok_deleted :: "'p api_reply \<Rightarrow> bool" where
  "ok_deleted (ReplyDeleted r) = is_ok r" | "ok_deleted _ = False"

fun ok_session :: "'p api_reply \<Rightarrow> bool" where
  "ok_session (ReplySession r) = is_ok r" | "ok_session _ = False"

definition how_many :: "('r \<Rightarrow> bool) \<Rightarrow> 'r list \<Rightarrow> nat" where
  "how_many P rs = length (filter P rs)"

lemma how_many_simps [simp]:
  "how_many P [] = 0" "how_many P (r # rs) = of_bool (P r) + how_many P rs"
  by (simp_all add: how_many_def)

section \<open>The contract of an operation\<close>

text \<open>
  The counters of a pool, in the order of \<open>counters\<close>: a success adds one to the operation's own
  counter, if it has one; a failed publish may count as a failure, and then also as a timeout or a
  cancellation.
\<close>

datatype ledger = NoCounter | PublishLedger | EnsureLedger | DeleteLedger

definition failure_counted :: "u64 list \<Rightarrow> u64 list \<Rightarrow> bool" where
  "failure_counted cs cs' =
     (cs' \<in> {cs, cs[1 := cs ! 1 + 1], cs[1 := cs ! 1 + 1, 2 := cs ! 2 + 1], cs[1 := cs ! 1 + 1, 3 := cs ! 3 + 1]})"

fun booked :: "ledger \<Rightarrow> bool \<Rightarrow> u64 list \<Rightarrow> u64 list \<Rightarrow> bool" where
  "booked PublishLedger True cs cs' = (cs' = cs[0 := cs ! 0 + 1])"
| "booked PublishLedger False cs cs' = failure_counted cs cs'"
| "booked EnsureLedger True cs cs' = (cs' = cs[4 := cs ! 4 + 1])"
| "booked DeleteLedger True cs cs' = (cs' = cs[5 := cs ! 5 + 1])"
| "booked _ _ cs cs' = (cs' = cs)"

text \<open>At most \<open>n\<close> failures were counted, each at most once more as a timeout or a cancellation.\<close>

definition failures_within :: "nat \<Rightarrow> ('s, 'a, 'c) pool \<Rightarrow> ('s, 'a, 'c) pool \<Rightarrow> bool" where
  "failures_within n p p' =
     (\<exists>f t c. t + c \<le> f \<and> f \<le> n \<and> publish_failed p' = publish_failed p + of_nat f \<and>
        publish_timeouts p' = publish_timeouts p + of_nat t \<and> publish_cancelled p' = publish_cancelled p + of_nat c)"

lemma failures_withinI:
  "t + c \<le> f \<Longrightarrow> f \<le> n \<Longrightarrow> publish_failed p' = publish_failed p + of_nat f \<Longrightarrow>
   publish_timeouts p' = publish_timeouts p + of_nat t \<Longrightarrow> publish_cancelled p' = publish_cancelled p + of_nat c \<Longrightarrow>
   failures_within n p p'"
  unfolding failures_within_def by blast

lemma failures_within_refl: "failures_within 0 p p"
  by (rule failures_withinI [of 0 0 0]) simp_all

lemma failures_within_trans:
  assumes "failures_within n p p'" and "failures_within n' p' p''"
  shows "failures_within (n + n') p p''"
proof -
  from assms(1) obtain f t c where a: "t + c \<le> f" "f \<le> n" "publish_failed p' = publish_failed p + of_nat f"
    "publish_timeouts p' = publish_timeouts p + of_nat t" "publish_cancelled p' = publish_cancelled p + of_nat c"
    by (auto simp: failures_within_def)
  from assms(2) obtain f' t' c' where b: "t' + c' \<le> f'" "f' \<le> n'" "publish_failed p'' = publish_failed p' + of_nat f'"
    "publish_timeouts p'' = publish_timeouts p' + of_nat t'" "publish_cancelled p'' = publish_cancelled p' + of_nat c'"
    by (auto simp: failures_within_def)
  show ?thesis by (rule failures_withinI [of "t + t'" "c + c'" "f + f'"]) (use a b in simp_all)
qed

locale pool_operation =
  fixes run :: "('s, 'a, 'c) pool \<Rightarrow> 'r kafka_result \<times> ('s, 'a, 'c) pool"
    and book :: ledger
    and keeps_guard :: bool
  assumes guards: "active (pool_life (snd (run p))) =
      active (pool_life p) + (if keeps_guard \<and> is_ok (fst (run p)) then 1 else 0)"
    and books: "booked book (is_ok (fst (run p))) (counters p) (counters (snd (run p)))"
begin

text \<open>What the contract says of each counter.\<close>

lemma guards_run:
  "run p = (x, p') \<Longrightarrow> active (pool_life p') = active (pool_life p) + of_bool (keeps_guard \<and> is_ok x)"
  using guards [of p] by simp

lemma successes:
  assumes "run p = (x, p')"
  shows "published p' = published p + of_bool (book = PublishLedger \<and> is_ok x)"
    and "topics_ensured p' = topics_ensured p + of_bool (book = EnsureLedger \<and> is_ok x)"
    and "topics_deleted p' = topics_deleted p + of_bool (book = DeleteLedger \<and> is_ok x)"
  using books [of p] unfolding assms
  by (cases book; cases "is_ok x"; auto simp: counters_def failure_counted_def)+

lemma failures:
  assumes "run p = (x, p')"
  shows "failures_within (of_bool (book = PublishLedger \<and> \<not> is_ok x)) p p'"
proof (cases "book = PublishLedger \<and> \<not> is_ok x")
  case True
  then have "failure_counted (counters p) (counters p')" using books [of p] assms by simp
  then consider "counters p' = counters p"
    | "counters p' = (counters p)[1 := counters p ! 1 + 1]"
    | "counters p' = (counters p)[1 := counters p ! 1 + 1, 2 := counters p ! 2 + 1]"
    | "counters p' = (counters p)[1 := counters p ! 1 + 1, 3 := counters p ! 3 + 1]"
    by (auto simp: failure_counted_def)
  then show ?thesis
  proof cases
    case 1
    show ?thesis by (rule failures_withinI [of 0 0 0]) (use 1 in \<open>simp_all add: counters_def\<close>)
  next
    case 2
    show ?thesis by (rule failures_withinI [of 0 0 1]) (use 2 True in \<open>simp_all add: counters_def\<close>)
  next
    case 3
    show ?thesis by (rule failures_withinI [of 1 0 1]) (use 3 True in \<open>simp_all add: counters_def\<close>)
  next
    case 4
    show ?thesis by (rule failures_withinI [of 0 1 1]) (use 4 True in \<open>simp_all add: counters_def\<close>)
  qed
next
  case False
  have "publish_failed p' = publish_failed p" "publish_timeouts p' = publish_timeouts p"
    "publish_cancelled p' = publish_cancelled p"
    using books [of p] False assms
    by (cases book; cases "is_ok x"; simp add: counters_def)+
  then show ?thesis by (intro failures_withinI [of 0 0 0]) simp_all
qed

end

section \<open>The operations keep the contract\<close>

lemma health_check_counters:
  assumes "quiet i"
  shows "counters (snd (health_check rt drv i p)) = counters p"
  unfolding health_check_def
  by (rule with_operation_counters [OF assms, where P = "\<lambda>_ c. c = counters p"])
    (auto simp: Let_def quietD [OF assms] split: sum.split outcome.split)

lemma health_counters:
  assumes "quiet i"
  shows "counters (snd (health rt drv i p)) = counters p" "counters (snd (ping rt drv i p)) = counters p"
  using health_check_counters [OF assms, of rt drv p]
  by (cases "health_check rt drv i p"; simp add: health_def ping_def split: sum.split)+

locale quiet_calls =
  fixes rt :: "('s, 'sr, 'a, 'ar) runtime"
    and drv :: "('c, 'k, 'p) driver"
    and i1 i2 :: "('s, 'a, 'c) interference"
  assumes quiet: "quiet i1" "quiet i2"

sublocale quiet_calls \<subseteq> ping: pool_operation "ping rt drv i1" NoCounter False
  by unfold_locales (simp_all add: pool_operations_active [OF quiet(1)] health_counters [OF quiet(1)])

sublocale quiet_calls \<subseteq> health: pool_operation "health rt drv i1" NoCounter False
  by unfold_locales (simp_all add: pool_operations_active [OF quiet(1)] health_counters [OF quiet(1)])

sublocale quiet_calls \<subseteq> ensure: pool_operation "ensure_topic rt drv i1 topic n r" EnsureLedger False for topic n r
proof
  fix p
  show "active (pool_life (snd (ensure_topic rt drv i1 topic n r p))) =
      active (pool_life p) + (if False \<and> is_ok (fst (ensure_topic rt drv i1 topic n r p)) then 1 else 0)"
    by (simp add: pool_operations_active [OF quiet(1)])
  show "booked EnsureLedger (is_ok (fst (ensure_topic rt drv i1 topic n r p))) (counters p)
      (counters (snd (ensure_topic rt drv i1 topic n r p)))"
    using topic_counters [OF quiet(1), of rt drv topic n r p]
    by (cases "is_ok (fst (ensure_topic rt drv i1 topic n r p))") (simp_all add: counters_def)
qed

sublocale quiet_calls \<subseteq> deletes: pool_operation "delete_topic rt drv i1 topic" DeleteLedger False for topic
proof
  fix p
  show "active (pool_life (snd (delete_topic rt drv i1 topic p))) =
      active (pool_life p) + (if False \<and> is_ok (fst (delete_topic rt drv i1 topic p)) then 1 else 0)"
    by (simp add: pool_operations_active [OF quiet(1)])
  show "booked DeleteLedger (is_ok (fst (delete_topic rt drv i1 topic p))) (counters p)
      (counters (snd (delete_topic rt drv i1 topic p)))"
    using topic_counters [OF quiet(1), of rt drv topic 0 0 p]
    by (cases "is_ok (fst (delete_topic rt drv i1 topic p))") (simp_all add: counters_def)
qed

sublocale quiet_calls \<subseteq> publishes: pool_operation "publish rt drv i1 i2 now r" PublishLedger False for now r
proof
  fix p
  show "active (pool_life (snd (publish rt drv i1 i2 now r p))) =
      active (pool_life p) + (if False \<and> is_ok (fst (publish rt drv i1 i2 now r p)) then 1 else 0)"
    by (simp add: publish_active [OF quiet])
  show "booked PublishLedger (is_ok (fst (publish rt drv i1 i2 now r p))) (counters p)
      (counters (snd (publish rt drv i1 i2 now r p)))"
    using publish_counters [OF quiet, where rt = rt and drv = drv and now = now and r = r and p = p]
    by (cases "publish rt drv i1 i2 now r p"; cases "fst (publish rt drv i1 i2 now r p)")
      (auto simp: failure_counted_def counters_def)
qed

sublocale quiet_calls \<subseteq> sessions: pool_operation "pool_consumer rt drv i1 i2 c" NoCounter True for c
  by unfold_locales (simp_all add: pool_consumer_active [OF quiet])

interpretation alone_calls: quiet_calls rt drv alone alone for rt drv
  by unfold_locales (rule alone_quiet)+

context quiet_calls
begin

text \<open>One call, whatever it is.\<close>

lemma run_call_cases:
  assumes "run_call rt drv i1 i2 call p = (r, p')"
  obtains (ping) x where "ping rt drv i1 p = (x, p')" "r = ReplyPing x"
  | (health) x where "health rt drv i1 p = (x, p')" "r = ReplyHealth x"
  | (ensure) topic n k x where "ensure_topic rt drv i1 topic n k p = (x, p')" "r = ReplyEnsured x"
  | (deletes) topic x where "delete_topic rt drv i1 topic p = (x, p')" "r = ReplyDeleted x"
  | (publishes) now rec x where "publish rt drv i1 i2 now rec p = (x, p')" "r = ReplyDelivery x"
  | (sessions) c x where "pool_consumer rt drv i1 i2 c p = (x, p')" "r = ReplySession x"
  using assms by (cases call) (auto simp: map_prod_def split: prod.splits)

lemma call_account:
  assumes "run_call rt drv i1 i2 call p = (r, p')"
  shows "active (pool_life p') = active (pool_life p) + of_bool (ok_session r)"
    and "published p' = published p + of_bool (ok_delivery r)"
    and "topics_ensured p' = topics_ensured p + of_bool (ok_ensured r)"
    and "topics_deleted p' = topics_deleted p + of_bool (ok_deleted r)"
    and "failures_within (of_bool (failed_delivery r)) p p'"
proof -
  have "active (pool_life p') = active (pool_life p) + of_bool (ok_session r) \<and>
    published p' = published p + of_bool (ok_delivery r) \<and>
    topics_ensured p' = topics_ensured p + of_bool (ok_ensured r) \<and>
    topics_deleted p' = topics_deleted p + of_bool (ok_deleted r) \<and>
    failures_within (of_bool (failed_delivery r)) p p'"
    using assms
  proof (cases rule: run_call_cases)
  case (ping x)
  with ping.guards_run [OF ping(1)] ping.successes [OF ping(1)] ping.failures [OF ping(1)] show ?thesis by simp
next
  case (health x)
  with health.guards_run [OF health(1)] health.successes [OF health(1)] health.failures [OF health(1)] show ?thesis by simp
next
  case (ensure topic n k x)
  with ensure.guards_run [OF ensure(1)] ensure.successes [OF ensure(1)] ensure.failures [OF ensure(1)] show ?thesis by simp
next
  case (deletes topic x)
  with deletes.guards_run [OF deletes(1)] deletes.successes [OF deletes(1)] deletes.failures [OF deletes(1)] show ?thesis by simp
next
  case (publishes now rec x)
  with publishes.guards_run [OF publishes(1)] publishes.successes [OF publishes(1)] publishes.failures [OF publishes(1)] show ?thesis by simp
next
  case (sessions c x)
  with sessions.guards_run [OF sessions(1)] sessions.successes [OF sessions(1)] sessions.failures [OF sessions(1)] show ?thesis by simp
qed
  then show "active (pool_life p') = active (pool_life p) + of_bool (ok_session r)"
    and "published p' = published p + of_bool (ok_delivery r)"
    and "topics_ensured p' = topics_ensured p + of_bool (ok_ensured r)"
    and "topics_deleted p' = topics_deleted p + of_bool (ok_deleted r)"
    and "failures_within (of_bool (failed_delivery r)) p p'"
    by simp_all
qed

end

section \<open>Runs\<close>

definition quiet_step :: "('s, 'a, 'c) api_step \<Rightarrow> bool" where
  "quiet_step x = (case x of (i1, i2, call) \<Rightarrow> quiet i1 \<and> quiet i2)"

lemma run_calls_account:
  assumes "list_all quiet_step xs" and "run_calls rt drv xs p = (rs, p')"
  shows "active (pool_life p') = active (pool_life p) + of_nat (how_many ok_session rs) \<and>
    published p' = published p + of_nat (how_many ok_delivery rs) \<and>
    topics_ensured p' = topics_ensured p + of_nat (how_many ok_ensured rs) \<and>
    topics_deleted p' = topics_deleted p + of_nat (how_many ok_deleted rs) \<and>
    failures_within (how_many failed_delivery rs) p p'"
  using assms
proof (induction xs arbitrary: p rs)
  case (Cons x xs)
  obtain i1 i2 call where x: "x = (i1, i2, call)" by (cases x)
  with Cons.prems(1) have q: "quiet_calls i1 i2" by (simp add: quiet_step_def quiet_calls_def)
  obtain r p1 where r: "run_call rt drv i1 i2 call p = (r, p1)" by fastforce
  obtain rs' q' where rs: "run_calls rt drv xs p1 = (rs', q')" by fastforce
  with Cons.prems(2) x r have eq: "rs = r # rs'" "p' = q'" by auto
  note one = quiet_calls.call_account [OF q r]
  from Cons.IH [of p1 rs'] Cons.prems(1) rs eq
  have rest: "active (pool_life p') = active (pool_life p1) + of_nat (how_many ok_session rs')"
    "published p' = published p1 + of_nat (how_many ok_delivery rs')"
    "topics_ensured p' = topics_ensured p1 + of_nat (how_many ok_ensured rs')"
    "topics_deleted p' = topics_deleted p1 + of_nat (how_many ok_deleted rs')"
    "failures_within (how_many failed_delivery rs') p1 p'"
    by simp_all
  show ?case using one(1-4) rest(1-4) failures_within_trans [OF one(5) rest(5)] by (simp add: eq)
qed (simp add: failures_within_refl)




lemma record_publish_cancelled_closed [simp]: "pool_is_closed (record_publish_cancelled p) = pool_is_closed p"
  by (simp add: pool_is_closed_def)



section \<open>Properties\<close>

text \<open>C18. The statistics of a client program are exact: over any sequence of calls, \<open>published\<close>,
  \<open>topics_ensured\<close> and \<open>topics_deleted\<close> grow by the number of calls that returned \<open>Ok\<close>, and
  \<open>publish_failed\<close> by at most the number of failing publishes, of which each is counted at most once
  more, as a timeout or as a cancellation.\<close>

theorem client_statistics:
  assumes "list_all quiet_step xs" and "run_calls rt drv xs p = (rs, p')"
  shows "st_published (stats p') = st_published (stats p) + of_nat (how_many ok_delivery rs) \<and>
    st_topics_ensured (stats p') = st_topics_ensured (stats p) + of_nat (how_many ok_ensured rs) \<and>
    st_topics_deleted (stats p') = st_topics_deleted (stats p) + of_nat (how_many ok_deleted rs) \<and>
    (\<exists>f t c. t + c \<le> f \<and> f \<le> how_many failed_delivery rs \<and>
       st_publish_failed (stats p') = st_publish_failed (stats p) + of_nat f \<and>
       st_publish_timeouts (stats p') = st_publish_timeouts (stats p) + of_nat t \<and>
       st_publish_cancelled (stats p') = st_publish_cancelled (stats p) + of_nat c)"
  using run_calls_account [OF assms] by (simp add: stats_def failures_within_def)

text \<open>Two calls: a publish that is acknowledged, and a topic request with an empty name.\<close>

definition sample_calls :: "(bool \<times> nat, u64 \<times> nat, unit) api_step list" where
  "sample_calls = [(alone, alone, CallPublish 0 (publish_payload ''t'' 1 [])), (alone, alone, CallDeleteTopic [])]"

lemma sample_calls_run:
  "run_calls sample_rt (sample_driver [42]) sample_calls sample_pool =
     ([ReplyDelivery (Inr \<lparr>dl_partition = 1, dl_offset = 42\<rparr>), ReplyDeleted (Inl (Config msg_topic_empty))],
      sample_pool\<lparr>published := 1,
        pool_life := notify_activity sample_rt (notify_activity sample_rt (pool_life sample_pool))\<rparr>)"
  by (simp add: sample_calls_def sample_publish delete_topic_def)

lemma sample_calls_quiet: "list_all quiet_step sample_calls"
  by (simp add: sample_calls_def quiet_step_def alone_quiet)

theorem client_statistics_witness:
  "st_published (stats (snd (run_calls sample_rt (sample_driver [42]) sample_calls sample_pool))) = 1"
  using client_statistics [OF sample_calls_quiet sample_calls_run] unfolding sample_calls_run
  by (simp add: stats_def sample_pool_def)

lemma sample_connect:
  "snd (connect sample_url undefined None (\<lambda>_. Some (5, Inr ())) sample_rt default_config) = Inr sample_pool"
  using default_config_valid
  by (simp add: connect_def connect_inner_def build_client_def future_bind_def timeout_def fresh_pool_def
      sample_pool_def default_config_def sasl_credentials_def from_secs_def flip: validate_ok)

text \<open>C11. A client program leaks no guard: after any sequence of calls on a pool from \<open>connect\<close>, whatever
  the calls returned, the operations in flight are the consumer sessions it opened; without one,
  \<open>close\<close> finds nothing to wait for.\<close>

theorem client_leaks_no_guard:
  assumes "snd (connect parse api blocking build_driver rt c) = Inr p"
    and "list_all quiet_step xs" and "run_calls rt drv xs p = (rs, p')"
  shows "active (pool_life p') = of_nat (how_many ok_session rs) \<and>
    (how_many ok_session rs = 0 \<longrightarrow> active (pool_life (pool_begin_close rt p')) = 0)"
  using run_calls_account [OF assms(2,3)] connect_fresh(2) [OF assms(1)]
  by (simp add: lifecycle_new_def pool_begin_close_def begin_close_def life_defs)

theorem client_leaks_no_guard_witness:
  "active (pool_life (pool_begin_close sample_rt
     (snd (run_calls sample_rt (sample_driver [42]) sample_calls sample_pool)))) = 0"
  using client_leaks_no_guard [OF sample_connect sample_calls_quiet sample_calls_run]
  by (simp add: sample_calls_run)


text \<open>C34. Every message of a session carries its location: its topic and partition are those of the
  session, and its bus id is read back by \<open>parse_bus_id\<close> as topic, partition and offset.\<close>

theorem received_bus_ids_parse:
  assumes "mpsc_laws api" and "session_reachable api topic part s" and "topic \<noteq> []"
    and "Inr m \<in> set (ss_received s)"
  shows "km_topic m = topic \<and> km_partition m = part \<and> parse_bus_id (bus_id m) = Some (topic, part, km_offset m)"
proof -
  from session_inv_reachable [OF assms(2,1)] obtain rest where
    "map (to_output topic part) (ss_pulled s) = ss_received s @ rest"
    by (auto simp: session_inv_alt ordered_flow_def)
  with assms(4) obtain item where "to_output topic part item = Inr m"
    by (metis Un_iff imageE list.set_map set_append)
  then show ?thesis using assms(3)
    by (auto simp: to_output_def to_message_def bus_id_def parse_encoded split: sum.splits prod.splits)
qed

text \<open>A session that has delivered one message.\<close>

definition one_received :: "(kafka_message kafka_result list \<times> nat) session" where
  "one_received =
     \<lparr>ss_closed = False, ss_signal = False, ss_task = TaskPull, ss_queue = ([], 64), ss_receiving = False,
      ss_pulled = [sample_item 7], ss_received = [to_output ''t'' 0 (sample_item 7)]\<rparr>"

lemma one_received_reachable: "session_reachable list_mpsc ''t'' 0 one_received"
proof -
  note go = session_reachable.step [where api = list_mpsc and topic = "''t''" and part = 0]
  let ?out = "to_output ''t'' 0 (sample_item 7)"
  have ok: "is_ok ?out" by (simp add: to_output_def sample_item_def)
  have 1: "session_reachable list_mpsc ''t'' 0 (session_init list_mpsc)" by (rule session_reachable.start)
  from go [OF 1 pull_item [where item = "sample_item 7"]]
  have 2: "session_reachable list_mpsc ''t'' 0 (one_received\<lparr>ss_task := TaskSend ?out, ss_received := []\<rparr>)"
    by (simp add: session_init_def one_received_def list_mpsc_def consumer_buffer_capacity_def)
  from go [OF 2 send_item [where out = ?out and q = "([?out], 64)"]] ok
  have 3: "session_reachable list_mpsc ''t'' 0 (one_received\<lparr>ss_queue := ([?out], 64), ss_received := []\<rparr>)"
    by (simp add: one_received_def list_mpsc_def)
  from go [OF 3 recv_check]
  have 4: "session_reachable list_mpsc ''t'' 0
      (one_received\<lparr>ss_queue := ([?out], 64), ss_received := [], ss_receiving := True\<rparr>)"
    by (simp add: one_received_def)
  from go [OF 4 recv_done [where r = "Some ?out" and q = "([], 64)"]] show ?thesis
    by (simp add: one_received_def list_mpsc_def consumer_recv_def)
qed

theorem received_bus_ids_parse_witness:
  "parse_bus_id (bus_id (to_message ''t'' 0 \<lparr>fe_offset = 7, fe_key = None, fe_value = None, fe_headers = Map.empty,
     fe_timestamp = 0\<rparr>)) = Some (''t'', 0, 7)"
  using received_bus_ids_parse [OF list_mpsc_laws one_received_reachable, of "to_message ''t'' 0
      \<lparr>fe_offset = 7, fe_key = None, fe_value = None, fe_headers = Map.empty, fe_timestamp = 0\<rparr>"]
  by (simp add: one_received_def to_output_def sample_item_def to_message_def)

end
