(* ===== verification/File_Locking.thy ===== *)
theory File_Locking
  imports File_Contract
begin

text \<open>
  \<open>src/offset.rs\<close>, concurrent callers of one file store. An operation is a program of atomic system
  calls, and any number of callers interleave at these calls, with the async mutex of the store,
  the blocking task that owns the guard, and callers that drop the future while they wait for the
  lock or for the task. The lock makes the operations of \<open>File_Store\<close> atomic: every run is
  equivalent to a serial one, no acknowledged commit is lost, not even by a crash in the middle of
  another caller's commit, and the lock is released again.
\<close>

section \<open>Programs\<close>

text \<open>A program has returned, or makes its next atomic call, which gives the rest of the program.\<close>

datatype 'a prog = Return "'a kafka_result" | Call "world \<Rightarrow> 'a prog \<times> world"

primrec run_prog :: "'a prog \<Rightarrow> 'a io" where
  "run_prog (Return r) = (\<lambda>w. (r, w))"
| "run_prog (Call f) = (\<lambda>w. case map_prod run_prog id (f w) of (rest, w') \<Rightarrow> rest w')"

primrec prog_bind :: "'a prog \<Rightarrow> ('a \<Rightarrow> 'b prog) \<Rightarrow> 'b prog" where
  "prog_bind (Return r) k = (case r of Inl e \<Rightarrow> Return (Inl e) | Inr x \<Rightarrow> k x)"
| "prog_bind (Call f) k = Call (\<lambda>w. map_prod (\<lambda>p. prog_bind p k) id (f w))"

definition atomic :: "'a io \<Rightarrow> 'a prog" where
  "atomic m = Call (\<lambda>w. case m w of (r, w') \<Rightarrow> (Return r, w'))"

text \<open>\<open>spawn_blocking(task).await\<close>: the task starts, or is reported as not run.\<close>

definition blocking :: "'a prog \<Rightarrow> 'a prog" where
  "blocking task =
     Call (\<lambda>w. case w_joins w of
         Some e # rest \<Rightarrow> (Return (Inl (Io (IoError Other e))), w\<lparr>w_joins := rest\<rparr>)
       | joins \<Rightarrow> (task, w\<lparr>w_joins := tl joins\<rparr>))"

lemma run_prog_bind: "run_prog (prog_bind p k) = io_bind (run_prog p) (\<lambda>x. run_prog (k x))"
proof (induction p)
  case (Return r)
  then show ?case by (auto simp: fun_eq_iff io_bind_def split: sum.splits)
next
  case (Call f)
  show ?case
  proof
    fix w
    obtain p w' where f: "f w = (p, w')" by fastforce
    then have "run_prog (prog_bind p k) = io_bind (run_prog p) (\<lambda>x. run_prog (k x))"
      by (intro Call [of "f w" p]) (auto intro: range_eqI [of _ f w])
    then show "run_prog (prog_bind (Call f) k) w = io_bind (run_prog (Call f)) (\<lambda>x. run_prog (k x)) w"
      by (simp add: f io_bind_def)
  qed
qed

lemma run_prog_atomic: "run_prog (atomic m) = m"
  by (auto simp: fun_eq_iff atomic_def split: prod.splits)

lemma run_prog_blocking: "run_prog (blocking task) = spawn_blocking (run_prog task)"
  by (auto simp: fun_eq_iff blocking_def spawn_blocking_def split: list.splits option.splits)

lemma run_prog_return: "run_prog (Return r) = io_return r"
  by (simp add: fun_eq_iff io_return_def)

lemmas run_prog_simps = run_prog_bind run_prog_atomic run_prog_blocking run_prog_return

declare run_prog.simps(1) [simp del]

lemma io_bind_return: "io_bind (io_return (Inr x)) f = f x"
  by (simp add: fun_eq_iff io_bind_def io_return_def)

section \<open>The operations as programs\<close>

definition load_prog :: "path_buf \<Rightarrow> offset_map prog" where
  "load_prog path =
     prog_bind (atomic (sys_exists (pb_name path))) (\<lambda>there.
     if \<not> there then Return (Inr [])
     else prog_bind (atomic (sys_read_to_string (pb_name path))) (\<lambda>text.
          Return (load_text text)))"

definition save_prog :: "path_buf \<Rightarrow> offset_map \<Rightarrow> unit prog" where
  "save_prog path m =
     prog_bind (if pb_parent path \<noteq> [] then atomic sys_create_dir_all else Return (Inr ())) (\<lambda>_.
     prog_bind (atomic (sys_open_truncate (tmp_name path))) (\<lambda>file.
     prog_bind (atomic (sys_write_all file (offset_body m))) (\<lambda>_.
     prog_bind (atomic (sys_sync_all file)) (\<lambda>_.
     prog_bind (atomic (sys_rename (tmp_name path) (pb_name path))) (\<lambda>_.
     prog_bind (atomic sys_open_dir) (\<lambda>_.
     atomic sys_sync_dir))))))"

text \<open>A call of the trait, and what it replies.\<close>

datatype file_op = OpCommit string i32 i64 | OpCommitted string i32

datatype reply = Stored | Position "i64 option"

text \<open>What a call does before it asks for the lock.\<close>

definition op_check :: "file_op \<Rightarrow> unit kafka_result" where
  "op_check op =
     (case op of OpCommit _ _ offset \<Rightarrow> map_sum id (\<lambda>_. ()) (next_offset_of offset) | OpCommitted _ _ \<Rightarrow> Inr ())"

text \<open>What it does with the lock.\<close>

definition op_prog :: "path_buf \<Rightarrow> file_op \<Rightarrow> reply prog" where
  "op_prog path op =
     (case op of
        OpCommit topic part offset \<Rightarrow>
          (case next_offset_of offset of
             Inl e \<Rightarrow> Return (Inl e)
           | Inr n \<Rightarrow>
               blocking
                 (prog_bind (load_prog path) (\<lambda>m.
                  prog_bind (save_prog path (entry_max m (topic, part) n)) (\<lambda>_.
                  Return (Inr Stored)))))
      | OpCommitted topic part \<Rightarrow>
          blocking
            (prog_bind (load_prog path) (\<lambda>m. Return (Inr (Position (map_of m (topic, part)))))))"

text \<open>The operation as one transition.\<close>

definition op_run :: "path_buf \<Rightarrow> file_op \<Rightarrow> reply io" where
  "op_run path op w =
     (case op of
        OpCommit topic part offset \<Rightarrow> apfst (map_sum id (\<lambda>_. Stored)) (file_commit path w topic part offset)
      | OpCommitted topic part \<Rightarrow> apfst (map_sum id Position) (file_committed path w topic part))"

lemma run_load_prog: "run_prog (load_prog path) = load_map path"
  by (simp add: load_prog_def load_map_def run_prog_simps if_distrib cong: if_cong)

lemma run_save_prog: "run_prog (save_prog path m) = save_map path m"
  by (simp add: save_prog_def save_map_def run_prog_simps io_bind_return)

lemma spawn_map:
  "spawn_blocking (io_bind m (\<lambda>x. io_return (Inr (f x)))) w = apfst (map_sum id f) (spawn_blocking m w)"
  by (auto simp: spawn_blocking_def io_bind_def io_return_def split: list.splits option.splits prod.splits sum.splits)

lemma io_bind_assoc: "io_bind (io_bind m f) g = io_bind m (\<lambda>x. io_bind (f x) g)"
  by (auto simp: fun_eq_iff io_bind_def split: prod.splits sum.splits)

text \<open>Alone, the programs are the operations of \<open>File_Store\<close>.\<close>

lemma run_op_prog: "run_prog (op_prog path op) = op_run path op"
proof (cases op)
  case (OpCommit topic part offset)
  then show ?thesis
    by (auto simp: fun_eq_iff op_prog_def op_run_def file_commit_def run_prog_simps run_load_prog
        run_save_prog spawn_map io_bind_assoc [symmetric]  split: sum.splits) (simp add: io_return_def)
next
  case (OpCommitted topic part)
  then show ?thesis
    by (simp add: fun_eq_iff op_prog_def op_run_def file_committed_def OpCommitted run_prog_simps
        run_load_prog spawn_map apfst_compose sum.map_comp comp_def id_def)
qed

lemma op_check_Inl: "op_check op = Inl e \<Longrightarrow> op_run path op w = (Inl e, w)"
  by (auto simp: op_check_def op_run_def file_commit_def split: file_op.splits sum.splits)

section \<open>Callers and the lock\<close>

text \<open>
  Where a call is: waiting for the lock; with a blocking task that owns the guard, its program
  and whether the caller still awaits it; done; or dropped by its caller.
\<close>

datatype call_phase =
    Queued file_op
  | Working bool file_op "reply prog"
  | Replied file_op "reply kafka_result"
  | Abandoned

text \<open>The log of finished operations exists only in the model.\<close>

record store_tasks =
  sk_world :: world
  sk_holder :: "nat option"
  sk_call :: "nat \<Rightarrow> call_phase option"
  sk_log :: "(nat \<times> file_op \<times> reply kafka_result) list"

datatype label = Invoke nat file_op | Acquire nat | Advance nat | Release nat | Cancel nat

definition set_call :: "nat \<Rightarrow> call_phase \<Rightarrow> store_tasks \<Rightarrow> store_tasks" where
  "set_call i c s = s\<lparr>sk_call := (sk_call s)(i \<mapsto> c)\<rparr>"

definition add_log :: "nat \<Rightarrow> file_op \<Rightarrow> reply kafka_result \<Rightarrow> store_tasks \<Rightarrow> store_tasks" where
  "add_log i op r s = s\<lparr>sk_log := sk_log s @ [(i, op, r)]\<rparr>"

text \<open>
  One step. A call that the check refuses never asks for the lock; a guard is dropped at the end
  of the blocking task, also when nobody awaits the task any more.
\<close>

fun store_step :: "path_buf \<Rightarrow> label \<Rightarrow> store_tasks \<Rightarrow> store_tasks option" where
  "store_step path (Invoke i op) s =
     (if sk_call s i \<noteq> None then None
      else case op_check op of
             Inl e \<Rightarrow> Some (set_call i (Replied op (Inl e)) (add_log i op (Inl e) s))
           | Inr _ \<Rightarrow> Some (set_call i (Queued op) s))"
| "store_step path (Acquire i) s =
     (case sk_call s i of
        Some (Queued op) \<Rightarrow>
          if sk_holder s = None
          then Some (set_call i (Working True op (op_prog path op)) (s\<lparr>sk_holder := Some i\<rparr>)) else None
      | _ \<Rightarrow> None)"
| "store_step path (Advance i) s =
     (case sk_call s i of
        Some (Working awaited op (Call f)) \<Rightarrow>
          (case f (sk_world s) of
             (rest, w) \<Rightarrow> Some (set_call i (Working awaited op rest) (s\<lparr>sk_world := w\<rparr>)))
      | _ \<Rightarrow> None)"
| "store_step path (Release i) s =
     (case sk_call s i of
        Some (Working awaited op (Return r)) \<Rightarrow>
          Some (set_call i (if awaited then Replied op r else Abandoned)
                  (add_log i op r (s\<lparr>sk_holder := None\<rparr>)))
      | _ \<Rightarrow> None)"
| "store_step path (Cancel i) s =
     (case sk_call s i of
        Some (Queued op) \<Rightarrow> Some (set_call i Abandoned s)
      | Some (Working True op p) \<Rightarrow> Some (set_call i (Working False op p) s)
      | _ \<Rightarrow> None)"

fun run_labels :: "path_buf \<Rightarrow> label list \<Rightarrow> store_tasks \<Rightarrow> store_tasks option" where
  "run_labels path [] s = Some s"
| "run_labels path (l # ls) s = Option.bind (store_step path l s) (run_labels path ls)"

definition store_start :: "world \<Rightarrow> store_tasks" where
  "store_start w = \<lparr>sk_world = w, sk_holder = None, sk_call = (\<lambda>_. None), sk_log = []\<rparr>"

text \<open>The serial runs they are compared with.\<close>

fun serial_run :: "path_buf \<Rightarrow> world \<Rightarrow> file_op list \<Rightarrow> reply kafka_result list \<times> world" where
  "serial_run path w [] = ([], w)"
| "serial_run path w (op # ops) =
     (case op_run path op w of (r, w') \<Rightarrow>
        (case serial_run path w' ops of (rs, w'') \<Rightarrow> (r # rs, w'')))"

lemma serial_run_append:
  "serial_run path w (ops @ [op]) =
     (case serial_run path w ops of (rs, w') \<Rightarrow>
        (case op_run path op w' of (r, w'') \<Rightarrow> (rs @ [r], w'')))"
  by (induction ops arbitrary: w) (auto split: prod.splits)

lemma run_labels_append:
  "run_labels path (ls @ ls') s = Option.bind (run_labels path ls s) (run_labels path ls')"
  by (induction ls arbitrary: s) (auto simp: Option.bind_eq_Some_conv split: bind_splits)

lemma run_labels_induct [consumes 2, case_names step]:
  assumes "run_labels path ls s = Some s'" and "P s"
    and "\<And>l t t'. l \<in> set ls \<Longrightarrow> P t \<Longrightarrow> store_step path l t = Some t' \<Longrightarrow> P t'"
  shows "P s'"
  using assms by (induction ls arbitrary: s) (auto simp: Option.bind_eq_Some_conv)

text \<open>The steps by the phase of the call.\<close>

lemma store_step_cases:
  assumes "store_step path l s = Some s'"
  obtains (refused) i op e where "l = Invoke i op" "sk_call s i = None" "op_check op = Inl e"
      "s' = set_call i (Replied op (Inl e)) (add_log i op (Inl e) s)"
  | (queued) i op where "l = Invoke i op" "sk_call s i = None" "op_check op = Inr ()"
      "s' = set_call i (Queued op) s"
  | (acquired) i op where "l = Acquire i" "sk_call s i = Some (Queued op)" "sk_holder s = None"
      "s' = set_call i (Working True op (op_prog path op)) (s\<lparr>sk_holder := Some i\<rparr>)"
  | (advanced) i a op f p w where "l = Advance i" "sk_call s i = Some (Working a op (Call f))"
      "f (sk_world s) = (p, w)" "s' = set_call i (Working a op p) (s\<lparr>sk_world := w\<rparr>)"
  | (released) i a op r where "l = Release i" "sk_call s i = Some (Working a op (Return r))"
      "s' = set_call i (if a then Replied op r else Abandoned) (add_log i op r (s\<lparr>sk_holder := None\<rparr>))"
  | (dropped) i op where "l = Cancel i" "sk_call s i = Some (Queued op)" "s' = set_call i Abandoned s"
  | (detached) i op p where "l = Cancel i" "sk_call s i = Some (Working True op p)"
      "s' = set_call i (Working False op p) s"
  using assms
  by (cases l)
    (auto split: if_splits sum.splits option.splits call_phase.splits prog.splits prod.splits bool.splits)

lemmas sk_defs = set_call_def add_log_def

section \<open>Serial equivalence\<close>

text \<open>Only the holder of the lock works, and what is left of its program completes its operation
  on the world of the serial run.\<close>

definition only_worker :: "nat option \<Rightarrow> store_tasks \<Rightarrow> bool" where
  "only_worker h s = (\<forall>i a op p. sk_call s i = Some (Working a op p) \<longrightarrow> h = Some i)"

lemma only_workerD: "only_worker h s \<Longrightarrow> sk_call s i = Some (Working a op p) \<Longrightarrow> h = Some i"
  by (auto simp: only_worker_def)

text \<open>A call is logged when it is done, once.\<close>

definition unlogged :: "call_phase option \<Rightarrow> bool" where
  "unlogged c =
     (case c of None \<Rightarrow> True | Some (Queued _) \<Rightarrow> True | Some (Working _ _ _) \<Rightarrow> True | _ \<Rightarrow> False)"

definition serial_inv :: "path_buf \<Rightarrow> world \<Rightarrow> store_tasks \<Rightarrow> bool" where
  "serial_inv path w0 s =
     (\<exists>W. serial_run path w0 (map (fst \<circ> snd) (sk_log s)) = (map (snd \<circ> snd) (sk_log s), W) \<and>
          only_worker (sk_holder s) s \<and>
          (case sk_holder s of
             None \<Rightarrow> sk_world s = W
           | Some i \<Rightarrow> \<exists>a op p. sk_call s i = Some (Working a op p) \<and>
                         run_prog p (sk_world s) = op_run path op W) \<and>
          (\<forall>i op r. sk_call s i = Some (Replied op r) \<longrightarrow> (i, op, r) \<in> set (sk_log s)) \<and>
          (\<forall>i. unlogged (sk_call s i) \<longrightarrow> i \<notin> fst ` set (sk_log s)) \<and>
          distinct (map fst (sk_log s)))"

lemma serial_inv_start: "serial_inv path w0 (store_start w0)"
  by (simp add: serial_inv_def store_start_def only_worker_def)

lemma serial_inv_step:
  assumes "serial_inv path w0 s" and "store_step path l s = Some s'"
  shows "serial_inv path w0 s'"
proof -
  obtain W where W: "serial_run path w0 (map (fst \<circ> snd) (sk_log s)) = (map (snd \<circ> snd) (sk_log s), W)"
    and worker: "only_worker (sk_holder s) s"
    and rest: "case sk_holder s of None \<Rightarrow> sk_world s = W
        | Some i \<Rightarrow> \<exists>a op p. sk_call s i = Some (Working a op p) \<and> run_prog p (sk_world s) = op_run path op W"
    and replied: "\<forall>i op r. sk_call s i = Some (Replied op r) \<longrightarrow> (i, op, r) \<in> set (sk_log s)"
    and fresh: "\<forall>i. unlogged (sk_call s i) \<longrightarrow> i \<notin> fst ` set (sk_log s)" "distinct (map fst (sk_log s))"
    using assms(1) by (auto simp: serial_inv_def)
  show ?thesis using assms(2)
  proof (cases rule: store_step_cases)
    case (refused i op e)
    then have "op_run path op W = (Inl e, W)" by (simp add: op_check_Inl)
    with refused W worker rest replied fresh show ?thesis
      by (auto simp: serial_inv_def sk_defs only_worker_def unlogged_def serial_run_append split: option.splits)
  next
    case (acquired i op)
    with W worker rest replied fresh show ?thesis
      by (auto simp: serial_inv_def sk_defs only_worker_def unlogged_def run_op_prog)
  next
    case (advanced i a op f p w)
    then have i: "sk_holder s = Some i" using only_workerD [OF worker] by blast
    with advanced rest have "run_prog p w = op_run path op W" by simp
    with i advanced W worker replied fresh show ?thesis
      by (auto simp: serial_inv_def sk_defs only_worker_def unlogged_def)
  next
    case (released i a op r)
    then have i: "sk_holder s = Some i" using only_workerD [OF worker] by blast
    with released rest have "op_run path op W = (r, sk_world s)" by (simp add: run_prog.simps(1))
    with i released W worker replied fresh show ?thesis
      by (auto simp: serial_inv_def sk_defs only_worker_def unlogged_def serial_run_append)
  next
    case (detached i op p)
    then have i: "sk_holder s = Some i" using only_workerD [OF worker] by blast
    with detached W worker rest replied fresh show ?thesis
      by (auto simp: serial_inv_def sk_defs only_worker_def unlogged_def)
  qed (use W worker rest replied fresh in
        \<open>auto simp: serial_inv_def sk_defs only_worker_def unlogged_def split: option.splits\<close>)
qed

lemma serial_inv_run: "run_labels path ls (store_start w0) = Some s \<Longrightarrow> serial_inv path w0 s"
  by (erule run_labels_induct) (auto intro: serial_inv_start serial_inv_step)

lemma log_grows: "run_labels path ls s = Some s' \<Longrightarrow> \<exists>more. sk_log s' = sk_log s @ more"
proof (erule run_labels_induct)
  fix l t t' assume "\<exists>more. sk_log t = sk_log s @ more" and "store_step path l t = Some t'"
  from this(2) this(1) show "\<exists>more. sk_log t' = sk_log s @ more"
    by (cases rule: store_step_cases) (auto simp: sk_defs)
qed simp

section \<open>The lock is released\<close>

text \<open>The program returns after at most so many calls, whatever their outcomes.\<close>

fun ends_within :: "nat \<Rightarrow> 'a prog \<Rightarrow> bool" where
  "ends_within n (Return r) = True"
| "ends_within 0 (Call f) = False"
| "ends_within (Suc n) (Call f) = (\<forall>w. ends_within n (fst (f w)))"

lemma ends_within_mono: "ends_within m p \<Longrightarrow> m \<le> n \<Longrightarrow> ends_within n p"
  by (induction m p arbitrary: n rule: ends_within.induct) (auto simp: Suc_le_eq gr0_conv_Suc le_Suc_eq elim!: less_natE)

lemma ends_within_bind:
  "ends_within m p \<Longrightarrow> (\<And>x. ends_within n (k x)) \<Longrightarrow> ends_within (m + n) (prog_bind p k)"
proof (induction m p rule: ends_within.induct)
  case (1 m r)
  then show ?case by (auto split: sum.splits intro: ends_within_mono [of n])
qed auto

lemma ends_within_atomic: "ends_within (Suc 0) (atomic m)"
  by (auto simp: atomic_def split: prod.splits)

lemma ends_within_blocking: "ends_within n p \<Longrightarrow> ends_within (Suc n) (blocking p)"
  by (auto simp: blocking_def split: list.splits option.splits)

lemma ends_within_load: "ends_within 2 (load_prog path)"
proof -
  have "ends_within (Suc 0 + 0) (prog_bind (atomic (sys_read_to_string name)) (\<lambda>text. Return (load_text text)))"
    for name by (intro ends_within_bind ends_within_atomic) simp
  then have "ends_within (Suc 0 + Suc 0) (load_prog path)"
    unfolding load_prog_def by (intro ends_within_bind ends_within_atomic) simp
  then show ?thesis by (simp add: numeral_2_eq_2)
qed

lemma ends_within_save: "ends_within 7 (save_prog path m)"
proof -
  have "ends_within (Suc 0 + (Suc 0 + (Suc 0 + (Suc 0 + (Suc 0 + (Suc 0 + Suc 0)))))) (save_prog path m)"
    unfolding save_prog_def by (intro ends_within_bind) (auto intro: ends_within_atomic)
  then show ?thesis by (simp add: eval_nat_numeral)
qed

text \<open>The longest operation: the task, the two calls of the load and the seven of the write.\<close>

lemma ends_within_op: "ends_within 10 (op_prog path op)"
proof (cases op)
  case (OpCommit t p off)
  have "ends_within (Suc (2 + (7 + 0)))
      (blocking (prog_bind (load_prog path) (\<lambda>m.
         prog_bind (save_prog path (entry_max m (t, p) n)) (\<lambda>_. Return (Inr Stored)))))" for n
    by (intro ends_within_blocking ends_within_bind ends_within_load ends_within_save) simp
  then show ?thesis by (simp add: op_prog_def OpCommit split: sum.splits)
next
  case (OpCommitted t p)
  have "ends_within (Suc (2 + 0))
      (blocking (prog_bind (load_prog path) (\<lambda>m. Return (Inr (Position (map_of m (t, p)))))))"
    by (intro ends_within_blocking ends_within_bind ends_within_load) simp
  then show ?thesis by (simp add: op_prog_def OpCommitted) (rule ends_within_mono, auto)
qed

definition bounded_work :: "store_tasks \<Rightarrow> bool" where
  "bounded_work s = (\<forall>i a op p. sk_call s i = Some (Working a op p) \<longrightarrow> ends_within 10 p)"

lemma bounded_work_step:
  assumes "bounded_work s" and "store_step path l s = Some s'"
  shows "bounded_work s'"
  using assms(2)
proof (cases rule: store_step_cases)
  case (advanced i a op f p w)
  have "ends_within 10 (Call f)" using assms(1) advanced(2) by (auto simp: bounded_work_def)
  then have "ends_within (Suc 9) (Call f)" by simp
  then have "ends_within 9 p" using advanced(3) by (metis ends_within.simps(3) fst_conv)
  then have "ends_within 10 p" by (rule ends_within_mono) simp
  with advanced assms(1) show ?thesis by (auto simp: bounded_work_def sk_defs)
qed (use assms(1) ends_within_op in \<open>auto simp: bounded_work_def sk_defs split: if_splits\<close>)

lemma bounded_work_run: "run_labels path ls (store_start w0) = Some s \<Longrightarrow> bounded_work s"
  by (erule run_labels_induct) (simp add: bounded_work_def store_start_def, rule bounded_work_step)

text \<open>While \<open>i\<close> holds the lock, the steps of others neither take it nor change \<open>i\<close>'s program.\<close>

lemma held_steps:
  assumes "run_labels path ls s = Some s'" and "only_worker (Some i) s" and "sk_holder s = Some i"
    and "sk_call s i = Some (Working a op p)" and "ends_within n p" and "Release i \<notin> set ls"
  shows "count_list ls (Advance i) \<le> n \<and> sk_holder s' = Some i"
  using assms
proof (induction ls arbitrary: s a p n)
  case (Cons l ls)
  then obtain t where t: "store_step path l s = Some t" "run_labels path ls t = Some s'"
    by (auto simp: Option.bind_eq_Some_conv)
  note IH = Cons.IH [OF t(2)]
  have idle: "count_list ls (Advance i) \<le> n \<and> sk_holder s' = Some i"
    if "sk_holder t = Some i" "sk_call t i = Some (Working b op p)" "only_worker (Some i) t" for b
    using IH [OF that(3,1,2) Cons.prems(5)] Cons.prems(6) by simp
  show ?case using t(1)
  proof (cases rule: store_step_cases)
    case (advanced j b op' f q w)
    then have j: "j = i" using only_workerD [OF Cons.prems(2)] by auto
    with advanced Cons.prems have p: "p = Call f" by simp
    then obtain k where k: "n = Suc k" using Cons.prems(5) by (cases n) auto
    with p Cons.prems(5) advanced(3) have "ends_within k q" by (metis ends_within.simps(3) fst_conv)
    moreover have "only_worker (Some i) t" "sk_holder t = Some i" "sk_call t i = Some (Working b op q)"
      using advanced Cons.prems j by (auto simp: sk_defs only_worker_def)
    ultimately show ?thesis
      using IH [of b q k] Cons.prems(6) advanced(1) j k by simp
  next
    case (released j b op' r)
    then have "j = i" using only_workerD [OF Cons.prems(2)] by auto
    with released Cons.prems(6) show ?thesis by simp
  next
    case (detached j op' q)
    then have j: "j = i" using only_workerD [OF Cons.prems(2)] by auto
    have "count_list ls (Advance i) \<le> n \<and> sk_holder s' = Some i"
      by (rule idle [of False]) (use detached Cons.prems j in \<open>auto simp: sk_defs only_worker_def\<close>)
    with detached show ?thesis by simp
  next
    case (refused j op' e)
    have "count_list ls (Advance i) \<le> n \<and> sk_holder s' = Some i"
      by (rule idle [of a]) (use refused Cons.prems in \<open>auto simp: sk_defs only_worker_def\<close>)
    with refused show ?thesis by simp
  next
    case (queued j op')
    have "count_list ls (Advance i) \<le> n \<and> sk_holder s' = Some i"
      by (rule idle [of a]) (use queued Cons.prems in \<open>auto simp: sk_defs only_worker_def\<close>)
    with queued show ?thesis by simp
  next
    case (dropped j op')
    have "count_list ls (Advance i) \<le> n \<and> sk_holder s' = Some i"
      by (rule idle [of a]) (use dropped Cons.prems in \<open>auto simp: sk_defs only_worker_def\<close>)
    with dropped show ?thesis by simp
  qed (use Cons.prems in simp)
qed simp

section \<open>Properties\<close>

text \<open>A schedule of four callers: the first commits, the second drops its future while it waits for
  the lock, the third is refused and the fourth drops its future while its task reads.\<close>

definition store_calls :: "label list" where
  "store_calls =
     [Invoke 0 (OpCommit ''orders'' 2 150), Acquire 0, Advance 0, Invoke 1 (OpCommit ''orders'' 2 120),
      Advance 0, Cancel 1] @ replicate 8 (Advance 0) @
     [Invoke 2 (OpCommit ''orders'' 2 (- 1)), Release 0, Invoke 3 (OpCommitted ''orders'' 2)]"

definition store_reads :: "label list" where
  "store_reads = [Acquire 3, Advance 3, Cancel 3, Advance 3]"

definition store_after_calls :: store_tasks where
  "store_after_calls =
     the (run_labels sample_path store_calls (store_start (quiet_world sample_fs)))"

definition store_after_reads :: store_tasks where
  "store_after_reads = the (run_labels sample_path store_reads store_after_calls)"

definition store_log :: "(nat \<times> file_op \<times> reply kafka_result) list" where
  "store_log =
     [(2, OpCommit ''orders'' 2 (- 1), Inl (Config msg_commit_negative)),
      (0, OpCommit ''orders'' 2 150, Inr Stored)]"

definition reply_to :: "call_phase option \<Rightarrow> (file_op \<times> reply kafka_result) option" where
  "reply_to c = (case c of Some (Replied op r) \<Rightarrow> Some (op, r) | _ \<Rightarrow> None)"

lemma reply_to_Some: "reply_to c = Some (op, r) \<longleftrightarrow> c = Some (Replied op r)"
  by (auto simp: reply_to_def split: option.splits call_phase.splits)

lemma store_sample_run:
  "map_option (\<lambda>s. (sk_log s, sk_holder s, reply_to (sk_call s 0)))
     (run_labels sample_path (store_calls @ store_reads) (store_start (quiet_world sample_fs)))
   = Some (store_log, Some 3, Some (OpCommit ''orders'' 2 150, Inr Stored))"
  by code_simp

lemma store_calls_run:
  "run_labels sample_path store_calls (store_start (quiet_world sample_fs)) = Some store_after_calls"
  "run_labels sample_path store_reads store_after_calls = Some store_after_reads"
  "sk_log store_after_reads = store_log" "sk_holder store_after_reads = Some 3"
  "sk_call store_after_reads 0 = Some (Replied (OpCommit ''orders'' 2 150) (Inr Stored))"
  using store_sample_run
  by (auto simp: store_after_calls_def store_after_reads_def run_labels_append bind_eq_Some_conv reply_to_Some
      split: bind_splits)

text \<open>C8. Concurrent callers of one file store cannot interfere: in every run, with any system calls
  failing and any futures dropped, the finished operations have a serial order in which running
  them one after the other gives the same replies and, when the lock is free, the same files and
  directory; each call takes effect once, and an operation that had returned before another was
  called comes before it in that order.\<close>

theorem file_calls_serializable:
  assumes "run_labels path before (store_start w) = Some s1" and "run_labels path after s1 = Some s"
  shows "(\<exists>W. serial_run path w (map (fst \<circ> snd) (sk_log s)) = (map (snd \<circ> snd) (sk_log s), W) \<and>
             (sk_holder s = None \<longrightarrow> sk_world s = W)) \<and>
         distinct (map fst (sk_log s)) \<and>
         (\<forall>i op r. sk_call s i = Some (Replied op r) \<longrightarrow> (i, op, r) \<in> set (sk_log s)) \<and>
         (\<exists>more. sk_log s = sk_log s1 @ more \<and> (\<forall>i. sk_call s1 i = None \<longrightarrow> i \<notin> fst ` set (sk_log s1)))"
proof -
  have s1: "serial_inv path w s1" using assms(1) by (rule serial_inv_run)
  have "serial_inv path w s"
    using assms by (intro serial_inv_run [of path "before @ after"]) (simp add: run_labels_append)
  then obtain W where "serial_run path w (map (fst \<circ> snd) (sk_log s)) = (map (snd \<circ> snd) (sk_log s), W)"
      "sk_holder s = None \<longrightarrow> sk_world s = W" "distinct (map fst (sk_log s))"
      "\<forall>i op r. sk_call s i = Some (Replied op r) \<longrightarrow> (i, op, r) \<in> set (sk_log s)"
    by (auto simp: serial_inv_def split: option.splits)
  moreover have "\<forall>i. sk_call s1 i = None \<longrightarrow> i \<notin> fst ` set (sk_log s1)"
    using s1 by (metis serial_inv_def unlogged_def option.simps(4))
  ultimately show ?thesis using log_grows [OF assms(2)] by (intro conjI) (simp_all add: ex_simps)
qed

theorem file_calls_serializable_witness:
  "fst (serial_run sample_path (quiet_world sample_fs) (map (fst \<circ> snd) store_log)) =
     map (snd \<circ> snd) store_log"
  using file_calls_serializable [OF store_calls_run(1,2)] by (auto simp: store_calls_run(3))

text \<open>C25. The lock is never kept: whoever holds it, also after its caller dropped the future, can
  always take its next step, nobody else works meanwhile, and it releases the lock after at most
  ten system calls of its own, whatever the outcomes of these calls and the steps of others.\<close>

theorem file_lock_is_released:
  assumes "run_labels path before (store_start w) = Some s" and "sk_holder s = Some i"
  shows "(store_step path (Advance i) s \<noteq> None \<or>
          (\<exists>s'. store_step path (Release i) s = Some s' \<and> sk_holder s' = None)) \<and>
         (\<forall>j a op p. sk_call s j = Some (Working a op p) \<longrightarrow> j = i) \<and>
         (\<forall>ls s'. run_labels path ls s = Some s' \<and> Release i \<notin> set ls \<longrightarrow>
            count_list ls (Advance i) \<le> 10 \<and> sk_holder s' = Some i)"
proof -
  have inv: "serial_inv path w s" using assms(1) by (rule serial_inv_run)
  then obtain a op p where p: "sk_call s i = Some (Working a op p)"
    using assms(2) by (auto simp: serial_inv_def)
  have worker: "only_worker (Some i) s" using inv assms(2) by (auto simp: serial_inv_def)
  have "ends_within 10 p" using bounded_work_run [OF assms(1)] p by (auto simp: bounded_work_def)
  then have "\<forall>ls s'. run_labels path ls s = Some s' \<and> Release i \<notin> set ls \<longrightarrow>
      count_list ls (Advance i) \<le> 10 \<and> sk_holder s' = Some i"
    using held_steps [OF _ worker assms(2) p] by blast
  moreover have "store_step path (Advance i) s \<noteq> None \<or>
      (\<exists>s'. store_step path (Release i) s = Some s' \<and> sk_holder s' = None)"
    using p by (cases p) (auto simp: sk_defs split: prod.splits)
  ultimately show ?thesis using only_workerD [OF worker] by blast
qed

theorem file_lock_is_released_witness:
  "\<not> (\<exists>ls s'. run_labels sample_path ls store_after_reads = Some s' \<and> Release 3 \<notin> set ls \<and> 10 < count_list ls (Advance 3)) \<and>
   \<not> (\<exists>ls s'. run_labels sample_path ls store_after_reads = Some s' \<and> Release 3 \<notin> set ls \<and> sk_holder s' \<noteq> Some 3)"
proof -
  have "run_labels sample_path (store_calls @ store_reads) (store_start (quiet_world sample_fs))
      = Some store_after_reads"
    using store_calls_run(1,2) by (simp add: run_labels_append)
  then show ?thesis using file_lock_is_released [OF _ store_calls_run(4)] by (meson not_le)
qed

end
