(* ===== verification/File_Crash.thy ===== *)
theory File_Crash
  imports File_Locking
begin

text \<open>
  \<open>src/offset.rs\<close>, crashes while callers of one file store run concurrently. \<open>at_least v\<close> are the
  file contents that hold at least the positions \<open>v\<close>; every state between two system calls keeps
  all contents a crash can leave within it, and a commit that replies raises \<open>v\<close>.
\<close>

section \<open>Contents with at least some positions\<close>

definition at_least :: "(offset_key \<Rightarrow> i64 option) \<Rightarrow> string option set" where
  "at_least v = {c. case text_table c of None \<Rightarrow> False | Some m \<Rightarrow> clean_map m \<and> view_le v (map_of m)}"

definition disk_ok :: "path_buf \<Rightarrow> (offset_key \<Rightarrow> i64 option) \<Rightarrow> fs \<Rightarrow> bool" where
  "disk_ok path v = holds (pb_name path) (tmp_name path) (at_least v) (at_least v)"

definition world_ok :: "path_buf \<Rightarrow> (offset_key \<Rightarrow> i64 option) \<Rightarrow> world \<Rightarrow> bool" where
  "world_ok path v w =
     (disk_ok path v (w_fs w) \<and> w_stat_faults w = [] \<and> fs_present (w_fs w) \<and> fs_durable (w_fs w))"

definition raised :: "(offset_key \<Rightarrow> i64 option) \<Rightarrow> file_op \<Rightarrow> reply kafka_result \<Rightarrow> offset_key \<Rightarrow> i64 option" where
  "raised v op r =
     (case op of OpCommit t p off \<Rightarrow>
        if r = Inr Stored then v((t, p) \<mapsto> advance (v (t, p)) (off + 1)) else v
      | OpCommitted _ _ \<Rightarrow> v)"

lemma view_le_advance_mono:
  "view_le v u \<Longrightarrow> view_le (v(k \<mapsto> advance (v k) n)) (u(k \<mapsto> advance (u k) n))"
proof -
  assume le: "view_le v u"
  have "sint (advance (v k) n) \<le> sint (advance (u k) n)"
  proof (cases "v k")
    case None
    then show ?thesis by (cases "u k") (simp_all add: smax_def)
  next
    case (Some a)
    then obtain b where "u k = Some b" "sint a \<le> sint b" using le by (auto simp: view_le_def)
    with Some show ?thesis by (simp add: smax_def)
  qed
  with le show ?thesis by (simp add: view_le_def)
qed

lemma body_at_least: "clean_map m \<Longrightarrow> view_le v (map_of m) \<Longrightarrow> Some (offset_body m) \<in> at_least v"
  by (erule text_table_body) (simp add: at_least_def)

lemma world_ok_table:
  assumes "world_ok path v w"
  obtains m where "file_table path w = Some m" "clean_map m" "view_le v (map_of m)" "file_inv path w"
proof -
  have "fs_read (w_fs w) (pb_name path) \<in> at_least v"
    using assms by (simp add: world_ok_def disk_ok_def holds_def)
  then obtain m where "file_table path w = Some m" "clean_map m" "view_le v (map_of m)"
    by (auto simp: at_least_def file_table_def split: option.splits)
  moreover from this have "file_inv path w"
    using assms by (simp add: file_inv_def world_ok_def disk_ok_def holds_def)
  ultimately show ?thesis using that by blast
qed

lemma entry_max_at_least:
  assumes "clean_map m" and "clean_topic t" and "view_le v (map_of m)"
  shows "Some (offset_body (entry_max m (t, p) n)) \<in> at_least (v((t, p) \<mapsto> advance (v (t, p)) n))"
    and "Some (offset_body (entry_max m (t, p) n)) \<in> at_least v"
proof -
  have c: "clean_map (entry_max m (t, p) n)" using assms clean_entry_max by blast
  have "view_le (v((t, p) \<mapsto> advance (v (t, p)) n)) (map_of (entry_max m (t, p) n))"
    unfolding map_of_entry_max using assms(3) by (rule view_le_advance_mono)
  then show "Some (offset_body (entry_max m (t, p) n)) \<in> at_least (v((t, p) \<mapsto> advance (v (t, p)) n))"
    and "Some (offset_body (entry_max m (t, p) n)) \<in> at_least v"
    using c view_le_trans [OF view_le_advance] by (auto intro!: body_at_least)
qed

section \<open>The directory stays\<close>

definition dir_settled :: "fs set \<Rightarrow> world \<Rightarrow> bool" where
  "dir_settled B w =
     (fs_present (w_fs w) \<and> fs_durable (w_fs w) \<and>
      (\<forall>s \<in> set (w_trace w). s \<in> B \<or> fs_present s \<and> fs_durable s))"

definition keeps_dir :: "'a io \<Rightarrow> bool" where
  "keeps_dir m = (\<forall>B w. dir_settled B w \<longrightarrow> dir_settled B (snd (m w)))"

lemma keeps_dir_bind: "keeps_dir m \<Longrightarrow> (\<And>x. keeps_dir (f x)) \<Longrightarrow> keeps_dir (io_bind m f)"
  unfolding keeps_dir_def io_bind_def by (fastforce split: prod.splits sum.splits)

lemma keeps_dir_return: "keeps_dir (io_return r)"
  by (simp add: keeps_dir_def io_return_def)

lemma keeps_dir_syscall:
  assumes "\<And>f s. fs_present s \<Longrightarrow> fs_durable s \<Longrightarrow> fs_present (failed f s) \<and> fs_durable (failed f s)"
    and "\<And>s. fs_present s \<Longrightarrow> fs_durable s \<Longrightarrow> fs_present (snd (call s)) \<and> fs_durable (snd (call s))"
  shows "keeps_dir (syscall failed call)"
  using assms
  by (fastforce simp: keeps_dir_def dir_settled_def syscall_def set_fs_def
      split: list.splits option.splits prod.splits)

lemma keeps_dir_calls:
  "keeps_dir sys_create_dir_all" "keeps_dir (sys_open_truncate name)" "keeps_dir (sys_write_all fd b)"
  "keeps_dir (sys_sync_all fd)" "keeps_dir (sys_rename a b)" "keeps_dir sys_open_dir"
  "keeps_dir sys_sync_dir" "keeps_dir (sys_read_to_string name)"
  unfolding sys_create_dir_all_def sys_open_truncate_def sys_write_all_def sys_sync_all_def
    sys_rename_def sys_open_dir_def sys_sync_dir_def sys_read_to_string_def
  by (rule keeps_dir_syscall;
      simp add: fs_create_dir_all_def fs_open_truncate_def fs_append_def fs_sync_file_def fs_rename_def
        fs_sync_dir_def fs_change_dir_def split: option.splits)+

lemma keeps_dir_exists: "keeps_dir (sys_exists name)"
  by (simp add: keeps_dir_def dir_settled_def sys_exists_def split: list.splits)

lemma dir_settled_joins [simp]: "dir_settled B (w\<lparr>w_joins := js\<rparr>) = dir_settled B w"
  by (simp add: dir_settled_def)

lemma keeps_dir_spawn: "keeps_dir m \<Longrightarrow> keeps_dir (spawn_blocking m)"
  by (simp add: keeps_dir_def spawn_blocking_def split: list.split option.split)

lemmas keeps_dir_intros = keeps_dir_bind keeps_dir_return keeps_dir_calls keeps_dir_exists keeps_dir_spawn

lemma keeps_dir_file:
  "keeps_dir (\<lambda>w. file_commit path w t p off)" "keeps_dir (\<lambda>w. file_committed path w t p)"
proof -
  have "keeps_dir (load_map path)"
    unfolding load_map_def by (auto intro!: keeps_dir_intros)
  moreover have "keeps_dir (save_map path m)" for m
    unfolding save_map_def by (auto intro!: keeps_dir_intros)
  ultimately show "keeps_dir (\<lambda>w. file_commit path w t p off)" "keeps_dir (\<lambda>w. file_committed path w t p)"
    unfolding file_commit_def file_committed_def
    by (cases "next_offset_of off";
        auto intro!: keeps_dir_intros simp: keeps_dir_return [unfolded io_return_def])+
qed

lemma keeps_dir_op: "keeps_dir (op_run path op)"
  using keeps_dir_file by (auto simp: keeps_dir_def op_run_def split: file_op.splits)

section \<open>The states of a program\<close>

text \<open>Every file system state from here to the end of the program satisfies \<open>I\<close>.\<close>

primrec all_states :: "(fs \<Rightarrow> bool) \<Rightarrow> 'a prog \<Rightarrow> world \<Rightarrow> bool" where
  "all_states I (Return r) = (\<lambda>w. I (w_fs w))"
| "all_states I (Call f) =
     (\<lambda>w. I (w_fs w) \<and> (case map_prod (all_states I) id (f w) of (rest, w') \<Rightarrow> rest w'))"

lemma all_states_now: "all_states I p w \<Longrightarrow> I (w_fs w)"
  by (cases p) auto

lemma all_states_bind:
  assumes "all_states I p w" and "\<And>x w'. run_prog p w = (Inr x, w') \<Longrightarrow> all_states I (k x) w'"
  shows "all_states I (prog_bind p k) w"
  using assms
proof (induction p arbitrary: w)
  case (Return r)
  then show ?case by (auto simp: run_prog.simps(1) split: sum.splits)
next
  case (Call f)
  obtain p w' where f: "f w = (p, w')" by fastforce
  then have "all_states I (prog_bind p k) w'"
    using Call.prems by (intro Call.IH [of "f w" p]) (auto intro: range_eqI [of _ f w])
  then show ?case using Call.prems(1) by (simp add: f)
qed

definition prog_runs ::
  "(fs \<Rightarrow> bool) \<Rightarrow> (world \<Rightarrow> bool) \<Rightarrow> 'a prog \<Rightarrow> ('a \<Rightarrow> world \<Rightarrow> bool) \<Rightarrow> (world \<Rightarrow> bool) \<Rightarrow> bool" where
  "prog_runs I P p Q E = ((\<forall>w. P w \<longrightarrow> all_states I p w) \<and> runs P (run_prog p) Q E)"

lemma prog_runs_bind:
  assumes "prog_runs I P p Q E" and "\<And>x. prog_runs I (Q x) (k x) R E"
  shows "prog_runs I P (prog_bind p k) R E"
proof -
  have "all_states I (prog_bind p k) w" if "P w" for w
  proof (rule all_states_bind)
    show "all_states I p w" using assms(1) that by (simp add: prog_runs_def)
    show "all_states I (k x) w'" if "run_prog p w = (Inr x, w')" for x w'
    proof -
      have "runs P (run_prog p) Q E" using assms(1) by (simp add: prog_runs_def)
      from runsD [OF this \<open>P w\<close> that] have "Q x w'" by simp
      then show ?thesis using assms(2) by (simp add: prog_runs_def)
    qed
  qed
  moreover have "runs P (run_prog (prog_bind p k)) R E"
    unfolding run_prog_bind using assms by (intro runs_bind) (auto simp: prog_runs_def)
  ultimately show ?thesis by (simp add: prog_runs_def)
qed

lemma prog_runs_atomic:
  assumes "runs P m Q E" and "\<And>w. P w \<Longrightarrow> I (w_fs w)" and "\<And>x w. Q x w \<Longrightarrow> I (w_fs w)"
    and "\<And>w. E w \<Longrightarrow> I (w_fs w)"
  shows "prog_runs I P (atomic m) Q E"
proof -
  have "all_states I (atomic m) w" if "P w" for w
  proof -
    obtain r w' where m: "m w = (r, w')" by fastforce
    from runsD [OF assms(1) that m] assms(3,4) have "I (w_fs w')" by (cases r) auto
    then show ?thesis using assms(2) [OF that] by (simp add: atomic_def m)
  qed
  with assms(1) show ?thesis by (simp add: prog_runs_def run_prog_atomic)
qed

text \<open>A call that meets a specification over \<open>traced\<close> states passes only through good ones.\<close>

lemma prog_runs_traced:
  assumes "runs (traced UNIV I P) m (\<lambda>x. traced UNIV I (Q x)) (traced UNIV I E)"
  shows "prog_runs I (traced UNIV I P) (atomic m) (\<lambda>x. traced UNIV I (Q x)) (traced UNIV I E)"
  using assms by (rule prog_runs_atomic) (auto simp: traced_def)

lemma save_prog_states:
  fixes path :: path_buf
  assumes "Some (offset_body m) \<in> C"
  defines "H \<equiv> holds (pb_name path) (tmp_name path) C C"
  shows "prog_runs H (traced UNIV H (\<lambda>_. True)) (save_prog path m)
    (\<lambda>_. traced UNIV H (\<lambda>s. fs_read s (pb_name path) = Some (offset_body m) \<and> fs_older s = []))
    (traced UNIV H (\<lambda>_. True))"
proof -
  have start: "prog_runs H (traced UNIV H (\<lambda>_. True))
      (if pb_parent path \<noteq> [] then atomic sys_create_dir_all else Return (Inr ()))
      (\<lambda>_. traced UNIV H (\<lambda>_. True)) (traced UNIV H (\<lambda>_. True))"
    using prog_runs_traced [OF runs_mkdir]
    by (auto simp: H_def prog_runs_def run_prog_return traced_def intro!: runs_return)
  show ?thesis
    unfolding save_prog_def H_def
    by (rule prog_runs_bind [OF start [unfolded H_def]],
        rule prog_runs_bind [OF prog_runs_traced [OF runs_open]],
        rule prog_runs_bind [OF prog_runs_traced [OF runs_write]],
        rule prog_runs_bind [OF prog_runs_traced [OF runs_sync]],
        rule prog_runs_bind [OF prog_runs_traced [OF runs_rename [OF assms(1,1)]]],
        rule prog_runs_bind [OF prog_runs_traced [OF runs_open_dir]],
        rule prog_runs_traced [OF runs_sync_dir])
qed

section \<open>One operation\<close>

definition clean_op :: "file_op \<Rightarrow> bool" where
  "clean_op op = (case op of OpCommit t _ _ \<Rightarrow> clean_topic t | OpCommitted _ _ \<Rightarrow> True)"

lemma load_prog_states:
  assumes "w_stat_faults w = []" and "I (w_fs w)"
  shows "all_states I (load_prog path) w"
  using assms
  by (auto simp: load_prog_def atomic_def sys_exists_def sys_read_to_string_def syscall_def set_fs_def
      split: list.splits option.splits prod.splits sum.splits)

lemma op_prog_states:
  assumes "world_ok path v w" and "clean_op op"
  shows "all_states (disk_ok path v) (op_prog path op) w"
proof -
  define w1 where "w1 = w\<lparr>w_joins := tl (w_joins w)\<rparr>"
  have now: "disk_ok path v (w_fs w)" "w_stat_faults w = []" using assms(1) by (simp_all add: world_ok_def)
  obtain m where m: "file_table path w = Some m" "clean_map m" "view_le v (map_of m)"
    using world_ok_table [OF assms(1)] .
  have load: "all_states (disk_ok path v) (load_prog path) w1"
    using now by (intro load_prog_states) (simp_all add: w1_def)
  have loaded: "disk_ok path v (w_fs w') \<and> m' = m" if "load_map path w1 = (Inr m', w')" for m' w'
    using load_map_result [OF that] now m(1) by (auto simp: w1_def file_table_def)
  have task: "all_states (disk_ok path v) (prog_bind (load_prog path) k) w1"
    if "\<And>w'. disk_ok path v (w_fs w') \<Longrightarrow> all_states (disk_ok path v) (k m) w'" for k :: "offset_map \<Rightarrow> reply prog"
    using that loaded by (intro all_states_bind [OF load]) (auto simp: run_load_prog)
  have start: "all_states (disk_ok path v) (blocking p) w" if "all_states (disk_ok path v) p w1" for p :: "reply prog"
    using that now by (auto simp: blocking_def w1_def split: list.splits option.splits)
  show ?thesis
  proof (cases op)
    case (OpCommit t p off)
    have save: "all_states (disk_ok path v)
        (prog_bind (save_prog path (entry_max m (t, p) n)) (\<lambda>_. Return (Inr Stored))) w'"
      if "disk_ok path v (w_fs w')" for n w'
    proof -
      have "Some (offset_body (entry_max m (t, p) n)) \<in> at_least v"
        using entry_max_at_least(2) m(2,3) assms(2) by (simp add: clean_op_def OpCommit)
      note runs = save_prog_states [OF this, of path, folded disk_ok_def]
      moreover have "traced UNIV (disk_ok path v) (\<lambda>_. True) w'" using that by (simp add: traced_def)
      ultimately show ?thesis
        by (intro all_states_bind) (auto simp: prog_runs_def traced_def dest!: runsD)
    qed
    have "all_states (disk_ok path v)
        (prog_bind (load_prog path) (\<lambda>m.
           prog_bind (save_prog path (entry_max m (t, p) n)) (\<lambda>_. Return (Inr Stored)))) w1" for n
      by (rule task) (rule save)
    from start [OF this] show ?thesis using now by (simp add: op_prog_def OpCommit split: sum.splits)
  next
    case (OpCommitted t p)
    have "all_states (disk_ok path v)
        (prog_bind (load_prog path) (\<lambda>m. Return (Inr (Position (map_of m (t, p)))))) w1"
      by (rule task) simp
    from start [OF this] show ?thesis by (simp add: op_prog_def OpCommitted)
  qed
qed

lemma file_committed_frame:
  assumes "w_stat_faults w = []" and "file_committed path w t p = (r, w')"
  shows "w_fs w' = w_fs w \<and> w_stat_faults w' = []"
proof -
  define w1 where "w1 = w\<lparr>w_joins := tl (w_joins w)\<rparr>"
  obtain r2 w2 where load: "load_map path w1 = (r2, w2)" by fastforce
  with load_map_result(1) [OF load] assms show ?thesis
    by (auto simp: file_committed_def spawn_blocking_def io_bind_def io_return_def w1_def
        split: list.splits option.splits prod.splits sum.splits)
qed

lemma op_run_ok:
  assumes "world_ok path v w" and "clean_op op" and "op_run path op w = (r, w')"
  shows "world_ok path (raised v op r) w'"
proof -
  obtain m where m: "file_table path w = Some m" "clean_map m" "view_le v (map_of m)" and inv: "file_inv path w"
    using world_ok_table [OF assms(1)] .
  have dir: "fs_present (w_fs w')" "fs_durable (w_fs w')"
    using keeps_dir_op [of path op, unfolded keeps_dir_def, rule_format, of "set (w_trace w)" w] assms(1,3)
    by (simp_all add: dir_settled_def world_ok_def)
  have now: "disk_ok path v (w_fs w)" "w_stat_faults w = []" using assms(1) by (simp_all add: world_ok_def)
  show ?thesis
  proof (cases op)
    case (OpCommitted t p)
    then have "w_fs w' = w_fs w \<and> w_stat_faults w' = []"
      using file_committed_frame [OF now(2)] assms(3) by (cases "file_committed path w t p") (auto simp: op_run_def)
    then show ?thesis using assms(1) by (simp add: raised_def OpCommitted world_ok_def)
  next
    case (OpCommit t p off)
    have t: "clean_topic t" using assms(2) by (simp add: clean_op_def OpCommit)
    obtain r0 where run: "file_commit path w t p off = (r0, w')" and r: "r = map_sum id (\<lambda>_. Stored) r0"
      using assms(3) by (cases "file_commit path w t p off") (auto simp: op_run_def OpCommit)
    show ?thesis
    proof (cases "committable off")
      case False
      then obtain e where "r0 = Inl e" "w' = w" using committable_or_rejected [of off path w t p] run by auto
      then show ?thesis using assms(1) by (simp add: raised_def OpCommit r)
    next
      case True
      define body where "body = offset_body (entry_max m (t, p) (off + 1))"
      note st = file_commit_states [OF inv True run m(1), folded body_def]
      note new = entry_max_at_least [OF m(2) t m(3), of p "off + 1", folded body_def]
      have disk: "disk_ok path v (w_fs w')"
        using st now(1) new(2) by (auto simp: disk_ok_def holds_def)
      show ?thesis
      proof (cases r0)
        case (Inr u)
        then have "possible_contents (w_fs w') (pb_name path) = {Some body}" "fs_read (w_fs w') (pb_name path) = Some body"
          using st dir by (simp_all add: possible_contents_def fs_versions_def fs_read_entry [symmetric])
        then show ?thesis
          using st dir disk new(1) by (simp add: raised_def OpCommit r Inr world_ok_def disk_ok_def holds_def)
      qed (use st dir disk in \<open>simp add: raised_def OpCommit r world_ok_def\<close>)
    qed
  qed
qed

section \<open>Concurrent callers\<close>

definition acked :: "(nat \<times> file_op \<times> reply kafka_result) list \<Rightarrow> (offset_key \<Rightarrow> i64 option) \<Rightarrow> bool" where
  "acked log v =
     (\<forall>i t p off. (i, OpCommit t p off, Inr Stored) \<in> set log \<longrightarrow>
        (\<exists>b. v (t, p) = Some b \<and> sint off + 1 \<le> sint b))"

definition crash_inv :: "path_buf \<Rightarrow> (offset_key \<Rightarrow> i64 option) \<Rightarrow> (offset_key \<Rightarrow> i64 option) \<Rightarrow> store_tasks \<Rightarrow> bool" where
  "crash_inv path v0 v s =
     (acked (sk_log s) v \<and> view_le v0 v \<and> only_worker (sk_holder s) s \<and>
      (\<forall>i op. sk_call s i = Some (Queued op) \<longrightarrow> clean_op op) \<and>
      (case sk_holder s of
         None \<Rightarrow> world_ok path v (sk_world s)
       | Some i \<Rightarrow> \<exists>a op p W. sk_call s i = Some (Working a op p) \<and> clean_op op \<and> world_ok path v W \<and>
                     run_prog p (sk_world s) = op_run path op W \<and>
                     all_states (disk_ok path v) p (sk_world s)))"

lemma acked_mono: "acked log v \<Longrightarrow> view_le v u \<Longrightarrow> acked log u"
  unfolding acked_def view_le_def by (meson order_trans)

lemma acked_add:
  assumes "acked log v" and "op_run path op w = (r, w')"
  shows "acked (log @ [(i, op, r)]) (raised v op r) \<and> view_le v (raised v op r)"
proof -
  have le: "view_le v (raised v op r)" by (auto simp: raised_def split: file_op.splits)
  have "\<exists>b. raised v op r (t, p) = Some b \<and> sint off + 1 \<le> sint b"
    if "op = OpCommit t p off" "r = Inr Stored" for t p off
  proof -
    have "committable off"
      using assms(2) that
      by (cases "next_offset_of off") (auto simp: op_run_def file_commit_def next_offset_of_Inr)
    then show ?thesis
      using that by (auto simp: raised_def advance_def sint_smax sint_committable split: option.splits)
  qed
  with acked_mono [OF assms(1) le] le show ?thesis by (auto simp: acked_def)
qed

lemma crash_inv_step:
  assumes "crash_inv path v0 v s" and "store_step path l s = Some s'"
    and clean: "\<And>i op. l = Invoke i op \<Longrightarrow> clean_op op"
  shows "\<exists>v'. crash_inv path v0 v' s'"
proof -
  have v: "acked (sk_log s) v" "view_le v0 v" and worker: "only_worker (sk_holder s) s"
    and wait: "\<And>i op. sk_call s i = Some (Queued op) \<Longrightarrow> clean_op op"
    and free: "sk_holder s = None \<Longrightarrow> world_ok path v (sk_world s)"
    and busy: "\<And>i. sk_holder s = Some i \<Longrightarrow> \<exists>a op p W. sk_call s i = Some (Working a op p) \<and> clean_op op \<and>
            world_ok path v W \<and> run_prog p (sk_world s) = op_run path op W \<and>
            all_states (disk_ok path v) p (sk_world s)"
    using assms(1) by (simp_all add: crash_inv_def)
  have same: "crash_inv path v0 v s'" if "acked (sk_log s') v" "only_worker (sk_holder s) s'"
      "\<And>i op. sk_call s' i = Some (Queued op) \<Longrightarrow> clean_op op" "sk_holder s' = sk_holder s"
      "sk_world s' = sk_world s"
      "\<And>i a op p. sk_call s i = Some (Working a op p) \<Longrightarrow> \<exists>a. sk_call s' i = Some (Working a op p)"
  proof (cases "sk_holder s")
    case None
    with free that v(2) show ?thesis by (simp add: crash_inv_def)
  next
    case (Some i)
    from busy [OF this] that(6) that(1-5) v(2) Some show ?thesis by (simp add: crash_inv_def) blast
  qed
  show ?thesis using assms(2)
  proof (cases rule: store_step_cases)
    case (refused i op e)
    have "crash_inv path v0 v s'"
      by (rule same) (use refused v(1) wait worker in
        \<open>auto simp: sk_defs acked_def only_worker_def split: if_splits\<close>)
    then show ?thesis by blast
  next
    case (queued i op)
    have "crash_inv path v0 v s'"
      by (rule same) (use queued clean v(1) wait worker in
        \<open>auto simp: sk_defs only_worker_def split: if_splits\<close>)
    then show ?thesis by blast
  next
    case (dropped i op)
    have "crash_inv path v0 v s'"
      by (rule same) (use dropped v(1) wait worker in
        \<open>auto simp: sk_defs only_worker_def split: if_splits\<close>)
    then show ?thesis by blast
  next
    case (detached i op p)
    then have "sk_holder s = Some i" using only_workerD [OF worker] by blast
    then have "crash_inv path v0 v s'"
      by (intro same) (use detached v(1) wait worker in
        \<open>auto simp: sk_defs only_worker_def split: if_splits\<close>)
    then show ?thesis by blast
  next
    case (acquired i op)
    then have w: "world_ok path v (sk_world s)" "clean_op op" using free wait by auto
    then have "all_states (disk_ok path v) (op_prog path op) (sk_world s)" by (rule op_prog_states)
    with w have "crash_inv path v0 v s'"
      using acquired v wait worker
      by (auto simp: crash_inv_def sk_defs only_worker_def run_op_prog split: if_splits)
    then show ?thesis by blast
  next
    case (advanced i a op f p w)
    then have i: "sk_holder s = Some i" using only_workerD [OF worker] by blast
    from busy [OF this] advanced obtain W where "clean_op op" "world_ok path v W"
        "run_prog p w = op_run path op W" "all_states (disk_ok path v) p w"
      by auto
    moreover have "only_worker (Some i) s'" using advanced worker i by (auto simp: sk_defs only_worker_def)
    ultimately have "crash_inv path v0 v s'"
      using i advanced v wait by (auto simp: crash_inv_def sk_defs split: if_splits)
    then show ?thesis by blast
  next
    case (released i a op r)
    then have i: "sk_holder s = Some i" using only_workerD [OF worker] by blast
    from busy [OF this] released obtain W where W: "clean_op op" "world_ok path v W"
        "op_run path op W = (r, sk_world s)"
      by (auto simp: run_prog.simps(1))
    note ok = op_run_ok [OF W(2,1,3)]
    have log: "acked (sk_log s @ [(i, op, r)]) (raised v op r)" "view_le v (raised v op r)"
      using acked_add [OF v(1) W(3)] by blast+
    have others: "sk_call s j \<noteq> Some (Working b q p)" if "j \<noteq> i" for j b q p
      using only_workerD [OF worker, of j b q p] i that by auto
    have "view_le v0 (raised v op r)" using v(2) log(2) by (rule view_le_trans)
    then have "crash_inv path v0 (raised v op r) s'"
      using released ok log(1) wait others
      by (cases a) (auto simp: crash_inv_def sk_defs only_worker_def split: if_splits)
    then show ?thesis by blast
  qed
qed

text \<open>A healthy store whose directory is settled on disk.\<close>

definition settled_store :: "path_buf \<Rightarrow> world \<Rightarrow> bool" where
  "settled_store path w =
     (file_inv path w \<and> fs_present (w_fs w) \<and> fs_durable (w_fs w) \<and> fs_older (w_fs w) = [])"

lemma settled_world_ok: "settled_store path w \<Longrightarrow> world_ok path (file_view path w) w"
  by (auto simp: settled_store_def file_inv_def file_view_def file_table_def world_ok_def disk_ok_def
      holds_def at_least_def possible_contents_def fs_versions_def fs_read_entry [symmetric]
      split: option.splits)

lemma crash_inv_run:
  assumes "settled_store path w" and "run_labels path ls (store_start w) = Some s"
    and "\<And>i op. Invoke i op \<in> set ls \<Longrightarrow> clean_op op"
  shows "\<exists>v. crash_inv path (file_view path w) v s"
  using assms(2)
proof (rule run_labels_induct)
  show "\<exists>v. crash_inv path (file_view path w) v (store_start w)"
    using settled_world_ok [OF assms(1)]
    by (auto simp: crash_inv_def store_start_def acked_def only_worker_def)
qed (use assms(3) crash_inv_step in blast)

lemma crash_inv_disk: "crash_inv path v0 v s \<Longrightarrow> disk_ok path v (w_fs (sk_world s))"
  using all_states_now by (fastforce simp: crash_inv_def world_ok_def split: option.splits)

section \<open>Properties\<close>

text \<open>The store as it is found after a crash.\<close>

definition after_crash :: "crash_choice \<Rightarrow> store_tasks \<Rightarrow> world" where
  "after_crash c s = (sk_world s)\<lparr>w_fs := fs_crash c (w_fs (sk_world s))\<rparr>"

text \<open>C7. A commit that was acknowledged is never lost: on a store that starts healthy and settled on disk,
  with any number of concurrent callers, any system calls but the query of the file's existence
  failing and any futures dropped, a crash at any moment, also between two system
  calls of another caller's commit, leaves a file that can be read and holds a position of at
  least \<open>offset + 1\<close> for every commit that had returned \<open>Ok\<close>, and at least the old one for every
  other partition.\<close>

theorem acked_commit_survives_crash:
  assumes "settled_store path w" and "run_labels path ls (store_start w) = Some s"
    and "\<forall>i op. Invoke i op \<in> set ls \<longrightarrow> clean_op op"
  shows "file_table path (after_crash c s) \<noteq> None \<and>
         view_le (file_view path w) (file_view path (after_crash c s)) \<and>
         (\<forall>i t p off. sk_call s i = Some (Replied (OpCommit t p off) (Inr Stored)) \<longrightarrow>
            (\<exists>b. file_view path (after_crash c s) (t, p) = Some b \<and> sint off + 1 \<le> sint b))"
proof -
  obtain v where "crash_inv path (file_view path w) v s" using crash_inv_run assms by blast
  then have v: "acked (sk_log s) v" "view_le (file_view path w) v" "disk_ok path v (w_fs (sk_world s))"
    using crash_inv_disk by (auto simp: crash_inv_def)
  then have "fs_read (fs_crash c (w_fs (sk_world s))) (pb_name path) \<in> at_least v"
    using crash_reads [of "pb_name path" "tmp_name path" "w_fs (sk_world s)" c]
    by (auto simp: disk_ok_def holds_def)
  then obtain m where m: "file_table path (after_crash c s) = Some m" "view_le v (map_of m)"
    by (auto simp: at_least_def file_table_def after_crash_def split: option.splits)
  have view: "file_view path (after_crash c s) = map_of m" by (simp add: file_view_def m(1))
  have "acked (sk_log s) (map_of m)" using v(1) m(2) by (rule acked_mono)
  moreover have "\<forall>i op r. sk_call s i = Some (Replied op r) \<longrightarrow> (i, op, r) \<in> set (sk_log s)"
    using serial_inv_run [OF assms(2)] by (auto simp: serial_inv_def)
  ultimately have "\<forall>i t p off. sk_call s i = Some (Replied (OpCommit t p off) (Inr Stored)) \<longrightarrow>
      (\<exists>b. map_of m (t, p) = Some b \<and> sint off + 1 \<le> sint b)"
    unfolding acked_def by blast
  then show ?thesis using m(1) view_le_trans [OF v(2) m(2)] by (simp add: view)
qed

theorem acked_commit_survives_crash_witness:
  "\<exists>b. file_view sample_path
      (after_crash \<lparr>cc_version = 1, cc_garbage = \<lambda>_. ''junk'', cc_lose_directory = True\<rparr> store_after_reads)
      (''orders'', 2) = Some b \<and> sint (150 :: i64) + 1 \<le> sint b"
proof -
  have "settled_store sample_path (quiet_world sample_fs)"
    using sample_inv by (simp add: settled_store_def) (simp add: quiet_world_def sample_fs_def)
  moreover have "\<forall>i op. Invoke i op \<in> set (store_calls @ store_reads) \<longrightarrow> clean_op op"
    using sample_clean by (auto simp: store_calls_def store_reads_def clean_op_def)
  moreover have "run_labels sample_path (store_calls @ store_reads) (store_start (quiet_world sample_fs))
      = Some store_after_reads"
    using store_calls_run(1,2) by (simp add: run_labels_append)
  ultimately show ?thesis
    using acked_commit_survives_crash store_calls_run(5) by blast
qed

end
