(* ===== verification/File_Recovery.thy ===== *)
theory File_Recovery
  imports File_Crash
begin

text \<open>
  \<open>src/offset.rs\<close>, the file store of a process that is killed and started again. \<open>tables T\<close> are the
  file contents whose positions are in \<open>T\<close>; \<open>healthy T\<close> says that whatever a crash leaves now is one
  of them. A commit extends \<open>T\<close> by the raised positions, also in the states between its system
  calls; once it returned \<open>Ok\<close> only raised positions are left; a crash keeps \<open>T\<close>.
\<close>

section \<open>Contents with positions in a set\<close>

type_synonym positions = "offset_key \<Rightarrow> i64 option"

definition tables :: "positions set \<Rightarrow> string option set" where
  "tables T = {c. case text_table c of None \<Rightarrow> False | Some m \<Rightarrow> clean_map m \<and> map_of m \<in> T}"

definition disk_in :: "path_buf \<Rightarrow> positions set \<Rightarrow> fs \<Rightarrow> bool" where
  "disk_in path T s =
     (holds (pb_name path) (tmp_name path) (tables T) (tables T) s \<and> fs_present s \<and> fs_durable s)"

definition healthy :: "path_buf \<Rightarrow> positions set \<Rightarrow> world \<Rightarrow> bool" where
  "healthy path T w = (disk_in path T (w_fs w) \<and> w_stat_faults w = [])"

definition raise_to :: "offset_key \<Rightarrow> i64 \<Rightarrow> positions \<Rightarrow> positions" where
  "raise_to k n v = v(k \<mapsto> advance (v k) n)"

lemma tables_mono: "T \<subseteq> T' \<Longrightarrow> tables T \<subseteq> tables T'"
  by (auto simp: tables_def split: option.splits)

lemma disk_in_mono: "disk_in path T s \<Longrightarrow> T \<subseteq> T' \<Longrightarrow> disk_in path T' s"
  using tables_mono [of T T'] by (auto simp: disk_in_def holds_def)

lemma healthy_mono: "healthy path T w \<Longrightarrow> T \<subseteq> T' \<Longrightarrow> healthy path T' w"
  by (auto simp: healthy_def intro: disk_in_mono)

lemma body_in_tables: "clean_map m \<Longrightarrow> map_of m \<in> T \<Longrightarrow> Some (offset_body m) \<in> tables T"
  by (erule text_table_body) (simp add: tables_def)

text \<open>A healthy store is one of \<open>File_Contract\<close> and holds positions in the set.\<close>

lemma healthy_table:
  assumes "healthy path T w"
  obtains m where "file_table path w = Some m" "clean_map m" "map_of m \<in> T" "file_inv path w" "file_view path w = map_of m"
proof -
  have "fs_read (w_fs w) (pb_name path) \<in> tables T"
    using assms by (simp add: healthy_def disk_in_def holds_def)
  then obtain m where m: "file_table path w = Some m" "clean_map m" "map_of m \<in> T"
    by (auto simp: tables_def file_table_def split: option.splits)
  moreover from this have "file_inv path w" "file_view path w = map_of m"
    using assms by (simp_all add: file_inv_def file_view_def healthy_def disk_in_def holds_def)
  ultimately show ?thesis using that by blast
qed

lemma healthy_view: "healthy path T w \<Longrightarrow> file_view path w \<in> T"
  by (erule healthy_table) simp

lemma healthy_inv: "healthy path T w \<Longrightarrow> file_inv path w"
  by (erule healthy_table) simp

text \<open>A settled store is healthy for the positions it holds.\<close>

lemma settled_healthy: "settled_store path w \<Longrightarrow> healthy path {file_view path w} w"
  by (auto simp: settled_store_def file_inv_def file_view_def file_table_def healthy_def disk_in_def
      holds_def tables_def possible_contents_def fs_versions_def fs_read_entry [symmetric]
      split: option.splits)

section \<open>Commits and crashes\<close>

lemma dir_of_commit:
  assumes "file_commit path w t p off = (r, w')" and "fs_present (w_fs w)" and "fs_durable (w_fs w)"
  shows "fs_present (w_fs w') \<and> fs_durable (w_fs w')"
    and "s \<in> set (w_trace w') \<Longrightarrow> s \<in> set (w_trace w) \<or> fs_present s \<and> fs_durable s"
  using keeps_dir_file(1) [of path t p off, unfolded keeps_dir_def, rule_format, of "set (w_trace w)" w] assms
  by (simp_all add: dir_settled_def)

lemma healthy_commit:
  assumes "healthy path T w" and "clean_topic t" and "committable off"
    and run: "file_commit path w t p off = (r, w')"
    and T': "T \<subseteq> T'" "raise_to (t, p) (off + 1) ` T \<subseteq> T'"
  shows "healthy path T' w'"
    and "s \<in> set (w_trace w') \<Longrightarrow> s \<in> set (w_trace w) \<or> disk_in path T' s"
    and "r = Inr () \<Longrightarrow> healthy path (raise_to (t, p) (off + 1) ` T) w'"
proof -
  obtain m where m: "file_table path w = Some m" "clean_map m" "map_of m \<in> T" "file_inv path w"
    using healthy_table [OF assms(1)] by metis
  define body where "body = offset_body (entry_max m (t, p) (off + 1))"
  note st = file_commit_states [OF m(4) assms(3) run m(1), folded body_def]
  have disk: "disk_in path T (w_fs w)" using assms(1) by (simp add: healthy_def)
  then have dir: "fs_present (w_fs w)" "fs_durable (w_fs w)" by (simp_all add: disk_in_def)
  note kept = dir_of_commit [OF run dir]
  have clean: "clean_map (entry_max m (t, p) (off + 1))" using m(2) assms(2) by (rule clean_entry_max)
  have raised: "map_of (entry_max m (t, p) (off + 1)) \<in> raise_to (t, p) (off + 1) ` T"
    using m(3) by (auto simp: map_of_entry_max raise_to_def)
  then have new: "Some body \<in> tables (raise_to (t, p) (off + 1) ` T)" "Some body \<in> tables T'"
    unfolding body_def using clean T'(2) by (auto intro!: body_in_tables)
  have old: "possible_contents (w_fs w) (pb_name path) \<subseteq> tables T'" "fs_read (w_fs w) (pb_name path) \<in> tables T'"
    using disk tables_mono [OF T'(1)] by (auto simp: disk_in_def holds_def)
  have within: "holds (pb_name path) (tmp_name path) (tables T') (tables T') s"
    if "holds (pb_name path) (tmp_name path) (insert (Some body) (possible_contents (w_fs w) (pb_name path)))
        {Some body, fs_read (w_fs w) (pb_name path)} s" for s
    using that new(2) old unfolding holds_def by auto
  show "healthy path T' w'"
    using st within kept(1) by (simp add: healthy_def disk_in_def)
  show "s \<in> set (w_trace w') \<Longrightarrow> s \<in> set (w_trace w) \<or> disk_in path T' s"
    using st within kept(2) [of s] by (auto simp: disk_in_def)
  show "healthy path (raise_to (t, p) (off + 1) ` T) w'" if "r = Inr ()"
  proof -
    have "possible_contents (w_fs w') (pb_name path) = {Some body}" "fs_read (w_fs w') (pb_name path) = Some body"
      using st that kept(1) by (simp_all add: possible_contents_def fs_versions_def fs_read_entry [symmetric])
    then show ?thesis
      using st kept(1) new(1) by (simp add: healthy_def disk_in_def holds_def)
  qed
qed

lemma healthy_committed:
  assumes "healthy path T w" and "file_committed path w t p = (r, w')"
  shows "healthy path T w'" and "r = Inr x \<Longrightarrow> x = file_view path w (t, p)"
proof -
  have "w_stat_faults w = []" using assms(1) by (simp add: healthy_def)
  from file_committed_frame [OF this assms(2)] show "healthy path T w'"
    using assms(1) by (simp add: healthy_def)
  show "r = Inr x \<Longrightarrow> x = file_view path w (t, p)"
    using file_committed_result(2) [OF healthy_inv [OF assms(1)] assms(2)] .
qed

text \<open>What survives a crash is again a store with positions in the set, and nothing of it is at risk.\<close>

lemma disk_in_crash:
  assumes "disk_in path T s"
  shows "disk_in path T (fs_crash c s)"
proof -
  have inv: "fs_inv (pb_name path) (tmp_name path) s" and dir: "fs_present s" "fs_durable s"
    using assms by (simp_all add: disk_in_def holds_def)
  have "fs_read (fs_crash c s) (pb_name path) \<in> tables T"
    using crash_reads [OF inv, of c] assms by (auto simp: disk_in_def holds_def)
  moreover have "possible_contents (fs_crash c s) (pb_name path) = {fs_read (fs_crash c s) (pb_name path)}"
    using fs_inv_crash(2) [OF inv, of c] dir(2) by simp
  ultimately show ?thesis
    using fs_inv_crash(1) [OF inv, of c] dir by (simp add: disk_in_def holds_def) (simp add: fs_crash_def)
qed

text \<open>The outcomes of later calls are the environment's, and the trace is a record only.\<close>

definition restarted :: "fs \<Rightarrow> fault option list \<Rightarrow> string option list \<Rightarrow> world" where
  "restarted s faults joins =
     \<lparr>w_fs = s, w_faults = faults, w_stat_faults = [], w_joins = joins, w_trace = []\<rparr>"

lemma healthy_restarted: "disk_in path T s \<Longrightarrow> healthy path T (restarted s faults joins)"
  by (simp add: healthy_def restarted_def)

lemma healthy_disk: "healthy path T w \<Longrightarrow> disk_in path T (w_fs w)"
  by (simp add: healthy_def)

end
