(* ===== verification/Ack_Retry.thy ===== *)
theory Ack_Retry
  imports At_Least_Once
begin

text \<open>
  \<open>src/at_least_once.rs\<close> over the file store of \<open>src/offset.rs\<close>: a caller that calls \<open>ack\<close> again
  after an error. A failed \<open>ack\<close> keeps the message pending, and every failure of a healthy store
  is due to a system call or a blocking task that failed: with finitely many of them the position is
  committed in the end.
\<close>

section \<open>Failures are due to faults\<close>

definition faults_left :: "world \<Rightarrow> nat" where
  "faults_left w = length (filter (\<lambda>f. f \<noteq> None) (w_faults w)) + length (filter (\<lambda>j. j \<noteq> None) (w_joins w))"

text \<open>\<open>within k P\<close>: the file system satisfies \<open>P\<close> and at most \<open>k\<close> faults are to come.\<close>

definition within :: "nat \<Rightarrow> (fs \<Rightarrow> bool) \<Rightarrow> world \<Rightarrow> bool" where
  "within k P w = (P (w_fs w) \<and> faults_left w \<le> k)"

definition fewer :: "nat \<Rightarrow> world \<Rightarrow> bool" where
  "fewer k w = (faults_left w < k)"

text \<open>A call that cannot fail by itself fails only by using up a fault.\<close>

lemma runs_faultless:
  assumes "\<And>s. P s \<Longrightarrow> \<exists>x s'. call s = (Inr x, s') \<and> Q x s'"
  shows "runs (within k P) (syscall failed call) (\<lambda>x. within k (Q x)) (fewer k)"
  unfolding runs_def
proof (intro allI impI)
  fix w assume w: "within k P w"
  then have "P (w_fs w)" by (simp add: within_def)
  from assms [OF this] obtain x s where call: "call (w_fs w) = (Inr x, s)" "Q x s" by blast
  show "case syscall failed call w of (Inr x, w') \<Rightarrow> within k (Q x) w' | (Inl e, w') \<Rightarrow> fewer k w'"
    using w call
    by (cases "w_faults w"; cases "hd (w_faults w)")
      (auto simp: syscall_def set_fs_def within_def fewer_def faults_left_def)
qed

lemma runs_within_load:
  assumes "\<And>w. P w \<Longrightarrow> faults_left w \<le> k \<and> w_stat_faults w = [] \<and> file_table path w \<noteq> None"
  shows "runs P (load_map path) (\<lambda>_. within k (\<lambda>_. True)) (fewer k)"
  unfolding runs_def
proof (intro allI impI)
  fix w assume "P w"
  note w = assms [OF this]
  then show "case load_map path w of (Inr x, w') \<Rightarrow> within k (\<lambda>_. True) w' | (Inl e, w') \<Rightarrow> fewer k w'"
    by (cases "w_faults w"; cases "hd (w_faults w)")
      (auto simp: load_map_def io_bind_def io_return_def sys_exists_def sys_read_to_string_def
        syscall_def set_fs_def within_def fewer_def faults_left_def file_table_def text_table_def
        split: option.splits sum.splits if_splits prod.splits)
qed

lemma runs_within_save:
  assumes "pb_parent path \<noteq> []"
  shows "runs (within k (\<lambda>_. True)) (save_map path m) (\<lambda>_. within k (\<lambda>_. True)) (fewer k)"
proof -
  let ?tmp = "\<lambda>s. fs_present s \<and> fs_dir s (tmp_name path) \<noteq> None"
  have mkdir: "runs (within k (\<lambda>_. True)) sys_create_dir_all (\<lambda>_. within k fs_present) (fewer k)"
    unfolding sys_create_dir_all_def by (rule runs_faultless) (simp add: fs_create_dir_all_def)
  have create: "runs (within k fs_present) (sys_open_truncate (tmp_name path)) (\<lambda>_. within k ?tmp) (fewer k)"
    unfolding sys_open_truncate_def
    by (rule runs_faultless) (auto simp: fs_open_truncate_def fs_change_dir_def split: option.splits)
  have put: "runs (within k ?tmp) (sys_write_all fd (offset_body m)) (\<lambda>_. within k ?tmp) (fewer k)" for fd
    unfolding sys_write_all_def
    by (rule runs_faultless) (auto simp: fs_append_def split: option.splits)
  have flush: "runs (within k ?tmp) (sys_sync_all fd) (\<lambda>_. within k ?tmp) (fewer k)" for fd
    unfolding sys_sync_all_def
    by (rule runs_faultless) (auto simp: fs_sync_file_def split: option.splits)
  have move: "runs (within k ?tmp) (sys_rename (tmp_name path) (pb_name path)) (\<lambda>_. within k fs_present) (fewer k)"
    unfolding sys_rename_def
    by (rule runs_faultless) (auto simp: fs_rename_def fs_change_dir_def)
  have dir: "runs (within k fs_present) sys_open_dir (\<lambda>_. within k (\<lambda>_. True)) (fewer k)"
    unfolding sys_open_dir_def by (rule runs_faultless) simp
  have syncs: "runs (within k (\<lambda>_. True)) sys_sync_dir (\<lambda>_. within k (\<lambda>_. True)) (fewer k)"
    unfolding sys_sync_dir_def by (rule runs_faultless) simp
  show ?thesis
    unfolding save_map_def using assms
    by (simp, intro runs_bind [OF mkdir] runs_bind [OF create] runs_bind [OF put] runs_bind [OF flush]
        runs_bind [OF move] runs_bind [OF dir] syncs)
qed

text \<open>The blocking task of a call starts, or uses up a fault.\<close>

lemma spawn_faults:
  fixes task :: "'a io"
  assumes "\<And>w1. w1 = w\<lparr>w_joins := tl (w_joins w)\<rparr> \<Longrightarrow> faults_left w1 = faults_left w \<Longrightarrow>
      runs (\<lambda>v. v = w1) task (\<lambda>_. within (faults_left w) (\<lambda>_. True)) (fewer (faults_left w))"
    and "spawn_blocking task w = (r, w')"
  shows "case r of Inl _ \<Rightarrow> faults_left w' < faults_left w | Inr _ \<Rightarrow> faults_left w' \<le> faults_left w"
proof (cases "w_joins w = [] \<or> hd (w_joins w) = None")
  case False
  then show ?thesis using assms(2) by (cases "w_joins w") (auto simp: spawn_blocking_def faults_left_def)
next
  case True
  define w1 where "w1 = w\<lparr>w_joins := tl (w_joins w)\<rparr>"
  have "faults_left w1 = faults_left w" using True by (cases "w_joins w") (auto simp: w1_def faults_left_def)
  from assms(1) [OF w1_def this] have "runs (\<lambda>v. v = w1) task (\<lambda>_. within (faults_left w) (\<lambda>_. True)) (fewer (faults_left w))" .
  moreover have "task w1 = (r, w')"
    using assms(2) True by (cases "w_joins w") (auto simp: spawn_blocking_def w1_def)
  ultimately show ?thesis by (auto simp: fewer_def within_def dest!: runsD split: sum.splits)
qed

text \<open>A call on a healthy store that fails has used up a fault, and no call brings new ones.\<close>

lemma load_faults:
  assumes "file_inv path w" and "w1 = w\<lparr>w_joins := tl (w_joins w)\<rparr>" and "faults_left w1 = k"
  shows "runs (\<lambda>v. v = w1) (load_map path) (\<lambda>_. within k (\<lambda>_. True)) (fewer k)"
proof (rule runs_within_load)
  have "file_table path w1 \<noteq> None" "w_stat_faults w1 = []"
    using assms(1) by (auto simp: assms(2) file_table_def file_inv_def split: option.splits)
  then show "faults_left v \<le> k \<and> w_stat_faults v = [] \<and> file_table path v \<noteq> None" if "v = w1" for v
    using that assms(3) by simp
qed

lemma commit_faults:
  assumes inv: "file_inv path w" and c: "committable off" and parent: "pb_parent path \<noteq> []"
    and run: "file_commit path w t p off = (r, w')"
  shows "case r of Inl _ \<Rightarrow> faults_left w' < faults_left w | Inr _ \<Rightarrow> faults_left w' \<le> faults_left w"
proof (rule spawn_faults)
  show "spawn_blocking (io_bind (load_map path) (\<lambda>m. save_map path (entry_max m (t, p) (off + 1)))) w = (r, w')"
    using run c by (simp add: file_commit_def)
qed (rule runs_bind [OF load_faults [OF inv]], assumption, assumption, rule runs_within_save [OF parent])

lemma failed_commit_faults:
  assumes "file_inv path w" and "committable off" and "pb_parent path \<noteq> []"
    and "file_commit path w t p off = (Inl e, w')"
  shows "faults_left w' < faults_left w"
  using commit_faults [OF assms] by simp

lemma committed_faults:
  assumes inv: "file_inv path w" and run: "file_committed path w t p = (r, w')"
  shows "case r of Inl _ \<Rightarrow> faults_left w' < faults_left w | Inr _ \<Rightarrow> faults_left w' \<le> faults_left w"
proof (rule spawn_faults)
  show "spawn_blocking (io_bind (load_map path) (\<lambda>m. io_return (Inr (map_of m (t, p))))) w = (r, w')"
    using run by (simp add: file_committed_def)
qed (rule runs_bind [OF load_faults [OF inv]], assumption, assumption, simp add: runs_def io_return_def)

section \<open>Retrying\<close>

text \<open>At most \<open>n\<close> calls of \<open>ack\<close>, until one returns \<open>Ok\<close>; whether one did.\<close>

primrec retry_ack ::
  "('st \<Rightarrow> string \<Rightarrow> i32 \<Rightarrow> i64 \<Rightarrow> unit kafka_result \<times> 'st) \<Rightarrow> nat \<Rightarrow> 'st \<Rightarrow> 'k alo \<Rightarrow> bool \<times> 'st \<times> 'k alo"
where
  "retry_ack commit 0 st a = (False, st, a)"
| "retry_ack commit (Suc n) st a =
     (case alo_ack commit st a of
        (Inl _, st', a') \<Rightarrow> retry_ack commit n st' a'
      | (Inr _, st', a') \<Rightarrow> (True, st', a'))"

lemma alo_ack_pending:
  assumes "al_pending a = Some m" and "\<not> al_terminated a"
  shows "alo_ack commit st a =
    (case commit st (km_topic m) (km_partition m) (km_offset m) of
       (Inl e, st') \<Rightarrow> (Inl e, st', a) | (Inr _, st') \<Rightarrow> (Inr (), st', a\<lparr>al_pending := None\<rparr>))"
  using assms by (simp add: alo_ack_def ensure_active_def)

lemma advance_again: "smax (advance x n) n = advance x n"
  by (cases x) (simp_all add: advance_def smax_def)

section \<open>Properties\<close>

text \<open>C24. A retried \<open>ack\<close> succeeds: with a message pending over a healthy file store, whose
  existence queries do not fail, a caller that repeats \<open>ack\<close> more often than system calls and blocking
  tasks will still fail gets an \<open>Ok\<close>, the message is no longer pending, its partition's position is advanced past it and no other position
  has changed, however often and wherever the earlier attempts failed.\<close>

theorem retried_ack_succeeds:
  assumes "file_inv path w" and "pb_parent path \<noteq> []" and "clean_topic (km_topic m)"
    and "committable (km_offset m)" and "al_pending a = Some m" and "\<not> al_terminated a"
    and "faults_left w < n"
  shows "\<exists>w'. retry_ack (file_commit path) n w a = (True, w', a\<lparr>al_pending := None\<rparr>) \<and>
    file_view path w' = (file_view path w)((km_topic m, km_partition m) \<mapsto>
      advance (file_view path w (km_topic m, km_partition m)) (km_offset m + 1))"
  using assms(1,7)
proof (induction n arbitrary: w)
  case (Suc n)
  let ?k = "(km_topic m, km_partition m)" and ?n = "km_offset m + 1"
  obtain r w1 where run: "file_commit path w (km_topic m) (km_partition m) (km_offset m) = (r, w1)" by fastforce
  note after = file_commit_result [OF Suc.prems(1) assms(3,4) run]
  note ack = alo_ack_pending [OF assms(5,6), of "file_commit path" w]
  show ?case
  proof (cases r)
    case (Inl e)
    then have "faults_left w1 < n"
      using failed_commit_faults [OF Suc.prems(1) assms(4,2)] run Suc.prems(2) by fastforce
    from Suc.IH [OF after(1) this] obtain w' where w': "retry_ack (file_commit path) n w1 a = (True, w', a\<lparr>al_pending := None\<rparr>)"
      "file_view path w' = (file_view path w1)(?k \<mapsto> advance (file_view path w1 ?k) ?n)" by blast
    have "file_view path w' = (file_view path w)(?k \<mapsto> advance (file_view path w ?k) ?n)"
      using after(2) w'(2) by (auto simp: advance_again)
    moreover have "retry_ack (file_commit path) (Suc n) w a = (True, w', a\<lparr>al_pending := None\<rparr>)"
      using w'(1) ack run Inl by simp
    ultimately show ?thesis by blast
  next
    case (Inr u)
    with ack run after(2) show ?thesis by auto
  qed
qed simp

text \<open>Three attempts where the first has a full disk and the second cannot start its task.\<close>

definition sample_message :: kafka_message where
  "sample_message =
     \<lparr>km_topic = ''orders'', km_partition = 2, km_offset = 150, km_payload = None, km_key = None,
      km_headers = Map.empty, km_timestamp = None\<rparr>"

definition faulty_world :: world where
  "faulty_world = (quiet_world sample_fs)\<lparr>
     w_faults := [None, None, Some \<lparr>flt_error = IoError StorageFull [], flt_written = 0\<rparr>],
     w_joins := [None, Some ''shut down'']\<rparr>"

definition sample_pending :: "unit alo" where
  "sample_pending =
     \<lparr>al_inner = (), al_topic = ''orders'', al_partition = 2, al_pending = Some sample_message, al_terminated = False\<rparr>"

theorem retried_ack_succeeds_witness:
  "\<exists>w'. retry_ack (file_commit sample_path) 3 faulty_world sample_pending =
      (True, w', sample_pending\<lparr>al_pending := None\<rparr>) \<and>
    file_view sample_path w' = (file_view sample_path faulty_world)((''orders'', 2) \<mapsto>
      advance (file_view sample_path faulty_world (''orders'', 2)) 151)"
proof -
  have "file_inv sample_path faulty_world"
    using sample_inv by (simp add: file_inv_def faulty_world_def file_table_def)
  moreover have "faults_left faulty_world = 2"
    by (simp add: faulty_world_def faults_left_def quiet_world_def)
  moreover have "committable 150" by code_simp
  ultimately show ?thesis
    using retried_ack_succeeds [of sample_path faulty_world sample_message sample_pending 3] sample_clean
    by (simp add: sample_message_def sample_pending_def sample_path_def)
qed

end
