(* ===== verification/File_Refinement.thy ===== *)
theory File_Refinement
  imports Ack_Retry File_Crash
begin

text \<open>
  The two stores of \<open>src/offset.rs\<close> side by side: any sequence of calls of the trait on a healthy file
  store, with failing system calls and blocking tasks, is a sequence of calls on the in-memory store in
  which some commits may be missing; their number is bounded by the faults.
\<close>

section \<open>Calls on the two stores\<close>

definition memory_run :: "file_op \<Rightarrow> memory_store \<Rightarrow> reply kafka_result \<times> memory_store" where
  "memory_run op m =
     (case op of
        OpCommit topic part offset \<Rightarrow> apfst (map_sum id (\<lambda>_. Stored)) (memory_commit m topic part offset)
      | OpCommitted topic part \<Rightarrow> apfst (map_sum id Position) (memory_committed m topic part))"

fun run_calls :: "(file_op \<Rightarrow> 's \<Rightarrow> reply kafka_result \<times> 's) \<Rightarrow> file_op list \<Rightarrow> 's \<Rightarrow> reply kafka_result list \<times> 's" where
  "run_calls run [] s = ([], s)"
| "run_calls run (op # ops) s =
     (case run op s of (r, s') \<Rightarrow> case run_calls run ops s' of (rs, s'') \<Rightarrow> (r # rs, s''))"

text \<open>
  \<open>mirrored ops rs m m' k\<close>: replies that the in-memory store gives on its way from \<open>m\<close> to \<open>m'\<close>, but for \<open>k\<close>
  calls that fail instead; such a call has had its whole effect or none.
\<close>

inductive mirrored :: "file_op list \<Rightarrow> reply kafka_result list \<Rightarrow> memory_store \<Rightarrow> memory_store \<Rightarrow> nat \<Rightarrow> bool" where
  none: "mirrored [] [] m m 0"
| same: "memory_run op m = (r, m1) \<Longrightarrow> mirrored ops rs m1 m' k \<Longrightarrow> mirrored (op # ops) (r # rs) m m' k"
| failed: "m1 = m \<or> m1 = snd (memory_run op m) \<Longrightarrow> mirrored ops rs m1 m' k \<Longrightarrow>
     mirrored (op # ops) (Inl e # rs) m m' (Suc k)"

lemma mirrored_faultless:
  assumes "mirrored ops rs m m' k" and "k = 0"
  shows "run_calls memory_run ops m = (rs, m')"
  using assms by (induction rule: mirrored.induct) auto

section \<open>One call\<close>

text \<open>On a store that holds what the memory holds, a call gives the reply of the memory and leaves what it
  leaves, or fails by using up a fault and has the effect on the memory or none.\<close>

lemma one_call:
  assumes inv: "file_inv path w" and parent: "pb_parent path \<noteq> []" and clean: "clean_op op"
    and m: "map_of m = file_view path w" and run: "op_run path op w = (r, w')"
  shows "file_inv path w' \<and> (\<exists>m'. map_of m' = file_view path w' \<and>
    (memory_run op m = (r, m') \<and> faults_left w' \<le> faults_left w \<or>
     (\<exists>e. r = Inl e) \<and> (m' = m \<or> m' = snd (memory_run op m)) \<and> faults_left w' < faults_left w))"
proof (cases op)
  case (OpCommitted t p)
  then obtain x where x: "file_committed path w t p = (x, w')" "r = map_sum id Position x"
    using run by (auto simp: op_run_def apfst_def map_prod_def split: prod.splits)
  note same = file_committed_result [OF inv x(1)] committed_faults [OF inv x(1)]
  show ?thesis
  proof (cases x)
    case (Inl e)
    then show ?thesis using same m x(2) by auto
  next
    case (Inr v)
    then show ?thesis
      using same m x(2) by (auto simp: memory_run_def memory_committed_def OpCommitted)
  qed
next
  case (OpCommit t p off)
  then obtain x where x: "file_commit path w t p off = (x, w')" "r = map_sum id (\<lambda>_. Stored) x"
    using run by (auto simp: op_run_def apfst_def map_prod_def split: prod.splits)
  have t: "clean_topic t" using clean by (simp add: clean_op_def OpCommit)
  show ?thesis
  proof (cases "committable off")
    case False
    then have "\<exists>e. file_commit path w t p off = (Inl e, w) \<and> memory_commit m t p off = (Inl e, m)"
      by (cases "sint off < 0") (simp_all add: file_commit_def memory_commit_def next_offset_of_cases)
    then show ?thesis using x inv m by (auto simp: memory_run_def OpCommit)
  next
    case True
    define m' where "m' = entry_max m (t, p) (off + 1)"
    have mem: "memory_run op m = (Inr Stored, m')"
      using True by (simp add: memory_run_def memory_commit_def OpCommit m'_def)
    have m': "map_of m' = (file_view path w)((t, p) \<mapsto> advance (file_view path w (t, p)) (off + 1))"
      by (simp add: m'_def map_of_entry_max m)
    note after = file_commit_result [OF inv t True x(1)] and faults = commit_faults [OF inv True parent x(1)]
    show ?thesis
    proof (cases x)
      case (Inl e)
      then show ?thesis using after faults m m' mem x(2) by auto
    next
      case (Inr u)
      then show ?thesis using after faults m' mem x(2) by auto
    qed
  qed
qed

section \<open>Properties\<close>

text \<open>C20. The file store behaves like the in-memory store. Take a healthy file store whose path
  names a directory and a memory that holds the same positions, and make any sequence of calls of the trait, with
  topics that the file can represent, whatever system calls other than the existence query and
  whatever blocking tasks fail. The memory then gives the same replies, positions and refused offsets
  included, except for calls that fail because of a fault, at most as many as there are faults, each of
  which has had its whole effect or none; and at the end both stores hold the same positions. Without
  faults all replies are the same.\<close>

theorem file_store_refines_memory:
  assumes "file_inv path w" and "pb_parent path \<noteq> []" and "list_all clean_op ops" and "map_of m = file_view path w"
  shows "(\<exists>m' k. mirrored ops (fst (run_calls (op_run path) ops w)) m m' k \<and>
      map_of m' = file_view path (snd (run_calls (op_run path) ops w)) \<and>
      k + faults_left (snd (run_calls (op_run path) ops w)) \<le> faults_left w) \<and>
    (faults_left w = 0 \<longrightarrow>
      fst (run_calls (op_run path) ops w) = fst (run_calls memory_run ops m) \<and>
      file_view path (snd (run_calls (op_run path) ops w)) = map_of (snd (run_calls memory_run ops m)))"
proof -
  have "\<exists>m' k. mirrored ops (fst (run_calls (op_run path) ops w)) m m' k \<and>
      map_of m' = file_view path (snd (run_calls (op_run path) ops w)) \<and>
      k + faults_left (snd (run_calls (op_run path) ops w)) \<le> faults_left w"
    using assms(1,3,4)
  proof (induction ops arbitrary: w m)
    case Nil
    then show ?case by (auto intro: mirrored.none)
  next
    case (Cons op ops)
    obtain r w1 where run: "op_run path op w = (r, w1)" by fastforce
    have op: "clean_op op" "list_all clean_op ops" using Cons.prems(2) by simp_all
    from one_call [OF Cons.prems(1) assms(2) op(1) Cons.prems(3) run] obtain m1 where m1: "file_inv path w1"
      "map_of m1 = file_view path w1"
      "memory_run op m = (r, m1) \<and> faults_left w1 \<le> faults_left w \<or>
       (\<exists>e. r = Inl e) \<and> (m1 = m \<or> m1 = snd (memory_run op m)) \<and> faults_left w1 < faults_left w" by blast
    from Cons.IH [OF m1(1) op(2) m1(2)] obtain m' k where rest: "mirrored ops (fst (run_calls (op_run path) ops w1)) m1 m' k"
      "map_of m' = file_view path (snd (run_calls (op_run path) ops w1))"
      "k + faults_left (snd (run_calls (op_run path) ops w1)) \<le> faults_left w1" by blast
    have all: "run_calls (op_run path) (op # ops) w = (r # fst (run_calls (op_run path) ops w1), snd (run_calls (op_run path) ops w1))"
      by (simp add: run case_prod_beta)
    from m1(3) show ?case
    proof
      assume "memory_run op m = (r, m1) \<and> faults_left w1 \<le> faults_left w"
      then show ?thesis unfolding all using rest mirrored.same [OF _ rest(1)] by (intro exI [of _ m'] exI [of _ k]) auto
    next
      assume "(\<exists>e. r = Inl e) \<and> (m1 = m \<or> m1 = snd (memory_run op m)) \<and> faults_left w1 < faults_left w"
      then show ?thesis unfolding all using rest mirrored.failed [OF _ rest(1)]
        by (intro exI [of _ m'] exI [of _ "Suc k"]) auto
    qed
  qed
  then show ?thesis using mirrored_faultless by fastforce
qed

text \<open>Two commits of which the first fails at a full disk, a refused offset and a read.\<close>

definition sample_calls :: "file_op list" where
  "sample_calls = [OpCommit ''orders'' 2 150, OpCommit ''orders'' 2 160, OpCommit ''a'' 0 (- 7), OpCommitted ''orders'' 2]"

lemma file_store_refines_memory_witness:
  "(\<exists>m' k. mirrored sample_calls (fst (run_calls (op_run sample_path) sample_calls faulty_world)) [((''orders'', 2), 100)] m' k \<and>
      map_of m' = file_view sample_path (snd (run_calls (op_run sample_path) sample_calls faulty_world)) \<and> k \<le> 2) \<and>
   fst (run_calls (op_run sample_path) sample_calls (quiet_world sample_fs)) =
     fst (run_calls memory_run sample_calls [((''orders'', 2), 100)])"
proof -
  have inv: "file_inv sample_path faulty_world" and view: "map_of [((''orders'', 2), 100)] = file_view sample_path faulty_world"
    "map_of [((''orders'', 2), 100)] = file_view sample_path (quiet_world sample_fs)"
    using sample_inv sample_table by (simp_all add: file_inv_def faulty_world_def file_table_def file_view_def)
  have left: "faults_left faulty_world = 2" "faults_left (quiet_world sample_fs) = 0"
    by (simp_all add: faulty_world_def faults_left_def quiet_world_def)
  have clean: "list_all clean_op sample_calls" "pb_parent sample_path \<noteq> []" by code_simp+
  show ?thesis
    using file_store_refines_memory [OF inv clean(2,1) view(1)] file_store_refines_memory [OF sample_inv clean(2,1) view(2)] left
    by fastforce
qed

end
