(* ===== verification/Shutdown.thy ===== *)
theory Shutdown
  imports Consumer Lifecycle_Tasks
begin

text \<open>
  \<open>src/lifecycle.rs\<close> and \<open>src/consumer.rs\<close> together: any number of operations and \<open>close\<close> calls,
  where some operations are consumer sessions, whose background task owns the guard until it ends.
  The sessions poll the pool's shutdown channel, and read its flag in \<open>recv\<close>. First the lifecycle
  alone as a refinement of a gate; then the whole system. Everything holds for the memory orderings of
  the code; what sequentially consistent accesses would add is stated under \<open>latest\<close>.
\<close>

section \<open>The gate\<close>

text \<open>
  What the lifecycle promises: a gate that is shut once, the set of those inside, and the set of those
  who have been told that it is shut and never enter again. With \<open>strict\<close> nobody enters a shut gate.
\<close>

record gate =
  gt_shut :: bool
  gt_inside :: "nat set"
  gt_told :: "nat set"

inductive gate_step :: "bool \<Rightarrow> gate \<Rightarrow> gate \<Rightarrow> bool" for strict :: bool where
  enter: "i \<notin> gt_told g \<Longrightarrow> i \<notin> gt_inside g \<Longrightarrow> strict \<longrightarrow> \<not> gt_shut g \<Longrightarrow>
     gate_step strict g (g\<lparr>gt_inside := insert i (gt_inside g)\<rparr>)"
| leave: "i \<in> gt_inside g \<Longrightarrow> gate_step strict g (g\<lparr>gt_inside := gt_inside g - {i}\<rparr>)"
| shut: "gate_step strict g (g\<lparr>gt_shut := True\<rparr>)"
| tell: "gt_shut g \<Longrightarrow> gate_step strict g (g\<lparr>gt_told := insert i (gt_told g)\<rparr>)"

definition gate_of :: "('s, 'a, 'ar) tasks \<Rightarrow> gate" where
  "gate_of c =
     \<lparr>gt_shut = closed (life_of c), gt_inside = {i. tk_op c i = OpGranted}, gt_told = {i. knows_closed c i}\<rparr>"

text \<open>One access lets at most one caller learn of the closing.\<close>

lemma told_step:
  assumes "task_step rt latest n c c'" and "inv_memory c"
  shows "gt_told (gate_of c') = gt_told (gate_of c) \<or>
    (\<exists>i. gt_told (gate_of c') = insert i (gt_told (gate_of c)) \<and> gt_shut (gate_of c'))"
proof -
  have one: "\<exists>i. \<forall>j. j \<noteq> i \<longrightarrow> tk_op_view c' j = tk_op_view c j"
    using assms(1) by (cases rule: task_step.cases) auto
  then obtain i where i: "\<And>j. j \<noteq> i \<Longrightarrow> knows_closed c' j = knows_closed c j"
    unfolding knows_closed_def by metis
  show ?thesis
  proof (cases "knows_closed c' i \<and> \<not> knows_closed c i")
    case True
    then have "knows_closed c' j \<longleftrightarrow> j = i \<or> knows_closed c j" for j using i [of j] by (cases "j = i") auto
    then have "gt_told (gate_of c') = insert i (gt_told (gate_of c))" by (auto simp: gate_of_def)
    moreover have "gt_shut (gate_of c')"
      using knows_closed [OF step_memory(1) [OF assms] conjunct1 [OF True]] by (simp add: gate_of_def)
    ultimately show ?thesis by blast
  next
    case False
    then have "knows_closed c' j = knows_closed c j" for j
      using i [of j] knows_stays [OF assms, of i] by (cases "j = i") auto
    then show ?thesis by (simp add: gate_of_def)
  qed
qed

lemma told_follows:
  assumes "task_step rt latest n c c'" and "inv_memory c"
  shows "(gate_step latest)\<^sup>*\<^sup>* ((gate_of c')\<lparr>gt_told := gt_told (gate_of c)\<rparr>) (gate_of c')"
  using told_step [OF assms]
proof (elim disjE exE conjE)
  assume "gt_told (gate_of c') = gt_told (gate_of c)"
  then have "(gate_of c')\<lparr>gt_told := gt_told (gate_of c)\<rparr> = gate_of c'" by (simp add: gate_of_def)
  then show ?thesis by simp
next
  fix i assume i: "gt_told (gate_of c') = insert i (gt_told (gate_of c))" "gt_shut (gate_of c')"
  let ?g = "(gate_of c')\<lparr>gt_told := gt_told (gate_of c)\<rparr>"
  have "gate_step latest ?g (?g\<lparr>gt_told := insert i (gt_told ?g)\<rparr>)" using i(2) by (intro tell) simp
  moreover have "?g\<lparr>gt_told := insert i (gt_told ?g)\<rparr> = gate_of c'"
    by (simp add: i(1) [symmetric])
  ultimately show ?thesis by simp
qed

lemma inside_follows:
  assumes "task_step rt latest n c c'" and "inv_memory c"
  shows "(gate_step latest)\<^sup>*\<^sup>* (gate_of c) ((gate_of c')\<lparr>gt_told := gt_told (gate_of c)\<rparr>)"
proof -
  have same: ?thesis
    if "closed (life_of c') = closed (life_of c)" "{i. tk_op c' i = OpGranted} = {i. tk_op c i = OpGranted}"
    using that by (simp add: gate_of_def)
  show ?thesis
    using assms(1)
  proof (cases rule: task_step.cases)
    case (op_grant i j v)
    note now = granted_now [OF assms, of i]
    have "tk_op c' i = OpGranted" "tk_op c i \<noteq> OpGranted" by (simp_all add: op_grant(1,3))
    with now have i: "\<not> knows_closed c i" "life_of c' = life_of c" "latest \<Longrightarrow> \<not> closed (life_of c)" by simp_all
    have "(gate_of c')\<lparr>gt_told := gt_told (gate_of c)\<rparr> = (gate_of c)\<lparr>gt_inside := insert i (gt_inside (gate_of c))\<rparr>"
      using i(2) by (auto simp: gate_of_def op_grant(1))
    moreover have "gate_step latest (gate_of c) ((gate_of c)\<lparr>gt_inside := insert i (gt_inside (gate_of c))\<rparr>)"
      by (rule enter) (use i op_grant(3) in \<open>simp_all add: gate_of_def\<close>)
    ultimately show ?thesis by simp
  next
    case (op_release i m v)
    have closed: "closed (life_of c') = closed (life_of c)"
      using rmw_acq_relD(1) [OF op_release(4) inv_memoryD(1,2) [OF assms(2)]]
      by (simp add: op_release(1) life_of_def add_message_at)
    show ?thesis
    proof (cases "tk_op c i = OpGranted")
      case True
      have "(gate_of c')\<lparr>gt_told := gt_told (gate_of c)\<rparr> = (gate_of c)\<lparr>gt_inside := gt_inside (gate_of c) - {i}\<rparr>"
        using closed by (auto simp: gate_of_def op_release(1))
      moreover have "gate_step latest (gate_of c) ((gate_of c)\<lparr>gt_inside := gt_inside (gate_of c) - {i}\<rparr>)"
        by (rule leave) (simp add: gate_of_def True)
      ultimately show ?thesis by simp
    next
      case False
      then show ?thesis using closed by (intro same) (auto simp: op_release(1))
    qed
  next
    case (op_count i m v)
    then show ?thesis
      using rmw_acq_relD(1) [OF op_count(4) inv_memoryD(1,2) [OF assms(2)]]
      by (intro same) (auto simp: life_of_def add_message_at)
  next
    case (close_store k r m v)
    have "closed (life_of c')"
      using store_releaseD(1) [OF close_store(3) inv_memoryD(1,3) [OF assms(2)]]
      by (simp add: close_store(1) life_of_def add_message_at)
    then have "(gate_of c')\<lparr>gt_told := gt_told (gate_of c)\<rparr> = (gate_of c)\<lparr>gt_shut := True\<rparr>"
      by (simp add: gate_of_def close_store(1))
    then show ?thesis using shut [of latest "gate_of c"] by simp
  qed (intro same; auto simp: life_of_def split: if_splits)+
qed

lemma gate_simulation:
  "task_step rt latest n c c' \<Longrightarrow> inv_memory c \<Longrightarrow> (gate_step latest)\<^sup>*\<^sup>* (gate_of c) (gate_of c')"
  using inside_follows told_follows rtranclp_trans by metis

section \<open>The system\<close>

text \<open>The session of operation \<open>i\<close>, once it has its guard.\<close>

record ('s, 'a, 'ar, 'q) system =
  sy_tasks :: "('s, 'a, 'ar) tasks"
  sy_session :: "nat \<Rightarrow> 'q session option"

text \<open>
  What a session finds when it looks: the signal is behind the lock of its channel and up to date; the
  flag is an atomic load, which may still read the old value, unless loads read the last one.
\<close>

definition in_pool :: "('s, 'sr, 'a, 'ar) runtime \<Rightarrow> bool \<Rightarrow> ('s, 'a) lifecycle \<Rightarrow> 'q session \<Rightarrow> 'q session" where
  "in_pool rt latest l s =
     s\<lparr>ss_closed := (if latest then closed l else ss_closed s), ss_signal := wa_borrow (rt_shutdown rt) (shutdown l)\<rparr>"

text \<open>A session whose task still runs.\<close>

definition live :: "'q session option \<Rightarrow> bool" where
  "live x = (case x of None \<Rightarrow> False | Some s \<Rightarrow> (case ss_task s of TaskDone \<Rightarrow> False | _ \<Rightarrow> True))"

lemma live_simps [simp]: "\<not> live None" "live (Some s) \<longleftrightarrow> ss_task s \<noteq> TaskDone"
  by (simp_all add: live_def split: task_pc.split)

lemma live_iff: "live x \<longleftrightarrow> (\<exists>s. x = Some s \<and> ss_task s \<noteq> TaskDone)"
  by (cases x) simp_all

text \<open>The guard of a session moves only when its task has ended; a granted consumer starts a session.\<close>

definition guard_free :: "('s, 'a, 'ar, 'q) system \<Rightarrow> nat \<Rightarrow> bool" where
  "guard_free y i =
     (case sy_session y i of
        None \<Rightarrow> True
      | Some s \<Rightarrow> \<not> live (Some s) \<and> tk_op (sy_tasks y) i \<noteq> OpIdle)"

definition may_move :: "(nat \<Rightarrow> bool) \<Rightarrow> ('s, 'a, 'ar, 'q) system \<Rightarrow> ('s, 'a, 'ar) tasks \<Rightarrow> bool" where
  "may_move consumer y t =
     (\<forall>i. consumer i \<and> tk_op t i \<noteq> tk_op (sy_tasks y) i \<longrightarrow> guard_free y i)"

definition started ::
  "(kafka_message kafka_result, 'q) mpsc_api \<Rightarrow> (nat \<Rightarrow> bool) \<Rightarrow> ('s, 'a, 'ar) tasks \<Rightarrow>
   (nat \<Rightarrow> 'q session option) \<Rightarrow> nat \<Rightarrow> 'q session option"
where
  "started api consumer t ss i =
     (if consumer i \<and> ss i = None \<and> tk_op t i = OpGranted then Some (session_init api) else ss i)"

inductive system_step ::
  "('s, 'sr, 'a, 'ar) runtime \<Rightarrow> bool \<Rightarrow> (kafka_message kafka_result, 'q) mpsc_api \<Rightarrow> nat \<Rightarrow> (nat \<Rightarrow> bool) \<Rightarrow>
   (nat \<Rightarrow> string \<times> i32) \<Rightarrow> ('s, 'a, 'ar, 'q) system \<Rightarrow> ('s, 'a, 'ar, 'q) system \<Rightarrow> bool"
  for rt :: "('s, 'sr, 'a, 'ar) runtime" and latest :: bool and api :: "(kafka_message kafka_result, 'q) mpsc_api"
    and n :: nat and consumer :: "nat \<Rightarrow> bool" and assigned :: "nat \<Rightarrow> string \<times> i32"
where
  life_move: "task_step rt latest n (sy_tasks y) t \<Longrightarrow> may_move consumer y t \<Longrightarrow>
     system_step rt latest api n consumer assigned y
       (y\<lparr>sy_tasks := t, sy_session := started api consumer t (sy_session y)\<rparr>)"
| session_move: "sy_session y i = Some s \<Longrightarrow> l = life_of (sy_tasks y) \<Longrightarrow>
     session_step api (fst (assigned i)) (snd (assigned i)) (in_pool rt latest l s) s' \<Longrightarrow>
     in_pool rt latest l s' = s' \<Longrightarrow> ss_closed s' \<longrightarrow> closed l \<Longrightarrow>
     system_step rt latest api n consumer assigned y (y\<lparr>sy_session := (sy_session y)(i \<mapsto> s')\<rparr>)"

definition system_init :: "('s, 'sr, 'a, 'ar) runtime \<Rightarrow> ('s, 'a, 'ar, 'q) system" where
  "system_init rt = \<lparr>sy_tasks = tasks_init rt, sy_session = (\<lambda>_. None)\<rparr>"

inductive system_reachable ::
  "('s, 'sr, 'a, 'ar) runtime \<Rightarrow> bool \<Rightarrow> (kafka_message kafka_result, 'q) mpsc_api \<Rightarrow> nat \<Rightarrow> (nat \<Rightarrow> bool) \<Rightarrow>
   (nat \<Rightarrow> string \<times> i32) \<Rightarrow> ('s, 'a, 'ar, 'q) system \<Rightarrow> bool"
  for rt :: "('s, 'sr, 'a, 'ar) runtime" and latest :: bool and api :: "(kafka_message kafka_result, 'q) mpsc_api"
    and n :: nat and consumer :: "nat \<Rightarrow> bool" and assigned :: "nat \<Rightarrow> string \<times> i32"
where
  start: "system_reachable rt latest api n consumer assigned (system_init rt)"
| step: "system_reachable rt latest api n consumer assigned y \<Longrightarrow>
     system_step rt latest api n consumer assigned y y' \<Longrightarrow> system_reachable rt latest api n consumer assigned y'"

section \<open>The invariant\<close>

text \<open>A session whose task runs holds its guard, one that has read the flag as set is in a closed pool, and
  every session behaves as one of \<open>Consumer\<close>.\<close>

definition system_inv ::
  "('s, 'sr, 'a, 'ar) runtime \<Rightarrow> bool \<Rightarrow> (kafka_message kafka_result, 'q) mpsc_api \<Rightarrow> nat \<Rightarrow> (nat \<Rightarrow> bool) \<Rightarrow>
   (nat \<Rightarrow> string \<times> i32) \<Rightarrow> ('s, 'a, 'ar, 'q) system \<Rightarrow> bool"
where
  "system_inv rt latest api n consumer assigned y =
     (task_inv rt latest n (sy_tasks y) \<and>
      (\<forall>i. consumer i \<and> tk_op (sy_tasks y) i = OpGranted \<longrightarrow> sy_session y i \<noteq> None) \<and>
      (\<forall>i s. sy_session y i = Some s \<longrightarrow>
         consumer i \<and> (ss_task s \<noteq> TaskDone \<longrightarrow> tk_op (sy_tasks y) i = OpGranted) \<and>
         (ss_closed s \<longrightarrow> closed (life_of (sy_tasks y))) \<and>
         session_reachable api (fst (assigned i)) (snd (assigned i)) (in_pool rt latest (life_of (sy_tasks y)) s)))"

lemma in_pool_simps [simp]:
  "ss_task (in_pool rt latest l s) = ss_task s" "ss_queue (in_pool rt latest l s) = ss_queue s"
  "ss_pulled (in_pool rt latest l s) = ss_pulled s" "ss_received (in_pool rt latest l s) = ss_received s"
  "ss_signal (in_pool rt latest l s) = wa_borrow (rt_shutdown rt) (shutdown l)"
  "ss_closed (in_pool rt latest l s) = (if latest then closed l else ss_closed s)"
  by (simp_all add: in_pool_def)

text \<open>A session can learn of the flag and of the signal at any time.\<close>

lemma session_told:
  assumes "session_reachable api t p s"
  shows "session_reachable api t p (s\<lparr>ss_closed := a \<or> ss_closed s, ss_signal := b \<or> ss_signal s\<rparr>)"
proof -
  have "session_reachable api t p (s\<lparr>ss_closed := True\<rparr>)"
    using session_reachable.step [OF assms close_flag] .
  moreover have "session_reachable api t p (u\<lparr>ss_signal := True\<rparr>)" if "session_reachable api t p u" for u
    using session_reachable.step [OF that close_signal] .
  moreover have "s\<lparr>ss_closed := ss_closed s, ss_signal := x\<rparr> = s\<lparr>ss_signal := x\<rparr>"
    "s\<lparr>ss_closed := y, ss_signal := ss_signal s\<rparr> = s\<lparr>ss_closed := y\<rparr>" "s\<lparr>ss_signal := ss_signal s\<rparr> = s" for x y
    by (cases s; simp)+
  ultimately show ?thesis using assms by (cases a; cases b) simp_all
qed

text \<open>The lifecycle only ever raises the flag and the signal.\<close>

lemma signal_stays:
  "task_step rt latest n c c' \<Longrightarrow> runtime_laws rt \<Longrightarrow> wa_borrow (rt_shutdown rt) (tk_shutdown c) \<Longrightarrow>
   wa_borrow (rt_shutdown rt) (tk_shutdown c')"
  by (erule task_stepE) (auto simp: runtime_laws_def watch_lawsD)

lemma session_follows:
  assumes "task_step rt latest n c c'" and "runtime_laws rt" and "inv_memory c"
    and "session_reachable api t p (in_pool rt latest (life_of c) s)"
  shows "session_reachable api t p (in_pool rt latest (life_of c') s)"
proof -
  let ?u = "in_pool rt latest (life_of c) s"
  have "in_pool rt latest (life_of c') s =
    ?u\<lparr>ss_closed := (latest \<and> closed (life_of c')) \<or> ss_closed ?u,
       ss_signal := wa_borrow (rt_shutdown rt) (shutdown (life_of c')) \<or> ss_signal ?u\<rparr>"
    using closed_step [OF assms(1,3)] signal_stays [OF assms(1,2)]
    by (cases latest; cases "closed (life_of c)"; cases "wa_borrow (rt_shutdown rt) (tk_shutdown c)")
      (simp_all add: in_pool_def, simp_all add: life_of_def)
  then show ?thesis using session_told [OF assms(4)] by metis
qed

inductive_cases system_stepE: "system_step rt latest api n consumer assigned y y'"

lemma session_starts:
  "session_reachable api t p (in_pool rt latest l (session_init api))"
proof -
  have "in_pool rt latest l (session_init api) =
    (session_init api)\<lparr>ss_closed := (latest \<and> closed l) \<or> ss_closed (session_init api),
       ss_signal := wa_borrow (rt_shutdown rt) (shutdown l) \<or> ss_signal (session_init api)\<rparr>"
    by (simp add: in_pool_def session_init_def)
  then show ?thesis using session_told [OF session_reachable.start] by metis
qed

lemma system_invD:
  assumes "system_inv rt latest api n consumer assigned y"
  shows "task_inv rt latest n (sy_tasks y)"
    and "consumer i \<Longrightarrow> tk_op (sy_tasks y) i = OpGranted \<Longrightarrow> sy_session y i \<noteq> None"
    and "sy_session y i = Some s \<Longrightarrow> consumer i"
    and "sy_session y i = Some s \<Longrightarrow> ss_task s \<noteq> TaskDone \<Longrightarrow> tk_op (sy_tasks y) i = OpGranted"
    and "sy_session y i = Some s \<Longrightarrow> ss_closed s \<Longrightarrow> closed (life_of (sy_tasks y))"
    and "sy_session y i = Some s \<Longrightarrow>
      session_reachable api (fst (assigned i)) (snd (assigned i)) (in_pool rt latest (life_of (sy_tasks y)) s)"
  using assms by (simp_all add: system_inv_def)

lemma session_ends: "session_step api t p s s' \<Longrightarrow> ss_task s = TaskDone \<Longrightarrow> ss_task s' = TaskDone"
  by (auto elim: session_stepE)

lemma system_inv_step:
  assumes inv: "system_inv rt latest api n consumer assigned y"
    and "system_step rt latest api n consumer assigned y y'" and rt: "runtime_laws rt" "n < 2 ^ 64"
  shows "system_inv rt latest api n consumer assigned y'"
  using assms(2)
proof (cases rule: system_step.cases)
  case (life_move t)
  note c = system_invD [OF inv]
  note mem = task_invD(1) [OF c(1)]
  have t: "task_inv rt latest n t" using task_inv_step [OF life_move(2) c(1) rt] .
  have old: "consumer i \<and> (ss_task s \<noteq> TaskDone \<longrightarrow> tk_op t i = OpGranted) \<and> (ss_closed s \<longrightarrow> closed (life_of t)) \<and>
      session_reachable api (fst (assigned i)) (snd (assigned i)) (in_pool rt latest (life_of t) s)"
    if s: "sy_session y i = Some s" for i s
  proof -
    have "ss_task s \<noteq> TaskDone \<longrightarrow> tk_op t i = tk_op (sy_tasks y) i"
      using life_move(3) s c(3) [OF s] by (auto simp: may_move_def guard_free_def)
    with c(3-6) [OF s] session_follows [OF life_move(2) rt(1) mem] closed_step [OF life_move(2) mem] show ?thesis
      by simp
  qed
  have granted: "started api consumer t (sy_session y) i \<noteq> None" if "consumer i" "tk_op t i = OpGranted" for i
    using that by (simp add: started_def)
  have session: "consumer i \<and> (ss_task s \<noteq> TaskDone \<longrightarrow> tk_op t i = OpGranted) \<and> (ss_closed s \<longrightarrow> closed (life_of t)) \<and>
      session_reachable api (fst (assigned i)) (snd (assigned i)) (in_pool rt latest (life_of t) s)"
    if "started api consumer t (sy_session y) i = Some s" for i s
    using that old session_starts by (auto simp: started_def session_init_def split: if_splits)
  show ?thesis using session granted t by (simp add: system_inv_def life_move(1))
next
  case (session_move i s l s')
  note c = system_invD [OF inv]
  have "session_reachable api (fst (assigned i)) (snd (assigned i)) (in_pool rt latest (life_of (sy_tasks y)) s')"
    using session_reachable.step [OF c(6) [OF session_move(2)]] session_move(3-5) by metis
  moreover have "ss_task s' \<noteq> TaskDone \<longrightarrow> tk_op (sy_tasks y) i = OpGranted"
    using session_ends [OF session_move(4)] c(4) [OF session_move(2)] by auto
  ultimately show ?thesis using c session_move(1-3,6) by (simp add: system_inv_def)
qed

lemma system_inv_reachable:
  assumes "system_reachable rt latest api n consumer assigned y" and "runtime_laws rt" and "n < 2 ^ 64"
  shows "system_inv rt latest api n consumer assigned y"
  using assms(1)
proof (induction rule: system_reachable.induct)
  case start
  show ?case using task_inv_init [OF assms(2)] by (simp add: system_inv_def system_init_def) (simp add: tasks_init_def)
next
  case (step y y')
  then show ?case using system_inv_step assms(2,3) by blast
qed

section \<open>Shutting the system down\<close>

text \<open>What a session has pulled, and the work left: the accesses of the operations and one step for each
  live session.\<close>

definition pulled :: "'q session option \<Rightarrow> stream_item list" where
  "pulled x = (case x of None \<Rightarrow> [] | Some s \<Rightarrow> ss_pulled s)"

definition system_work :: "nat \<Rightarrow> ('s, 'a, 'ar, 'q) system \<Rightarrow> nat" where
  "system_work n y = (\<Sum>i<n. op_rank (tk_op (sy_tasks y) i) + of_bool (live (sy_session y i)))"

definition signal_sent :: "('s, 'sr, 'a, 'ar) runtime \<Rightarrow> ('s, 'a, 'ar, 'q) system \<Rightarrow> bool" where
  "signal_sent rt y = wa_borrow (rt_shutdown rt) (tk_shutdown (sy_tasks y))"

lemma pulled_simps [simp]: "pulled None = []" "pulled (Some s) = ss_pulled s" "ss_pulled (session_init api) = []"
  by (simp_all add: pulled_def session_init_def)

lemma system_work_less:
  assumes "i < n"
    and "op_rank (tk_op (sy_tasks y') i) + of_bool (live (sy_session y' i)) <
      op_rank (tk_op (sy_tasks y) i) + of_bool (live (sy_session y i))"
    and "\<And>j. j \<noteq> i \<Longrightarrow> tk_op (sy_tasks y') j = tk_op (sy_tasks y) j"
    and "\<And>j. j \<noteq> i \<Longrightarrow> live (sy_session y' j) \<longleftrightarrow> live (sy_session y j)"
  shows "system_work n y' < system_work n y"
  unfolding system_work_def
proof (rule sum_strict_mono_ex1)
  show "\<exists>j\<in>{..<n}. op_rank (tk_op (sy_tasks y') j) + of_bool (live (sy_session y' j)) <
      op_rank (tk_op (sy_tasks y) j) + of_bool (live (sy_session y j))"
    using assms(1,2) by blast
  show "\<forall>j\<in>{..<n}. op_rank (tk_op (sy_tasks y') j) + of_bool (live (sy_session y' j)) \<le>
      op_rank (tk_op (sy_tasks y) j) + of_bool (live (sy_session y j))"
  proof
    fix j
    show "op_rank (tk_op (sy_tasks y') j) + of_bool (live (sy_session y' j)) \<le>
      op_rank (tk_op (sy_tasks y) j) + of_bool (live (sy_session y j))"
      by (cases "j = i") (use assms(2-4) in auto)
  qed
qed simp

lemma system_work_more:
  assumes "i < n" and "tk_op (sy_tasks y) i = OpIdle" and "tk_op (sy_tasks y') = (tk_op (sy_tasks y))(i := OpChecked)"
    and "\<And>j. live (sy_session y' j) \<longleftrightarrow> live (sy_session y j)"
  shows "system_work n y' = system_work n y + 5"
proof -
  have "system_work n y' = (\<Sum>j<n. (op_rank (tk_op (sy_tasks y) j) + of_bool (live (sy_session y j))) + (if j = i then 5 else 0))"
    unfolding system_work_def by (rule sum.cong) (auto simp: assms(2-4))
  also have "\<dots> = system_work n y + 5" using assms(1) by (simp only: sum.distrib) (simp add: system_work_def sum.distrib)
  finally show ?thesis .
qed

text \<open>After the signal every live session can stop, in one step that nothing can block.\<close>

definition stopped :: "('s, 'sr, 'a, 'ar) runtime \<Rightarrow> bool \<Rightarrow> ('s, 'a, 'ar, 'q) system \<Rightarrow> 'q session \<Rightarrow> 'q session" where
  "stopped rt latest y s = (in_pool rt latest (life_of (sy_tasks y)) s)\<lparr>ss_task := TaskDone\<rparr>"

lemma life_of_fields: "shutdown (life_of c) = tk_shutdown c" "activity (life_of c) = tk_activity c"
  by (simp_all add: life_of_def)

lemma session_stops:
  assumes "sy_session y i = Some s" and "ss_task s \<noteq> TaskDone" and "signal_sent rt y"
    and "ss_closed s \<longrightarrow> closed (life_of (sy_tasks y))"
  shows "system_step rt latest api n consumer assigned y (y\<lparr>sy_session := (sy_session y)(i \<mapsto> stopped rt latest y s)\<rparr>)"
proof -
  define u where "u = in_pool rt latest (life_of (sy_tasks y)) s"
  have u: "ss_task u = ss_task s" "ss_signal u" using assms(3) by (simp_all add: u_def signal_sent_def life_of_fields)
  have "session_step api (fst (assigned i)) (snd (assigned i)) u (u\<lparr>ss_task := TaskDone\<rparr>)"
    using u assms(2) by (cases "ss_task s") (auto intro: pull_stop send_stop)
  moreover have "in_pool rt latest (life_of (sy_tasks y)) (u\<lparr>ss_task := TaskDone\<rparr>) = u\<lparr>ss_task := TaskDone\<rparr>"
    by (simp add: u_def in_pool_def)
  moreover have "ss_closed (u\<lparr>ss_task := TaskDone\<rparr>) \<longrightarrow> closed (life_of (sy_tasks y))"
    using assms(4) by (simp add: u_def)
  ultimately show ?thesis unfolding stopped_def u_def by (rule session_move [OF assms(1) refl])
qed

lemma live_granted:
  assumes "system_inv rt latest api n consumer assigned y" and "live (sy_session y i)"
  shows "i < n" and "tk_op (sy_tasks y) i = OpGranted"
proof -
  show granted: "tk_op (sy_tasks y) i = OpGranted"
    using assms(2) system_invD(4) [OF assms(1)] by (auto simp: live_iff)
  have "inv_count n (sy_tasks y)" using task_invD(2) [OF system_invD(1) [OF assms(1)]] .
  with granted show "i < n" by (metis inv_count_def not_le op_pc.distinct(5))
qed

lemma system_work_le:
  assumes "system_inv rt latest api n consumer assigned y"
  shows "system_work n y \<le> 5 * n"
proof -
  have "op_rank (tk_op (sy_tasks y) i) + of_bool (live (sy_session y i)) \<le> 5" for i
    using live_granted(2) [OF assms, of i] by (cases "tk_op (sy_tasks y) i") auto
  then have "system_work n y \<le> (\<Sum>i<n. 5)" unfolding system_work_def by (intro sum_mono) simp
  then show ?thesis by simp
qed

lemma session_stop_work:
  assumes "i < n" and "sy_session y i = Some s" and "ss_task s \<noteq> TaskDone" and "ss_task s' = TaskDone"
  shows "system_work n (y\<lparr>sy_session := (sy_session y)(i \<mapsto> s')\<rparr>) < system_work n y"
  by (rule system_work_less [OF assms(1)]) (use assms in auto)




lemma signal_follows:
  assumes "system_inv rt latest api n consumer assigned y" and "past_broadcast (tk_close (sy_tasks y) k)"
  shows "signal_sent rt y"
  using inv_flagsD(2) [OF task_invD(4) [OF system_invD(1) [OF assms(1)]] assms(2)] by (simp add: signal_sent_def)

lemma signal_closed:
  assumes "system_inv rt latest api n consumer assigned y" and "signal_sent rt y"
  shows "closed (life_of (sy_tasks y))"
proof -
  note D = task_invD [OF system_invD(1) [OF assms(1)]]
  show ?thesis
    by (rule flag_up [OF D(1) inv_memoryD(4) [OF D(1)] inv_flagsD(3) [OF D(4)]])
      (use assms(2) in \<open>simp add: signal_sent_def\<close>)
qed

text \<open>A step after the signal: the signal stays, nothing is pulled, and the work shrinks or a caller that
  does not know that the pool is closed makes its first check.\<close>

definition same_phase :: "'q session option \<Rightarrow> 'q session option \<Rightarrow> bool" where
  "same_phase x x' = (map_option (\<lambda>s. (ss_task s, ss_pulled s)) x' = map_option (\<lambda>s. (ss_task s, ss_pulled s)) x)"

definition moves :: "('s, 'a, 'ar, 'q) system \<Rightarrow> ('s, 'a, 'ar, 'q) system \<Rightarrow> bool" where
  "moves y y' = (tk_op (sy_tasks y') \<noteq> tk_op (sy_tasks y) \<or> (\<exists>i. \<not> same_phase (sy_session y i) (sy_session y' i)))"

definition starts :: "('s, 'a, 'ar, 'q) system \<Rightarrow> ('s, 'a, 'ar, 'q) system \<Rightarrow> nat \<Rightarrow> bool" where
  "starts y y' i = (tk_op (sy_tasks y) i = OpIdle \<and> tk_op (sy_tasks y') i = OpChecked)"

lemma signalled_move:
  assumes "session_step api t p s s'" and "ss_signal s"
  shows "ss_pulled s' = ss_pulled s \<and> (ss_task s' = ss_task s \<or> ss_task s' = TaskDone)"
  using assms by (auto elim: session_stepE)

lemma signal_step:
  assumes step: "system_step rt latest api n consumer assigned y y'"
    and inv: "system_inv rt latest api n consumer assigned y"
    and rt: "runtime_laws rt" and sent: "signal_sent rt y"
  shows "signal_sent rt y'" and "pulled (sy_session y' i) = pulled (sy_session y i)"
    and "sy_session y i = Some s \<Longrightarrow> \<exists>s'. sy_session y' i = Some s' \<and> (ss_task s' = ss_task s \<or> ss_task s' = TaskDone)"
proof -
  have "signal_sent rt y' \<and> (\<forall>i. pulled (sy_session y' i) = pulled (sy_session y i)) \<and>
    (\<forall>i s. sy_session y i = Some s \<longrightarrow>
      (\<exists>s'. sy_session y' i = Some s' \<and> (ss_task s' = ss_task s \<or> ss_task s' = TaskDone)))"
    using step
  proof (cases rule: system_step.cases)
    case (life_move t)
    have "signal_sent rt y'"
      using sent life_move(1) signal_stays [OF life_move(2) rt] by (simp add: signal_sent_def)
    then show ?thesis by (simp add: life_move(1) started_def)
  next
    case (session_move i s l s')
    have "ss_signal (in_pool rt latest l s)" using sent session_move(3) by (simp add: signal_sent_def life_of_fields)
    from signalled_move [OF session_move(4) this] show ?thesis
      using sent session_move(2) by (auto simp: signal_sent_def) (auto simp: session_move(1))
  qed
  then show "signal_sent rt y'" and "pulled (sy_session y' i) = pulled (sy_session y i)"
    and "sy_session y i = Some s \<Longrightarrow> \<exists>s'. sy_session y' i = Some s' \<and> (ss_task s' = ss_task s \<or> ss_task s' = TaskDone)"
    by blast+
qed

text \<open>What a step does to the work that is left.\<close>

definition bounded_move :: "bool \<Rightarrow> nat \<Rightarrow> ('s, 'a, 'ar, 'q) system \<Rightarrow> ('s, 'a, 'ar, 'q) system \<Rightarrow> bool" where
  "bounded_move latest n y y' =
     ((\<exists>i<n. starts y y' i \<and> \<not> knows_closed (sy_tasks y) i \<and> \<not> latest \<and> system_work n y' = system_work n y + 5) \<or>
      (\<forall>i. \<not> starts y y' i) \<and>
        (if moves y y' then system_work n y' < system_work n y else system_work n y' = system_work n y))"

lemma life_bounded:
  assumes move: "task_step rt latest n (sy_tasks y) t" and inv: "system_inv rt latest api n consumer assigned y"
    and sent: "signal_sent rt y"
    and y': "y' = y\<lparr>sy_tasks := t, sy_session := started api consumer t (sy_session y)\<rparr>"
  shows "bounded_move latest n y y'"
proof -
  note mem = task_invD(1) [OF system_invD(1) [OF inv]]
  have old: "started api consumer t (sy_session y) i = sy_session y i"
    if "tk_op t i \<noteq> OpGranted \<or> tk_op (sy_tasks y) i = OpGranted" for i
    using that system_invD(2) [OF inv, of i] by (auto simp: started_def)
  show ?thesis
  proof (cases "tk_op t = tk_op (sy_tasks y)")
    case True
    with old have "started api consumer t (sy_session y) = sy_session y" by (intro ext) auto
    with True show ?thesis by (simp add: y' bounded_move_def moves_def starts_def same_phase_def system_work_def)
  next
    case False
    then obtain i where i: "tk_op t i \<noteq> tk_op (sy_tasks y) i" by blast
    note R = op_step_rank [OF move i]
    have other: "tk_op t j = tk_op (sy_tasks y) j" if "j \<noteq> i" for j using R(2) that by (metis fun_upd_other)
    have same: "started api consumer t (sy_session y) j = sy_session y j" if "j \<noteq> i" for j
      using old [of j] other [OF that] by auto
    show ?thesis
    proof (cases "tk_op (sy_tasks y) i = OpIdle")
      case True
      with i have new: "\<not> knows_closed (sy_tasks y) i" "\<not> latest" "tk_op t = (tk_op (sy_tasks y))(i := OpChecked)"
        using checked_now [OF move mem True] signal_closed [OF inv sent] by auto
      then have "started api consumer t (sy_session y) = sy_session y"
        using old [of i] same by (intro ext) (case_tac "x = i"; simp)
      then have "system_work n y' = system_work n y + 5"
        using R(1) True new(3) by (intro system_work_more [of i]) (simp_all add: y')
      then show ?thesis using R(1) True new by (auto simp: bounded_move_def starts_def y')
    next
      case active: False
      have "system_work n y' < system_work n y"
      proof (rule system_work_less [OF R(1)])
        show "op_rank (tk_op (sy_tasks y') i) + of_bool (live (sy_session y' i)) <
            op_rank (tk_op (sy_tasks y) i) + of_bool (live (sy_session y i))"
          using granted_now(1) [OF move mem, of i] old [of i] R(3) active i
          by (cases "tk_op t i = OpGranted") (auto simp: y')
      qed (simp_all add: y' other same)
      moreover have "\<not> starts y y' j" for j
        using active other [of j] by (cases "j = i") (auto simp: starts_def y')
      ultimately show ?thesis using i by (auto simp: bounded_move_def moves_def y')
    qed
  qed
qed

lemma session_bounded:
  assumes s: "sy_session y i = Some s" and s': "ss_pulled s' = ss_pulled s" "ss_task s' = ss_task s \<or> ss_task s' = TaskDone"
    and inv: "system_inv rt latest api n consumer assigned y"
    and y': "y' = y\<lparr>sy_session := (sy_session y)(i \<mapsto> s')\<rparr>"
  shows "bounded_move latest n y y'"
proof -
  have no: "\<not> starts y y' j" for j by (auto simp: starts_def y')
  show ?thesis
  proof (cases "ss_task s' = ss_task s")
    case True
    with s s'(1) have "\<not> moves y y'" by (auto simp: moves_def same_phase_def y')
    moreover have "live (sy_session y' j) \<longleftrightarrow> live (sy_session y j)" for j using True s by (auto simp: y')
    then have "system_work n y' = system_work n y" by (simp add: system_work_def) (simp add: y')
    ultimately show ?thesis using no by (simp add: bounded_move_def)
  next
    case False
    with s'(2) have ended: "ss_task s' = TaskDone" "ss_task s \<noteq> TaskDone" by auto
    have "i < n" using live_granted(1) [OF inv] s ended(2) by simp
    then have "system_work n y' < system_work n y" unfolding y' by (rule session_stop_work [OF _ s ended(2,1)])
    moreover have "moves y y'" using False s by (auto simp: moves_def same_phase_def y')
    ultimately show ?thesis using no by (simp add: bounded_move_def)
  qed
qed

lemma signal_bounded:
  assumes step: "system_step rt latest api n consumer assigned y y'"
    and inv: "system_inv rt latest api n consumer assigned y" and sent: "signal_sent rt y"
  shows "bounded_move latest n y y'"
  using step
proof (cases rule: system_step.cases)
  case (life_move t)
  show ?thesis by (rule life_bounded [OF life_move(2) inv sent life_move(1)])
next
  case (session_move i s l s')
  have "ss_signal (in_pool rt latest l s)" using sent session_move(3) by (simp add: signal_sent_def life_of_fields)
  from signalled_move [OF session_move(4) this] show ?thesis
    by (intro session_bounded [OF session_move(2) _ _ inv session_move(1)]) simp_all
qed

section \<open>Schedules\<close>

text \<open>An executable scheduler: a step of the lifecycle, or the end of a session's task.\<close>

datatype system_event = Life sched | Stop nat

fun system_sched ::
  "('s, 'sr, 'a, 'ar) runtime \<Rightarrow> (kafka_message kafka_result, 'q) mpsc_api \<Rightarrow> nat \<Rightarrow> (nat \<Rightarrow> bool) \<Rightarrow>
   system_event \<Rightarrow> ('s, 'a, 'ar, 'q) system \<Rightarrow> ('s, 'a, 'ar, 'q) system option"
where
  "system_sched rt api n consumer (Life e) y =
     (case sched_step rt n e (sy_tasks y) of
        None \<Rightarrow> None
      | Some t \<Rightarrow>
          if list_all (\<lambda>i. consumer i \<and> tk_op t i \<noteq> tk_op (sy_tasks y) i \<longrightarrow> guard_free y i) [0..<n]
          then Some (y\<lparr>sy_tasks := t, sy_session := started api consumer t (sy_session y)\<rparr>) else None)"
| "system_sched rt api n consumer (Stop i) y =
     (case sy_session y i of
        None \<Rightarrow> None
      | Some s \<Rightarrow>
          if live (Some s) \<and> signal_sent rt y \<and> (ss_closed s \<longrightarrow> closed (life_of (sy_tasks y)))
          then Some (y\<lparr>sy_session := (sy_session y)(i \<mapsto> stopped rt False y s)\<rparr>) else None)"

fun run_system ::
  "('s, 'sr, 'a, 'ar) runtime \<Rightarrow> (kafka_message kafka_result, 'q) mpsc_api \<Rightarrow> nat \<Rightarrow> (nat \<Rightarrow> bool) \<Rightarrow>
   system_event list \<Rightarrow> ('s, 'a, 'ar, 'q) system \<Rightarrow> ('s, 'a, 'ar, 'q) system option"
where
  "run_system rt api n consumer [] y = Some y"
| "run_system rt api n consumer (e # es) y =
     (case system_sched rt api n consumer e y of None \<Rightarrow> None | Some y' \<Rightarrow> run_system rt api n consumer es y')"

lemma system_sched_sound:
  assumes "system_sched rt api n consumer e y = Some y'" and "inv_memory (sy_tasks y)"
  shows "system_step rt False api n consumer assigned y y'"
proof (cases e)
  case (Life e')
  with assms obtain t where t: "sched_step rt n e' (sy_tasks y) = Some t"
    "list_all (\<lambda>i. consumer i \<and> tk_op t i \<noteq> tk_op (sy_tasks y) i \<longrightarrow> guard_free y i) [0..<n]"
    "y' = y\<lparr>sy_tasks := t, sy_session := started api consumer t (sy_session y)\<rparr>"
    by (auto split: option.splits if_splits)
  note step = sched_step_sound [OF t(1) assms(2), of False, simplified]
  have "may_move consumer y t"
    using t(2) op_step_rank(1) [OF step] unfolding may_move_def list_all_iff by auto
  then show ?thesis using life_move [OF step] t(3) by simp
next
  case (Stop i)
  with assms obtain s where s: "sy_session y i = Some s" "ss_task s \<noteq> TaskDone" "signal_sent rt y"
      "ss_closed s \<longrightarrow> closed (life_of (sy_tasks y))" "y' = y\<lparr>sy_session := (sy_session y)(i \<mapsto> stopped rt False y s)\<rparr>"
    by (auto split: option.splits if_splits)
  show ?thesis unfolding s(5) by (rule session_stops [OF s(1-4)])
qed

lemma run_system_sound:
  assumes "run_system rt api n consumer es y = Some y'" and "system_reachable rt False api n consumer assigned y"
    and "runtime_laws rt" and "n < 2 ^ 64"
  shows "system_reachable rt False api n consumer assigned y'"
  using assms(1,2)
proof (induction es arbitrary: y)
  case (Cons e es)
  then obtain z where z: "system_sched rt api n consumer e y = Some z" "run_system rt api n consumer es z = Some y'"
    by (auto split: option.splits)
  have "inv_memory (sy_tasks y)"
    using task_invD(1) [OF system_invD(1) [OF system_inv_reachable [OF Cons.prems(2) assms(3,4)]]] .
  from Cons.IH [OF z(2) system_reachable.step [OF Cons.prems(2) system_sched_sound [OF z(1) this]]] show ?case .
qed simp

text \<open>A consumer session holds the guard of operation 0 while \<open>close\<close> 7 waits; then its task stops, the
  guard is dropped and \<open>close\<close> returns. In the third run a session starts with old values of the flag,
  after \<open>close\<close> has returned.\<close>

type_synonym sample_system = "(bool \<times> nat, u64 \<times> nat, nat, kafka_message kafka_result list \<times> nat) system"

definition only_0 :: "nat \<Rightarrow> bool" where
  "only_0 i = (i = 0)"

definition sample_to_wait :: "system_event list" where
  "sample_to_wait = map Life
     [RunOp 0, RunOp 0, RunOp 0, RunClose 7, RunClose 7, RunClose 7, RunClose 7]"

definition sample_to_close :: "system_event list" where
  "sample_to_close = [Stop 0] @ map Life [RunOp 0, RunOp 0, RunClose 7, RunClose 7]"

definition sample_to_late :: "system_event list" where
  "sample_to_late = map Life [RunClose 7, RunClose 7, RunClose 7, RunClose 7, StaleOp 0, StaleOp 0, StaleOp 0]"

definition sample_busy :: sample_system where
  "sample_busy = the (run_system sample_rt list_mpsc 1 only_0 sample_to_wait (system_init sample_rt))"

definition sample_shut :: sample_system where
  "sample_shut = the (run_system sample_rt list_mpsc 1 only_0 sample_to_close sample_busy)"

definition sample_late :: sample_system where
  "sample_late = the (run_system sample_rt list_mpsc 1 only_0 sample_to_late (system_init sample_rt))"

lemma sample_busy_reachable:
  "system_reachable sample_rt False list_mpsc 1 only_0 (\<lambda>_. (''t'', 0)) sample_busy"
  "tk_close (sy_tasks sample_busy) 7 = ClWaiting 0" "signal_sent sample_rt sample_busy"
  "live (sy_session sample_busy 0)"
proof -
  have "run_system sample_rt list_mpsc 1 only_0 sample_to_wait (system_init sample_rt) \<noteq> None" by code_simp
  then have run: "run_system sample_rt list_mpsc 1 only_0 sample_to_wait (system_init sample_rt) = Some sample_busy"
    by (auto simp: sample_busy_def)
  show "system_reachable sample_rt False list_mpsc 1 only_0 (\<lambda>_. (''t'', 0)) sample_busy"
    by (rule run_system_sound [OF run system_reachable.start sample_rt_laws]) simp
qed (code_simp+)

lemma sample_shut_reachable:
  "system_reachable sample_rt False list_mpsc 1 only_0 (\<lambda>_. (''t'', 0)) sample_shut"
  "tk_close (sy_tasks sample_shut) 7 = ClDone"
proof -
  have "run_system sample_rt list_mpsc 1 only_0 sample_to_close sample_busy \<noteq> None" by code_simp
  then have run: "run_system sample_rt list_mpsc 1 only_0 sample_to_close sample_busy = Some sample_shut"
    by (auto simp: sample_shut_def)
  show "system_reachable sample_rt False list_mpsc 1 only_0 (\<lambda>_. (''t'', 0)) sample_shut"
    by (rule run_system_sound [OF run sample_busy_reachable(1) sample_rt_laws]) simp
qed code_simp

lemma sample_late_reachable:
  "system_reachable sample_rt False list_mpsc 1 only_0 (\<lambda>_. (''t'', 0)) sample_late"
  "tk_close (sy_tasks sample_late) 7 = ClDone" "live (sy_session sample_late 0)"
proof -
  have "run_system sample_rt list_mpsc 1 only_0 sample_to_late (system_init sample_rt) \<noteq> None" by code_simp
  then have run: "run_system sample_rt list_mpsc 1 only_0 sample_to_late (system_init sample_rt) = Some sample_late"
    by (auto simp: sample_late_def)
  show "system_reachable sample_rt False list_mpsc 1 only_0 (\<lambda>_. (''t'', 0)) sample_late"
    by (rule run_system_sound [OF run system_reachable.start sample_rt_laws]) simp
qed (code_simp+)

section \<open>Properties\<close>

text \<open>C16. The lifecycle refines a gate, with the memory orderings of the code: every atomic access of any
  task is, on the closed flag, the set of guard holders and the set of callers who have learned of the
  closing, a sequence of steps of a gate that is shut for good, of whose closing callers learn one by one
  and for good, only while it is shut, and that is entered only by callers who have not learned of it.
  When a \<open>close\<close> call has returned \<open>Ok\<close> the gate is shut, and nobody is inside whom the call has seen
  being counted. With sequentially consistent accesses nobody at all enters the shut gate, and nobody
  is inside.\<close>

theorem lifecycle_refines_gate:
  assumes "runtime_laws rt" and "n < 2 ^ 64" and "task_reachable rt latest n c" and "task_step rt latest n c c'"
  shows "gate_of (tasks_init rt) = \<lparr>gt_shut = False, gt_inside = {}, gt_told = {}\<rparr> \<and>
    (gate_step latest)\<^sup>*\<^sup>* (gate_of c) (gate_of c') \<and>
    (\<forall>k. close_result (tk_close c' k) = Some (Inr ()) \<longrightarrow>
       gt_shut (gate_of c') \<and> (\<forall>i\<in>gt_inside (gate_of c'). \<not> seen_counted c' k i) \<and>
       (latest \<longrightarrow> gt_inside (gate_of c') = {}))"
proof -
  have inv: "task_inv rt latest n c'"
    using task_inv_reachable [OF task_reachable.step [OF assms(3,4)] assms(1,2)] .
  have "gt_shut (gate_of c') \<and> (\<forall>i\<in>gt_inside (gate_of c'). \<not> seen_counted c' k i) \<and>
       (latest \<longrightarrow> gt_inside (gate_of c') = {})" if k: "tk_close c' k = ClDone" for k
    using closed_after_store [OF inv, of k] counted_unseen [OF inv k] task_invD(8) [OF inv] k
    by (auto simp: gate_of_def inv_drained_def)
  moreover have "gate_of (tasks_init rt) = \<lparr>gt_shut = False, gt_inside = {}, gt_told = {}\<rparr>"
    by (simp add: gate_of_def tasks_init_def life_of_def initial_memory_def initial_view_def knows_closed_def)
  ultimately show ?thesis
    using gate_simulation [OF assms(4) inv_memory_reachable [OF assms(3)]] by (simp add: close_result_Ok)
qed

lemma lifecycle_refines_gate_witness:
  "\<exists>c'. task_step sample_rt False 1 sample_waiting c' \<and> (gate_step False)\<^sup>*\<^sup>* (gate_of sample_waiting) (gate_of c')"
proof -
  obtain m v where "rmw_acq_rel (tk_memory sample_waiting) (tk_op_view sample_waiting 0) CountLocation usize_sub1 = (m, v)"
    by fastforce
  note step = op_release [where i = 0 and n = 1 and rt = sample_rt and latest = False, OF _ _ this]
  then show ?thesis
    using lifecycle_refines_gate [OF sample_rt_laws _ sample_waiting_reachable step] sample_waiting_run(3) by auto
qed

text \<open>C2. No consumer outlives the pool, with the memory orderings of the code: once some \<open>close\<close> call has
  returned \<open>Ok\<close>, then in that state and in every later one no session, old or new, has pulled another
  record from the broker; every session whose operation the call has seen being counted has ended its
  task; a task that still runs, or is even started by a caller that reads old values, holds a guard,
  neither pulls nor sends, and can stop at once: its next step stays where it is or ends it. With
  sequentially consistent accesses no task runs.\<close>

theorem closed_pool_has_no_consumer:
  assumes "runtime_laws rt" and "n < 2 ^ 64" and "system_reachable rt latest api n consumer assigned y"
    and "close_result (tk_close (sy_tasks y) k) = Some (Inr ())"
    and "(system_step rt latest api n consumer assigned)\<^sup>*\<^sup>* y y'"
  shows "pulled (sy_session y' i) = pulled (sy_session y i) \<and>
    (live (sy_session y' i) \<longrightarrow> \<not> latest \<and> \<not> seen_counted (sy_tasks y') k i \<and> tk_op (sy_tasks y') i = OpGranted \<and>
       (\<exists>z. system_step rt latest api n consumer assigned y' z \<and> \<not> live (sy_session z i))) \<and>
    (\<forall>s z s'. sy_session y' i = Some s \<and> system_step rt latest api n consumer assigned y' z \<and> sy_session z i = Some s' \<longrightarrow>
       ss_task s' = ss_task s \<or> ss_task s' = TaskDone)"
proof -
  have "system_inv rt latest api n consumer assigned y' \<and> tk_close (sy_tasks y') k = ClDone \<and>
      signal_sent rt y' \<and> pulled (sy_session y' i) = pulled (sy_session y i)"
    using assms(5)
  proof (induction rule: rtranclp_induct)
    case base
    have "tk_close (sy_tasks y) k = ClDone" using assms(4) by (simp add: close_result_Ok)
    then show ?case
      using system_inv_reachable [OF assms(3,1,2)] signal_follows [OF system_inv_reachable [OF assms(3,1,2)], of k] by simp
  next
    case (step z z')
    have "tk_close (sy_tasks z') k = ClDone"
      using step.hyps(2) step.IH by (cases rule: system_step.cases) (auto dest: task_step_Done)
    then show ?case
      using signal_step(1,2) [OF step.hyps(2) _ assms(1)] system_inv_step [OF _ step.hyps(2) assms(1,2)] step.IH
      by simp
  qed
  then have inv: "system_inv rt latest api n consumer assigned y'" and k: "tk_close (sy_tasks y') k = ClDone"
    and sent: "signal_sent rt y'" and pulled: "pulled (sy_session y' i) = pulled (sy_session y i)" by blast+
  note T = system_invD(1) [OF inv]
  have "\<not> latest \<and> \<not> seen_counted (sy_tasks y') k i \<and> tk_op (sy_tasks y') i = OpGranted"
    if "live (sy_session y' i)"
    using live_granted(2) [OF inv that] counted_unseen [OF T k] task_invD(8) [OF T] k
    by (auto simp: inv_drained_def)
  moreover have "\<exists>z. system_step rt latest api n consumer assigned y' z \<and> \<not> live (sy_session z i)"
    if "live (sy_session y' i)"
  proof -
    from that obtain s where s: "sy_session y' i = Some s" "ss_task s \<noteq> TaskDone" by (auto simp: live_iff)
    have "ss_closed s \<longrightarrow> closed (life_of (sy_tasks y'))" using system_invD(5) [OF inv s(1)] by blast
    from session_stops [OF s sent this, of latest api n consumer assigned] show ?thesis
      by (rule_tac exI, rule_tac conjI, assumption) (simp add: stopped_def)
  qed
  moreover have "ss_task s' = ss_task s \<or> ss_task s' = TaskDone"
    if "sy_session y' i = Some s" "system_step rt latest api n consumer assigned y' z" "sy_session z i = Some s'" for s z s'
    using signal_step(3) [OF that(2) inv assms(1) sent that(1)] that(3) by auto
  ultimately show ?thesis using pulled by blast
qed

lemma closed_pool_has_no_consumer_witness:
  "\<not> seen_counted (sy_tasks sample_late) 7 0 \<and> tk_op (sy_tasks sample_late) 0 = OpGranted"
proof -
  have "close_result (tk_close (sy_tasks sample_late) 7) = Some (Inr ())" "(1 :: nat) < 2 ^ 64"
    by (simp_all add: sample_late_reachable(2) close_result_Ok)
  from closed_pool_has_no_consumer [OF sample_rt_laws this(2) sample_late_reachable(1) this(1) rtranclp.rtrancl_refl, of 0]
  show ?thesis using sample_late_reachable(3) by blast
qed



text \<open>A run, with the number of its steps that move an operation or the task of a session, and of those
  that are the first check of an operation.\<close>

inductive shutdown_run ::
  "('s, 'sr, 'a, 'ar) runtime \<Rightarrow> bool \<Rightarrow> (kafka_message kafka_result, 'q) mpsc_api \<Rightarrow> nat \<Rightarrow> (nat \<Rightarrow> bool) \<Rightarrow>
   (nat \<Rightarrow> string \<times> i32) \<Rightarrow> nat \<Rightarrow> nat \<Rightarrow> ('s, 'a, 'ar, 'q) system \<Rightarrow> ('s, 'a, 'ar, 'q) system \<Rightarrow> bool"
  for rt :: "('s, 'sr, 'a, 'ar) runtime" and latest :: bool and api :: "(kafka_message kafka_result, 'q) mpsc_api"
    and n :: nat and consumer :: "nat \<Rightarrow> bool" and assigned :: "nat \<Rightarrow> string \<times> i32"
where
  none: "shutdown_run rt latest api n consumer assigned 0 0 y y"
| more: "shutdown_run rt latest api n consumer assigned m s y z \<Longrightarrow>
     system_step rt latest api n consumer assigned z y' \<Longrightarrow>
     shutdown_run rt latest api n consumer assigned
       (m + of_bool (moves z y')) (s + of_bool (\<exists>i. starts z y' i)) y y'"

lemma system_knows:
  assumes "system_step rt latest api n consumer assigned y y'" and "inv_memory (sy_tasks y)"
    and "knows_closed (sy_tasks y) i"
  shows "knows_closed (sy_tasks y') i"
  using assms by (cases rule: system_step.cases) (auto dest: knows_stays)

lemma shutdown_run_work:
  assumes "shutdown_run rt latest api n consumer assigned m s y y'" and "runtime_laws rt" and "n < 2 ^ 64"
    and "system_inv rt latest api n consumer assigned y" and "signal_sent rt y"
  shows "system_inv rt latest api n consumer assigned y' \<and> signal_sent rt y' \<and>
    system_work n y' + m \<le> system_work n y + 6 * s \<and> (latest \<longrightarrow> s = 0) \<and>
    ((\<forall>i<n. knows_closed (sy_tasks y) i) \<longrightarrow> s = 0 \<and> (\<forall>i<n. knows_closed (sy_tasks y') i)) \<and>
    (\<forall>i. pulled (sy_session y' i) = pulled (sy_session y i))"
  using assms(1,4,5)
proof (induction rule: shutdown_run.induct)
  case (more m s y z y')
  then have inv: "system_inv rt latest api n consumer assigned z" and sent: "signal_sent rt z"
    and work: "system_work n z + m \<le> system_work n y + 6 * s"
    and s: "latest \<longrightarrow> s = 0" "(\<forall>i<n. knows_closed (sy_tasks y) i) \<longrightarrow> s = 0 \<and> (\<forall>i<n. knows_closed (sy_tasks z) i)"
    and pulled: "\<And>i. pulled (sy_session z i) = pulled (sy_session y i)" by blast+
  note S = signal_step [OF more.hyps(2) inv assms(2) sent]
  note mem = task_invD(1) [OF system_invD(1) [OF inv]]
  have knows: "\<forall>i<n. knows_closed (sy_tasks y') i" if "\<forall>i<n. knows_closed (sy_tasks z) i"
    using system_knows [OF more.hyps(2) mem] that by blast
  have "system_work n y' + of_bool (moves z y') \<le> system_work n z + 6 * of_bool (\<exists>i. starts z y' i) \<and>
    (latest \<longrightarrow> (\<nexists>i. starts z y' i)) \<and> ((\<forall>i<n. knows_closed (sy_tasks z) i) \<longrightarrow> (\<nexists>i. starts z y' i))"
    using signal_bounded [OF more.hyps(2) inv sent] unfolding bounded_move_def
  proof (elim disjE exE conjE)
    fix i assume "i < n" "starts z y' i" "\<not> knows_closed (sy_tasks z) i" "\<not> latest" "system_work n y' = system_work n z + 5"
    then show ?thesis by auto
  next
    assume "\<forall>i. \<not> starts z y' i"
      "if moves z y' then system_work n y' < system_work n z else system_work n y' = system_work n z"
    then show ?thesis by (auto split: if_splits)
  qed
  with work s knows have "system_work n y' + (m + of_bool (moves z y')) \<le> system_work n y + 6 * (s + of_bool (\<exists>i. starts z y' i))"
    "latest \<longrightarrow> s + of_bool (\<exists>i. starts z y' i) = 0"
    "(\<forall>i<n. knows_closed (sy_tasks y) i) \<longrightarrow>
      s + of_bool (\<exists>i. starts z y' i) = 0 \<and> (\<forall>i<n. knows_closed (sy_tasks y') i)"
    by (simp_all add: algebra_simps)
  then show ?case using system_inv_step [OF inv more.hyps(2) assms(2,3)] S(1,2) pulled by simp
qed simp

text \<open>C17. Shutdown terminates, with the memory orderings of the code: after the signal operations and
  sessions together take, over any run whatever, at most \<open>5 * n\<close> steps of their own, and six more for
  every first check that a caller passes on an old value of the flag; there are none of these among
  callers who know that the pool was closed, and none at all with sequentially consistent accesses. No
  session pulls another record, and the signal stays.\<close>

theorem shutdown_terminates:
  assumes "runtime_laws rt" and "n < 2 ^ 64" and "system_reachable rt latest api n consumer assigned y"
    and "signal_sent rt y" and "shutdown_run rt latest api n consumer assigned m s y y'"
  shows "signal_sent rt y' \<and> m \<le> 5 * n + 6 * s \<and> (latest \<longrightarrow> s = 0) \<and>
    ((\<forall>i<n. knows_closed (sy_tasks y) i) \<longrightarrow> s = 0) \<and>
    (\<forall>i. pulled (sy_session y' i) = pulled (sy_session y i))"
proof -
  note inv = system_inv_reachable [OF assms(3,1,2)]
  show ?thesis
    using shutdown_run_work [OF assms(5,1,2) inv assms(4)] system_work_le [OF inv] by simp
qed

lemma shutdown_terminates_witness:
  "\<exists>y'. shutdown_run sample_rt False list_mpsc 1 only_0 (\<lambda>_. (''t'', 0)) 1 0 sample_busy y' \<and> signal_sent sample_rt y' \<and>
     pulled (sy_session y' 0) = pulled (sy_session sample_busy 0)"
proof -
  obtain s where s: "sy_session sample_busy 0 = Some s" "ss_task s \<noteq> TaskDone"
    using sample_busy_reachable(4) by (auto simp: live_iff)
  have "(1 :: nat) < 2 ^ 64" by simp
  note inv = system_inv_reachable [OF sample_busy_reachable(1) sample_rt_laws this]
  define y' where "y' = sample_busy\<lparr>sy_session := (sy_session sample_busy)(0 \<mapsto> stopped sample_rt False sample_busy s)\<rparr>"
  have step: "system_step sample_rt False list_mpsc 1 only_0 (\<lambda>_. (''t'', 0)) sample_busy y'"
    unfolding y'_def by (rule session_stops [OF s sample_busy_reachable(3)]) (use system_invD(5) [OF inv s(1)] in blast)
  have "moves sample_busy y'"
    using s by (auto simp: moves_def same_phase_def y'_def stopped_def intro!: exI [of _ 0])
  moreover have "\<nexists>i. starts sample_busy y' i" by (simp add: starts_def y'_def)
  ultimately have run: "shutdown_run sample_rt False list_mpsc 1 only_0 (\<lambda>_. (''t'', 0)) 1 0 sample_busy y'"
    using shutdown_run.more [OF shutdown_run.none step] by simp
  show ?thesis
    using shutdown_terminates [OF sample_rt_laws _ sample_busy_reachable(1,3) run] run by auto
qed

end
