(* ===== verification/Well_Formed.thy ===== *)
theory Well_Formed
  imports Client
begin

text \<open>
  The well-formed pools of \<open>src/connection.rs\<close>: the configuration is a valid one and the client is
  there, both as \<open>connect\<close> made them, and the counters fit together. Every public operation keeps
  a pool well-formed, whatever it returns.
\<close>

section \<open>What no operation changes\<close>

definition shape :: "('s, 'a, 'c) pool \<Rightarrow> kafka_config \<times> 'c option" where
  "shape p = (pool_config p, pool_client p)"

text \<open>Other tasks share the pool and cannot assign to these fields either.\<close>

definition frozen :: "('s, 'a, 'c) interference \<Rightarrow> bool" where
  "frozen i = (\<forall>p. shape (at_wait i p) = shape p)"

lemma shape_simps [simp]:
  "shape (p\<lparr>pool_life := l\<rparr>) = shape p" "shape (pool_drop_guard rt p) = shape p"
  "shape (record_publish_ok p) = shape p" "shape (record_publish_err p) = shape p"
  "shape (record_publish_timeout p) = shape p" "shape (record_publish_cancelled p) = shape p"
  "shape (record_topic_ensured p) = shape p" "shape (record_topic_deleted p) = shape p"
  by (simp_all add: shape_def pool_drop_guard_def record_publish_ok_def record_publish_err_def
      record_publish_timeout_def record_publish_cancelled_def record_topic_ensured_def record_topic_deleted_def)

lemma shape_start: "pool_start_operation rt i p = (r, p1) \<Longrightarrow> shape p1 = shape p"
  by (auto simp: pool_start_operation_def split: prod.splits)

lemma shape_fail_with: "shape (snd (fail_with p e)) = shape p"
  by (simp add: fail_with_def record_if_closed_def)

lemma shape_with_operation:
  assumes "\<And>p1. shape (snd (body p1)) = shape p1"
  shows "shape (snd (with_operation rt i body p)) = shape p"
proof (cases "pool_start_operation rt i p")
  case (Pair r p1)
  from shape_start [OF Pair] assms [of p1] show ?thesis
    by (cases r; cases "body p1") (simp_all add: with_operation_def Pair)
qed

lemma shape_operations:
  assumes "frozen i"
  shows "shape (snd (health_check rt drv i p)) = shape p"
    and "shape (snd (ensure_topic rt drv i topic n r p)) = shape p"
    and "shape (snd (delete_topic rt drv i topic p)) = shape p"
    and "shape (snd (partition_client rt drv i topic part p)) = shape p"
proof -
  have wait: "shape (at_wait i q) = shape q" for q using assms by (simp add: frozen_def)
  show "shape (snd (health_check rt drv i p)) = shape p"
    unfolding health_check_def
    by (rule shape_with_operation) (auto simp: Let_def wait split: sum.split outcome.split)
  show "shape (snd (ensure_topic rt drv i topic n r p)) = shape p"
    unfolding ensure_topic_def
    by (auto simp: Let_def wait intro!: shape_with_operation split: sum.split outcome.split)
  show "shape (snd (delete_topic rt drv i topic p)) = shape p"
    unfolding delete_topic_def
    by (auto simp: Let_def wait intro!: shape_with_operation split: sum.split outcome.split)
  show "shape (snd (partition_client rt drv i topic part p)) = shape p"
    unfolding partition_client_def
    by (auto simp: Let_def wait intro!: shape_with_operation split: sum.split outcome.split)
qed

lemma shape_send:
  assumes "frozen i"
  shows "shape (snd (send_part rt drv i now r pc p)) = shape p"
proof -
  have wait: "shape (at_wait i q) = shape q" for q using assms by (simp add: frozen_def)
  show ?thesis
    by (cases rule: send_part_cases [where rt = rt and drv = drv and i = i and now = now and r = r and pc = pc and p = p])
      (simp_all add: wait)
qed

lemma shape_publish:
  assumes "frozen i1" and "frozen i2"
  shows "shape (snd (publish rt drv i1 i2 now r p)) = shape p"
proof -
  note pc = shape_operations(4) [OF assms(1), of rt drv "pr_topic r" "pr_partition r" p]
  show ?thesis
    by (cases rule: publish_cases [where rt = rt and drv = drv and ?i1.0 = i1 and ?i2.0 = i2 and now = now and r = r and p = p])
      (use pc in \<open>simp_all add: shape_fail_with shape_start shape_send [OF assms(2)]\<close>)
qed

lemma shape_consumer:
  assumes "frozen i1"
  shows "shape (snd (pool_consumer rt drv i1 i2 c p)) = shape p"
proof -
  obtain x p1 where pc: "partition_client rt drv i1 (cc_topic c) (cc_partition c) p = (x, p1)" by fastforce
  obtain y p2 where op: "pool_start_operation rt i2 p1 = (y, p2)" by fastforce
  have "shape p1 = shape p" using shape_operations(4) [OF assms, of rt drv "cc_topic c" "cc_partition c" p] pc by simp
  with shape_start [OF op] show ?thesis
    by (cases "pool_ensure_open p"; cases "validate_consumer_config c"; cases x; cases y;
        simp add: pool_consumer_def consumer_connect_def pc op)
qed

lemma shape_call:
  assumes "frozen i1" and "frozen i2"
  shows "shape (snd (run_call rt drv i1 i2 call p)) = shape p"
proof -
  have "shape (snd (ping rt drv i1 p)) = shape p" "shape (snd (health rt drv i1 p)) = shape p"
    using shape_operations(1) [OF assms(1), of rt drv p]
    by (cases "health_check rt drv i1 p"; simp add: ping_def health_def split: sum.split)+
  then show ?thesis
    by (cases call) (simp_all add: shape_operations [OF assms(1)] shape_publish [OF assms] shape_consumer [OF assms(1)])
qed

definition frozen_step :: "('s, 'a, 'c) api_step \<Rightarrow> bool" where
  "frozen_step x = (case x of (i1, i2, call) \<Rightarrow> frozen i1 \<and> frozen i2)"

lemma shape_calls:
  "list_all frozen_step xs \<Longrightarrow> run_calls rt drv xs p = (rs, p') \<Longrightarrow> shape p' = shape p \<and> length rs = length xs"
proof (induction xs arbitrary: p rs)
  case (Cons x xs)
  obtain i1 i2 call where x: "x = (i1, i2, call)" by (cases x)
  obtain r p1 where r: "run_call rt drv i1 i2 call p = (r, p1)" by fastforce
  obtain rs' q where rs: "run_calls rt drv xs p1 = (rs', q)" by fastforce
  with Cons.prems(2) x r have eq: "rs = r # rs'" "p' = q" by auto
  have "shape p1 = shape p"
    using shape_call [of i1 i2 rt drv call p] Cons.prems(1) r by (simp add: x frozen_step_def)
  then show ?case using Cons.IH [OF _ rs [folded eq(2)]] Cons.prems(1) by (simp add: eq(1))
qed simp

section \<open>Counters\<close>

lemma replies_disjoint:
  "how_many ok_delivery rs + how_many failed_delivery rs + how_many ok_ensured rs + how_many ok_deleted rs
   \<le> length rs"
proof (induction rs)
  case (Cons r rs)
  then show ?case by (cases r) auto
qed simp

lemma unat_of_small: "n < 2 ^ 64 \<Longrightarrow> unat (of_nat n :: u64) = n"
  by (simp add: unat_of_nat take_bit_nat_eq_self)

section \<open>Properties\<close>

definition well_formed :: "url_parser \<Rightarrow> ('s, 'a, 'c) pool \<Rightarrow> bool" where
  "well_formed parse p =
     (valid_config parse (pool_config p) \<and> pool_client p \<noteq> None \<and>
      unat (publish_timeouts p) + unat (publish_cancelled p) \<le> unat (publish_failed p))"

text \<open>C22. A pool stays well-formed: after any sequence of fewer than 2^64 calls on a pool from \<open>connect\<close>,
  whatever they returned, its configuration is the validated one it was made with, it has its
  client, the publishes counted as timed out or cancelled are among the failed ones, and the
  counters together do not exceed the number of calls.\<close>

theorem pool_stays_well_formed:
  assumes "snd (connect parse api blocking build_driver rt c) = Inr p"
    and "list_all quiet_step xs" and "list_all frozen_step xs" and "length xs < 2 ^ 64"
    and "run_calls rt drv xs p = (rs, p')"
  shows "well_formed parse p' \<and> pool_config p' = c \<and> pool_client p' = pool_client p \<and>
    unat (published p') + unat (publish_failed p') + unat (topics_ensured p') + unat (topics_deleted p')
      \<le> length xs"
proof -
  note fresh = connect_fresh(1) [OF assms(1)]
  have zero: "published p = 0" "publish_failed p = 0" "publish_timeouts p = 0" "publish_cancelled p = 0"
    "topics_ensured p = 0" "topics_deleted p = 0"
    using fresh by (simp_all add: counters_def)
  have made: "valid_config parse c" "pool_config p = c" "pool_client p \<noteq> None"
    using connect_ok [OF assms(1)] by (auto simp: fresh_pool_def)
  from shape_calls [OF assms(3,5)] have same: "pool_config p' = c" "pool_client p' = pool_client p"
    and len: "length rs = length xs"
    by (simp_all add: shape_def made(2))
  note acc = run_calls_account [OF assms(2,5)]
  then obtain f t k where n: "t + k \<le> f" "f \<le> how_many failed_delivery rs" "publish_failed p' = of_nat f"
    "publish_timeouts p' = of_nat t" "publish_cancelled p' = of_nat k"
    by (auto simp: failures_within_def zero)
  have small: "how_many ok_delivery rs + how_many failed_delivery rs + how_many ok_ensured rs +
      how_many ok_deleted rs < 2 ^ 64"
    using replies_disjoint [of rs] assms(4) len by linarith
  have "unat (published p') = how_many ok_delivery rs" "unat (topics_ensured p') = how_many ok_ensured rs"
    "unat (topics_deleted p') = how_many ok_deleted rs"
    using acc small by (simp_all add: zero unat_of_small)
  moreover have "unat (publish_failed p') = f" "unat (publish_timeouts p') = t" "unat (publish_cancelled p') = k"
    using n small by (simp_all add: unat_of_small)
  ultimately show ?thesis
    using replies_disjoint [of rs] n(1,2) made same len by (simp add: well_formed_def)
qed

lemma alone_frozen: "frozen alone"
  by (simp add: frozen_def alone_def)

theorem pool_stays_well_formed_witness:
  "well_formed sample_url (snd (run_calls sample_rt (sample_driver [42]) sample_calls sample_pool))"
proof -
  have "list_all frozen_step sample_calls"
    by (simp add: sample_calls_def frozen_step_def alone_frozen)
  from pool_stays_well_formed [OF sample_connect sample_calls_quiet this _ sample_calls_run]
  show ?thesis unfolding sample_calls_run by (simp add: sample_calls_def)
qed

end
