(* ===== verification/Delivery.thy ===== *)
theory Delivery
  imports At_Least_Once File_Recovery
begin

text \<open>
  The whole way of a message, \<open>src/at_least_once.rs\<close> on top of \<open>src/consumer.rs\<close> and \<open>src/offset.rs\<close>:
  the driver's stream, the background task, its bounded queue, \<open>recv\<close> and \<open>recv_timeout\<close>, the pending
  message, \<open>ack\<close> and the offset file, on a machine that can lose power at any moment, also between
  two system calls of an \<open>ack\<close>. The owner of one partition connects, receives, acknowledges, drops
  and reconnects in any order; owners of other partitions commit to the same file.
\<close>

section \<open>The consumer on a running session\<close>

text \<open>\<open>recv\<close> has looked at the pool when the queue is polled: at the latest now.\<close>

definition session_check :: "'q session \<Rightarrow> unit kafka_result" where
  "session_check s = (if ss_closed s \<and> \<not> ss_receiving s then Inl (Closed msg_pool_closed) else Inr ())"

definition take_item :: "'q session \<Rightarrow> kafka_message kafka_result option \<Rightarrow> 'q \<Rightarrow> 'q session" where
  "take_item s r q =
     s\<lparr>ss_receiving := False, ss_queue := q,
       ss_received := ss_received s @ (case r of None \<Rightarrow> [] | Some v \<Rightarrow> [v])\<rparr>"

definition session_recv ::
  "(kafka_message kafka_result, 'q) mpsc_api \<Rightarrow> 'q session \<Rightarrow> (kafka_message kafka_result option \<times> 'q session) option"
where
  "session_recv api s =
     (case session_check s of
        Inl e \<Rightarrow> map_option (\<lambda>(r, q). (r, s)) (recv api (Inl e) (ss_task s = TaskDone) (ss_queue s))
      | Inr _ \<Rightarrow> map_option (\<lambda>(r, q). (r, take_item s r q)) (recv api (Inr ()) (ss_task s = TaskDone) (ss_queue s)))"

text \<open>With a deadline: what the queue gives now, or the deadline passes.\<close>

definition session_recv_timeout ::
  "(kafka_message kafka_result, 'q) mpsc_api \<Rightarrow> instant \<Rightarrow> 'q session \<Rightarrow> kafka_message option kafka_result \<times> 'q session"
where
  "session_recv_timeout api d s =
     (case session_check s of
        Inl e \<Rightarrow> (recv_timeout (Inl e) d None, s)
      | Inr _ \<Rightarrow>
          (case consumer_recv api (ss_task s = TaskDone) (ss_queue s) of
             None \<Rightarrow> (recv_timeout (Inr ()) d None, s\<lparr>ss_receiving := False\<rparr>)
           | Some (r, q) \<Rightarrow> (recv_timeout (Inr ()) d (Some (0, r)), take_item s r q)))"

text \<open>A session over the records of the partition, of which \<open>written\<close> are there when it is set up.\<close>

definition start_from :: "fetched list \<Rightarrow> nat \<Rightarrow> start_offset \<Rightarrow> fetched list" where
  "start_from records written start =
     (case start of
        StartEarliest \<Rightarrow> records
      | StartAt n \<Rightarrow> filter (\<lambda>r. sint n \<le> sint (fe_offset r)) records
      | StartLatest \<Rightarrow> drop written records)"

definition open_session ::
  "(kafka_message kafka_result, 'q) mpsc_api \<Rightarrow> fetched list \<Rightarrow> nat \<Rightarrow> kafka_error option \<Rightarrow>
   consumer_config \<Rightarrow> fetched list \<Rightarrow> 'q session kafka_result \<times> fetched list"
where
  "open_session api records written failure c stream =
     (case failure of
        Some e \<Rightarrow> (Inl e, stream)
      | None \<Rightarrow> (Inr (session_init api), start_from records written (resolve_start_offset c)))"

section \<open>The system\<close>

text \<open>
  \<open>dv_stream\<close>: what the driver's stream has still to yield; \<open>dv_tried\<close>: the messages for which \<open>ack\<close>
  was called; \<open>dv_acked\<close>: those for which it returned \<open>Ok\<close>.
\<close>

record 'q dv_state =
  dv_world :: world
  dv_consumer :: "'q session alo option"
  dv_stream :: "fetched list"
  dv_tried :: "kafka_message set"
  dv_acked :: "kafka_message set"

text \<open>A pull yields the next record or an error of the driver.\<close>

definition stream_moves :: "'q session \<Rightarrow> 'q session \<Rightarrow> fetched list \<Rightarrow> fetched list \<Rightarrow> bool" where
  "stream_moves s s' stream stream' =
     (ss_pulled s' = ss_pulled s \<and> stream' = stream \<or>
      (\<exists>err. ss_pulled s' = ss_pulled s @ [Inl err] \<and> stream' = stream) \<or>
      (\<exists>r high_watermark. stream = r # stream' \<and> ss_pulled s' = ss_pulled s @ [Inr (r, high_watermark)]))"

text \<open>The message an \<open>ack\<close> commits.\<close>

definition asked :: "'k alo \<Rightarrow> kafka_message set" where
  "asked a = (if al_terminated a then {} else set_option (al_pending a))"

text \<open>
  Every step is one operation of the owner or a move of its environment. \<open>background\<close>: the task and
  the pool's closing; \<open>ack_abandoned\<close>: the future of an \<open>ack\<close> is dropped, its blocking task still
  runs to the end and the message stays pending; \<open>gives_up\<close>: the consumer is dropped;
  \<open>power_loss_in_ack\<close>, \<open>power_loss_in_commit\<close>: between two system calls of an \<open>ack\<close> and of another
  owner's commit; \<open>weather\<close>: which of the coming calls will fail.
\<close>

inductive dv_step ::
  "(kafka_message kafka_result, 'q) mpsc_api \<Rightarrow> path_buf \<Rightarrow> fetched list \<Rightarrow> consumer_config \<Rightarrow>
   'q dv_state \<Rightarrow> 'q dv_state \<Rightarrow> bool"
  for api :: "(kafka_message kafka_result, 'q) mpsc_api" and path :: path_buf
    and records :: "fetched list" and c :: consumer_config
where
  connects: "alo_connect (file_committed path) (open_session api records written failure) c (dv_world s) (dv_stream s) =
       (r, w, stream) \<Longrightarrow>
     dv_step api path records c s
       (s\<lparr>dv_world := w, dv_stream := stream, dv_consumer := (case r of Inl _ \<Rightarrow> None | Inr a \<Rightarrow> Some a)\<rparr>)"
| background: "dv_consumer s = Some a \<Longrightarrow>
     session_step api (cc_topic c) (cc_partition c) (al_inner a) i \<Longrightarrow>
     ss_received i = ss_received (al_inner a) \<Longrightarrow> stream_moves (al_inner a) i (dv_stream s) stream \<Longrightarrow>
     dv_step api path records c s (s\<lparr>dv_consumer := Some (a\<lparr>al_inner := i\<rparr>), dv_stream := stream\<rparr>)"
| receives: "dv_consumer s = Some a \<Longrightarrow> alo_recv (session_recv api) a = Some (r, a') \<Longrightarrow>
     dv_step api path records c s (s\<lparr>dv_consumer := Some a'\<rparr>)"
| receives_in_time: "dv_consumer s = Some a \<Longrightarrow> alo_recv_timeout (session_recv_timeout api d) a = (r, a') \<Longrightarrow>
     dv_step api path records c s (s\<lparr>dv_consumer := Some a'\<rparr>)"
| acknowledges: "dv_consumer s = Some a \<Longrightarrow> alo_ack (file_commit path) (dv_world s) a = (r, w, a') \<Longrightarrow>
     dv_step api path records c s
       (s\<lparr>dv_world := w, dv_consumer := Some a', dv_tried := dv_tried s \<union> asked a,
          dv_acked := dv_acked s \<union> (if r = Inr () then asked a else {})\<rparr>)"
| ack_abandoned: "dv_consumer s = Some a \<Longrightarrow> alo_ack (file_commit path) (dv_world s) a = (r, w, a') \<Longrightarrow>
     dv_step api path records c s (s\<lparr>dv_world := w, dv_tried := dv_tried s \<union> asked a\<rparr>)"
| keeps_pending: "dv_consumer s = Some a \<Longrightarrow>
     dv_step api path records c s (s\<lparr>dv_consumer := Some (nack_keep_pending a)\<rparr>)"
| drops_pending: "dv_consumer s = Some a \<Longrightarrow>
     dv_step api path records c s (s\<lparr>dv_consumer := Some (drop_pending_unacked a)\<rparr>)"
| gives_up: "dv_step api path records c s (s\<lparr>dv_consumer := None\<rparr>)"
| other_owner: "(t, p) \<noteq> (cc_topic c, cc_partition c) \<Longrightarrow> clean_topic t \<Longrightarrow>
     file_commit path (dv_world s) t p off = (r, w) \<Longrightarrow>
     dv_step api path records c s (s\<lparr>dv_world := w\<rparr>)"
| power_loss: "dv_step api path records c s
     (s\<lparr>dv_world := restarted (fs_crash x (w_fs (dv_world s))) faults joins, dv_consumer := None\<rparr>)"
| power_loss_in_ack: "dv_consumer s = Some a \<Longrightarrow>
     alo_ack (file_commit path) ((dv_world s)\<lparr>w_trace := []\<rparr>) a = (r, w, a') \<Longrightarrow> f \<in> set (w_trace w) \<Longrightarrow>
     dv_step api path records c s
       (s\<lparr>dv_world := restarted (fs_crash x f) faults joins, dv_consumer := None,
          dv_tried := dv_tried s \<union> asked a\<rparr>)"
| power_loss_in_commit: "(t, p) \<noteq> (cc_topic c, cc_partition c) \<Longrightarrow> clean_topic t \<Longrightarrow>
     file_commit path ((dv_world s)\<lparr>w_trace := []\<rparr>) t p off = (r, w) \<Longrightarrow> f \<in> set (w_trace w) \<Longrightarrow>
     dv_step api path records c s
       (s\<lparr>dv_world := restarted (fs_crash x f) faults joins, dv_consumer := None\<rparr>)"
| weather: "dv_step api path records c s
     (s\<lparr>dv_world := (dv_world s)\<lparr>w_faults := faults, w_joins := joins\<rparr>\<rparr>)"

definition dv_start :: "world \<Rightarrow> 'q dv_state" where
  "dv_start w = \<lparr>dv_world = w, dv_consumer = None, dv_stream = [], dv_tried = {}, dv_acked = {}\<rparr>"

abbreviation dv_reachable ::
  "(kafka_message kafka_result, 'q) mpsc_api \<Rightarrow> path_buf \<Rightarrow> fetched list \<Rightarrow> consumer_config \<Rightarrow>
   world \<Rightarrow> 'q dv_state \<Rightarrow> bool"
where
  "dv_reachable api path records c w s \<equiv> (dv_step api path records c)\<^sup>*\<^sup>* (dv_start w) s"

inductive_cases dv_stepE: "dv_step api path records c s s'"

section \<open>What is still to come\<close>

primrec oks :: "('e + 'a) list \<Rightarrow> 'a list" where
  "oks [] = []"
| "oks (r # rs) = (case r of Inl _ \<Rightarrow> oks rs | Inr x \<Rightarrow> x # oks rs)"

lemma oks_append [simp]: "oks (xs @ ys) = oks xs @ oks ys"
  by (induction xs) (auto split: sum.split)

text \<open>
  The messages the caller has not received of a session: in the queue, in the task's hand, lost with
  a task that has ended, or not yet pulled.
\<close>

definition to_come :: "string \<Rightarrow> i32 \<Rightarrow> 'q session \<Rightarrow> fetched list \<Rightarrow> kafka_message list" where
  "to_come topic part s stream =
     oks (drop (length (ss_received s)) (map (to_output topic part) (ss_pulled s))) @ map (to_message topic part) stream"

lemma session_inv_pending:
  assumes "session_inv api topic part s"
  shows "\<exists>lost. drop (length (ss_received s)) (map (to_output topic part) (ss_pulled s)) =
      mq_items api (ss_queue s) @ in_hand (ss_task s) @ lost"
    and "length (ss_received s) \<le> length (ss_pulled s)"
proof -
  from assms obtain lost where *: "map (to_output topic part) (ss_pulled s) =
      ss_received s @ mq_items api (ss_queue s) @ in_hand (ss_task s) @ lost"
    by (auto simp: session_inv_def)
  then show "\<exists>lost. drop (length (ss_received s)) (map (to_output topic part) (ss_pulled s)) =
      mq_items api (ss_queue s) @ in_hand (ss_task s) @ lost" by simp
  from arg_cong [OF *, of length] show "length (ss_received s) \<le> length (ss_pulled s)" by simp
qed

lemma to_come_init: "to_come topic part (session_init api) stream = map (to_message topic part) stream"
  by (simp add: to_come_def session_init_def)

text \<open>A receive takes the first message to come, or an error, or the end.\<close>

lemma to_come_take:
  assumes "mpsc_laws api" and "session_inv api topic part s"
    and "consumer_recv api (ss_task s = TaskDone) (ss_queue s) = Some (r, q)"
  shows "to_come topic part s stream =
    (case r of Some (Inr m) \<Rightarrow> [m] | _ \<Rightarrow> []) @ to_come topic part (take_item s r q) stream"
proof (cases "mq_recv api (ss_queue s)")
  case None
  with assms(3) show ?thesis by (auto simp: consumer_recv_def take_item_def to_come_def split: if_splits)
next
  case (Some vq)
  then obtain v where v: "mq_recv api (ss_queue s) = Some (v, q)" "r = Some v"
    using assms(3) by (auto simp: consumer_recv_def split: prod.splits)
  have "mq_items api (ss_queue s) = v # mq_items api q" using mpsc_lawsD(4) [OF assms(1) v(1)] by simp
  then obtain rest where rest: "drop (length (ss_received s)) (map (to_output topic part) (ss_pulled s)) = v # rest"
    using session_inv_pending(1) [OF assms(2)] by auto
  then have "drop (Suc (length (ss_received s))) (map (to_output topic part) (ss_pulled s)) = rest"
    by (metis drop_Suc list.sel(3) tl_drop)
  with rest show ?thesis by (cases v) (simp_all add: to_come_def take_item_def v(2))
qed

lemma to_come_background:
  assumes "session_inv api topic part s" and "ss_received s' = ss_received s"
    and "stream_moves s s' stream stream'"
  shows "to_come topic part s' stream' = to_come topic part s stream"
proof -
  have len: "length (ss_received s) \<le> length (map (to_output topic part) (ss_pulled s))"
    using session_inv_pending(2) [OF assms(1)] by simp
  show ?thesis
    using assms(3) len by (auto simp: to_come_def assms(2) stream_moves_def to_output_def)
qed

section \<open>The invariant\<close>

text \<open>The positions that pass no message that was not tried, and every one that was acknowledged.\<close>

definition sound ::
  "kafka_message list \<Rightarrow> consumer_config \<Rightarrow> i64 option \<Rightarrow> kafka_message set \<Rightarrow> kafka_message set \<Rightarrow> positions set"
where
  "sound log c n0 tried confirmed =
     {v. (n0 = None \<or> v (cc_topic c, cc_partition c) \<noteq> None) \<and>
         (\<forall>m \<in> set log. \<forall>n. wanted c n0 m \<longrightarrow> v (cc_topic c, cc_partition c) = Some n \<longrightarrow>
            sint (km_offset m) < sint n \<longrightarrow> m \<in> tried) \<and>
         (\<forall>m \<in> confirmed. \<exists>n. v (cc_topic c, cc_partition c) = Some n \<and> sint (km_offset m) < sint n)}"

text \<open>The consumer as one of \<open>At_Least_Once\<close>, over the list of what is to come.\<close>

definition as_list :: "consumer_config \<Rightarrow> fetched list \<Rightarrow> 'q session alo \<Rightarrow> kafka_message list alo" where
  "as_list c stream a =
     \<lparr>al_inner = to_come (cc_topic c) (cc_partition c) (al_inner a) stream, al_topic = al_topic a,
      al_partition = al_partition a, al_pending = al_pending a, al_terminated = al_terminated a\<rparr>"

definition ahead :: "consumer_config \<Rightarrow> fetched list \<Rightarrow> 'q session alo \<Rightarrow> kafka_message set" where
  "ahead c stream a =
     set_option (al_pending a) \<union> set (to_come (cc_topic c) (cc_partition c) (al_inner a) stream)"

definition consumer_inv ::
  "(kafka_message kafka_result, 'q) mpsc_api \<Rightarrow> kafka_message list \<Rightarrow> consumer_config \<Rightarrow> i64 option \<Rightarrow>
   kafka_message set \<Rightarrow> kafka_message set \<Rightarrow> fetched list \<Rightarrow> 'q session alo \<Rightarrow> bool"
where
  "consumer_inv api log c n0 tried confirmed stream a =
     (session_inv api (cc_topic c) (cc_partition c) (al_inner a) \<and>
      alo_session_inv log c n0 tried (as_list c stream a) \<and>
      (al_terminated a \<or> confirmed \<inter> ahead c stream a = {}))"

definition partition_messages :: "fetched list \<Rightarrow> consumer_config \<Rightarrow> kafka_message list" where
  "partition_messages records c = map (to_message (cc_topic c) (cc_partition c)) records"

definition dv_inv ::
  "(kafka_message kafka_result, 'q) mpsc_api \<Rightarrow> path_buf \<Rightarrow> fetched list \<Rightarrow> consumer_config \<Rightarrow> i64 option \<Rightarrow>
   'q dv_state \<Rightarrow> bool"
where
  "dv_inv api path records c n0 s =
     (healthy path (sound (partition_messages records c) c n0 (dv_tried s) (dv_acked s)) (dv_world s) \<and>
      (case dv_consumer s of
         None \<Rightarrow> True
       | Some a \<Rightarrow>
           consumer_inv api (partition_messages records c) c n0 (dv_tried s) (dv_acked s) (dv_stream s) a))"

lemma as_list_simps [simp]:
  "al_inner (as_list c stream a) = to_come (cc_topic c) (cc_partition c) (al_inner a) stream"
  "al_pending (as_list c stream a) = al_pending a" "al_terminated (as_list c stream a) = al_terminated a"
  by (simp_all add: as_list_def)

lemma soundD:
  "v \<in> sound log c n0 tried confirmed \<Longrightarrow> m \<in> confirmed \<Longrightarrow>
    \<exists>n. v (cc_topic c, cc_partition c) = Some n \<and> sint (km_offset m) < sint n"
  "v \<in> sound log c n0 tried confirmed \<Longrightarrow> m \<in> set log \<Longrightarrow> wanted c n0 m \<Longrightarrow> m \<notin> tried \<Longrightarrow>
    v (cc_topic c, cc_partition c) = Some n \<Longrightarrow> sint n \<le> sint (km_offset m)"
  by (auto simp: sound_def not_less [symmetric])

lemma sound_mono: "tried \<subseteq> tried' \<Longrightarrow> sound log c n0 tried confirmed \<subseteq> sound log c n0 tried' confirmed"
  by (auto simp: sound_def)

lemma partition_messages_set:
  assumes "partition_log (cc_topic c) (cc_partition c) log" and "m \<in> set log"
  shows "km_topic m = cc_topic c" "km_partition m = cc_partition c" "committable (km_offset m)"
  using assms by (simp_all add: partition_log_def list_all_iff)

text \<open>A commit of the pending message passes only messages that were tried.\<close>

lemma sound_raise:
  assumes "v \<in> sound log c n0 tried confirmed" and "consumer_inv api log c n0 tried confirmed stream a"
    and "al_pending a = Some m" and "\<not> al_terminated a" and "partition_log (cc_topic c) (cc_partition c) log"
  shows "raise_to (cc_topic c, cc_partition c) (km_offset m + 1) v \<in> sound log c n0 (insert m tried) (insert m confirmed)"
proof -
  let ?k = "(cc_topic c, cc_partition c)" and ?v = "raise_to (cc_topic c, cc_partition c) (km_offset m + 1) v"
  have alo: "m \<in> set log" "\<And>x. x \<in> set log \<Longrightarrow> wanted c n0 x \<Longrightarrow>
      x \<in> tried \<or> x \<in> set (to_come (cc_topic c) (cc_partition c) (al_inner a) stream) \<or> x = m"
    "\<And>x. x \<in> set (to_come (cc_topic c) (cc_partition c) (al_inner a) stream) \<Longrightarrow> sint (km_offset m) < sint (km_offset x)"
    using assms(2-4) by (auto simp: consumer_inv_def alo_session_inv_def)
  note next_one = sint_committable [OF partition_messages_set(3) [OF assms(5) alo(1)]]
  obtain n where n: "?v ?k = Some n"
    "sint n = max (case v ?k of None \<Rightarrow> sint (km_offset m) + 1 | Some x \<Rightarrow> sint x) (sint (km_offset m) + 1)"
    by (cases "v ?k") (auto simp: raise_to_def sint_smax next_one)
  have tried: "x \<in> insert m tried" if x: "x \<in> set log" "wanted c n0 x" "sint (km_offset x) < sint n" for x
  proof (cases "sint (km_offset x) < sint (km_offset m) + 1")
    case True
    then show ?thesis using alo(2) [OF x(1,2)] alo(3) [of x] by auto
  next
    case False
    with x(3) n(2) obtain y where "v ?k = Some y" "sint (km_offset x) < sint y"
      by (auto split: option.splits)
    with assms(1) x show ?thesis by (auto simp: sound_def)
  qed
  have confirmed: "sint (km_offset x) < sint n" if x: "x \<in> insert m confirmed" for x
  proof (cases "x = m")
    case False
    with x assms(1) obtain y where "v ?k = Some y" "sint (km_offset x) < sint y"
      using soundD(1) by blast
    then show ?thesis by (simp add: n(2))
  qed (simp add: n(2))
  show ?thesis unfolding sound_def using n(1) tried confirmed by simp
qed

section \<open>Every step keeps it\<close>

lemma session_recv_cases:
  assumes "session_recv api s = Some (r, s')"
  obtains (refused) e where "r = Some (Inl e)" "s' = s"
  | (taken) q where "consumer_recv api (ss_task s = TaskDone) (ss_queue s) = Some (r, q)" "s' = take_item s r q"
proof (cases "session_check s")
  case (Inl e)
  with assms have "r = Some (Inl e)" "s' = s" by (simp_all add: session_recv_def recv_def)
  then show ?thesis by (rule refused)
next
  case (Inr u)
  with assms have "map_option (\<lambda>(r, q). (r, take_item s r q))
      (consumer_recv api (ss_task s = TaskDone) (ss_queue s)) = Some (r, s')"
    by (simp add: session_recv_def recv_def)
  with taken show ?thesis by auto
qed

lemma session_inv_take:
  assumes "mpsc_laws api" and "session_inv api topic part s"
    and "consumer_recv api (ss_task s = TaskDone) (ss_queue s) = Some (r, q)"
  shows "session_inv api topic part (take_item s r q)"
  using session_inv_recv [OF assms] by (simp add: take_item_def)

lemma no_pending_update: "al_pending a = None \<Longrightarrow> a\<lparr>al_pending := None\<rparr> = a"
  by (cases a) simp

lemma inner_update: "a\<lparr>al_inner := al_inner a\<rparr> = a"
  by (cases a) simp

text \<open>Replacing the session by one with the same messages to come.\<close>

lemma consumer_inv_inner:
  assumes "consumer_inv api log c n0 tried confirmed stream a" and "session_inv api (cc_topic c) (cc_partition c) i"
    and "to_come (cc_topic c) (cc_partition c) i stream' = to_come (cc_topic c) (cc_partition c) (al_inner a) stream"
  shows "consumer_inv api log c n0 tried confirmed stream' (a\<lparr>al_inner := i\<rparr>)"
  using assms by (simp add: consumer_inv_def as_list_def ahead_def)

text \<open>Taking the next message.\<close>

lemma consumer_inv_next:
  assumes "consumer_inv api log c n0 tried confirmed stream a" and "session_inv api (cc_topic c) (cc_partition c) i"
    and "to_come (cc_topic c) (cc_partition c) (al_inner a) stream = m # to_come (cc_topic c) (cc_partition c) i stream"
    and "al_pending a = None" and "\<not> al_terminated a"
  shows "consumer_inv api log c n0 tried confirmed stream (a\<lparr>al_inner := i, al_pending := Some m\<rparr>)"
  using assms by (auto simp: consumer_inv_def alo_session_inv_def ahead_def)

lemma consumer_inv_taken:
  assumes "mpsc_laws api" and "consumer_inv api log c n0 tried confirmed stream a"
    and "al_pending a = None" and "\<not> al_terminated a"
    and "consumer_recv api (ss_task (al_inner a) = TaskDone) (ss_queue (al_inner a)) = Some (r, q)"
  shows "consumer_inv api log c n0 tried confirmed stream
    (a\<lparr>al_inner := take_item (al_inner a) r q, al_pending := (case r of Some (Inr m) \<Rightarrow> Some m | _ \<Rightarrow> None)\<rparr>)"
proof -
  have inv: "session_inv api (cc_topic c) (cc_partition c) (al_inner a)"
    using assms(2) by (simp add: consumer_inv_def)
  note taken = session_inv_take [OF assms(1) inv assms(5)]
  note come = to_come_take [OF assms(1) inv assms(5), of stream]
  show ?thesis
  proof (cases "\<exists>m. r = Some (Inr m)")
    case True
    with come consumer_inv_next [OF assms(2) taken _ assms(3,4)] show ?thesis by auto
  next
    case False
    then have none: "(case r of Some (Inr m) \<Rightarrow> Some m | _ \<Rightarrow> None) = None"
      and same: "to_come (cc_topic c) (cc_partition c) (take_item (al_inner a) r q) stream =
        to_come (cc_topic c) (cc_partition c) (al_inner a) stream"
      using come by (auto split: option.splits sum.splits)
    have "a\<lparr>al_inner := take_item (al_inner a) r q, al_pending := None\<rparr> = a\<lparr>al_inner := take_item (al_inner a) r q\<rparr>"
      using assms(3) by (cases a) simp
    with consumer_inv_inner [OF assms(2) taken same] none show ?thesis by simp
  qed
qed

lemma alo_recv_inv:
  assumes "mpsc_laws api" and "consumer_inv api log c n0 tried confirmed stream a"
    and "alo_recv (session_recv api) a = Some (r, a')"
  shows "consumer_inv api log c n0 tried confirmed stream a'"
proof (cases "al_terminated a \<or> al_pending a \<noteq> None")
  case True
  with assms(2,3) show ?thesis by (auto simp: alo_recv_def ensure_active_def split: option.splits if_splits)
next
  case False
  then have idle: "al_pending a = None" "\<not> al_terminated a" by auto
  with assms(3) obtain x i where x: "session_recv api (al_inner a) = Some (x, i)"
    "a' = a\<lparr>al_inner := i, al_pending := (case x of Some (Inr m) \<Rightarrow> Some m | _ \<Rightarrow> None)\<rparr>"
    by (auto simp: alo_recv_def ensure_active_def split: option.splits sum.splits)
  from x(1) show ?thesis
  proof (cases rule: session_recv_cases)
    case (refused e)
    then show ?thesis using x(2) idle assms(2) by (simp add: inner_update no_pending_update)
  next
    case (taken q)
    then show ?thesis using consumer_inv_taken [OF assms(1,2) idle] x(2) by blast
  qed
qed

lemma alo_recv_timeout_inv:
  assumes "mpsc_laws api" and "consumer_inv api log c n0 tried confirmed stream a"
    and "alo_recv_timeout (session_recv_timeout api d) a = (r, a')"
  shows "consumer_inv api log c n0 tried confirmed stream a'"
proof (cases "al_terminated a \<or> al_pending a \<noteq> None")
  case True
  with assms(2,3) show ?thesis by (auto simp: alo_recv_timeout_def ensure_active_def split: option.splits if_splits)
next
  case False
  then have idle: "al_pending a = None" "\<not> al_terminated a" by auto
  obtain x i where x: "session_recv_timeout api d (al_inner a) = (x, i)" by fastforce
  with assms(3) idle have a': "a' = a\<lparr>al_inner := i, al_pending := (case x of Inr (Some m) \<Rightarrow> Some m | _ \<Rightarrow> None)\<rparr>"
    by (auto simp: alo_recv_timeout_def ensure_active_def split: option.splits sum.splits)
  have inv: "session_inv api (cc_topic c) (cc_partition c) (al_inner a)"
    using assms(2) by (simp add: consumer_inv_def)
  show ?thesis
  proof (cases "session_check (al_inner a)")
    case (Inl e)
    then have "x = Inl e" "i = al_inner a" using x by (simp_all add: session_recv_timeout_def recv_timeout_def)
    then show ?thesis using a' idle assms(2) by (simp add: inner_update no_pending_update)
  next
    case (Inr u)
    show ?thesis
    proof (cases "consumer_recv api (ss_task (al_inner a) = TaskDone) (ss_queue (al_inner a))")
      case None
      have "a' = a\<lparr>al_inner := (al_inner a)\<lparr>ss_receiving := False\<rparr>\<rparr>"
        using x a' idle Inr None by (auto simp: session_recv_timeout_def recv_timeout_def timeout_def)
      then show ?thesis
        using consumer_inv_inner [OF assms(2) session_inv_frame(3) [OF inv]] by (simp add: to_come_def)
    next
      case (Some rq)
      then obtain y q where y: "rq = (y, q)" by fastforce
      have "i = take_item (al_inner a) y q" "x = recv_timeout (Inr ()) d (Some (0, y))"
        using x Inr Some y by (auto simp: session_recv_timeout_def)
      moreover from this have "(case x of Inr (Some m) \<Rightarrow> Some m | _ \<Rightarrow> None) = (case y of Some (Inr m) \<Rightarrow> Some m | _ \<Rightarrow> None)"
        by (simp add: recv_timeout_def timeout_def split: option.split sum.split)
      ultimately show ?thesis
        using consumer_inv_taken [OF assms(1,2) idle] Some y a' by simp
    qed
  qed
qed

lemma sound_anti: "confirmed' \<subseteq> confirmed \<Longrightarrow> sound log c n0 tried confirmed \<subseteq> sound log c n0 tried confirmed'"
  by (auto simp: sound_def)

lemma consumer_inv_mono:
  assumes "consumer_inv api log c n0 tried confirmed stream a" and "tried \<subseteq> tried'"
  shows "consumer_inv api log c n0 tried' confirmed stream a"
  using assms unfolding consumer_inv_def alo_session_inv_def by blast

lemma alo_ack_cases:
  assumes "alo_ack commit w a = (r, w', a')"
  obtains (refused) e where "r = Inl e" "w' = w" "a' = a" "asked a = {}"
  | (ran) m r1 where "al_pending a = Some m" "\<not> al_terminated a" "asked a = {m}"
      "commit w (km_topic m) (km_partition m) (km_offset m) = (r1, w')" "r = r1"
      "a' = (case r1 of Inl _ \<Rightarrow> a | Inr _ \<Rightarrow> a\<lparr>al_pending := None\<rparr>)"
proof (cases "\<not> al_terminated a \<and> (\<exists>m. al_pending a = Some m)")
  case True
  then obtain m where m: "al_pending a = Some m" "\<not> al_terminated a" by blast
  obtain r1 w1 where run: "commit w (km_topic m) (km_partition m) (km_offset m) = (r1, w1)" by fastforce
  from assms m run have "w1 = w'" "r = r1" "a' = (case r1 of Inl _ \<Rightarrow> a | Inr _ \<Rightarrow> a\<lparr>al_pending := None\<rparr>)"
    by (auto simp: alo_ack_def ensure_active_def split: sum.splits)
  then show ?thesis using ran m run by (simp add: asked_def)
next
  case False
  then have none: "asked a = {}" by (auto simp: asked_def)
  from False assms obtain e where "r = Inl e" "w' = w" "a' = a"
    by (auto simp: alo_ack_def ensure_active_def split: option.splits if_splits)
  then show ?thesis using refused none by blast
qed

text \<open>An acknowledgement, also one that fails half way.\<close>

lemma ack_keeps:
  assumes store: "healthy path (sound log c n0 tried confirmed) w"
    and cons: "consumer_inv api log c n0 tried confirmed stream a"
    and log: "partition_log (cc_topic c) (cc_partition c) log" and clean: "clean_topic (cc_topic c)"
    and run: "alo_ack (file_commit path) w a = (r, w', a')"
  shows "healthy path (sound log c n0 (tried \<union> asked a) (confirmed \<union> (if r = Inr () then asked a else {}))) w'"
    and "consumer_inv api log c n0 (tried \<union> asked a) (confirmed \<union> (if r = Inr () then asked a else {})) stream a'"
    and "s \<in> set (w_trace w') \<Longrightarrow> s \<in> set (w_trace w) \<or> disk_in path (sound log c n0 (tried \<union> asked a) confirmed) s"
proof -
  have "healthy path (sound log c n0 (tried \<union> asked a) (confirmed \<union> (if r = Inr () then asked a else {}))) w' \<and>
    consumer_inv api log c n0 (tried \<union> asked a) (confirmed \<union> (if r = Inr () then asked a else {})) stream a' \<and>
    (s \<in> set (w_trace w') \<longrightarrow>
      s \<in> set (w_trace w) \<or> disk_in path (sound log c n0 (tried \<union> asked a) confirmed) s)"
    using run
  proof (cases rule: alo_ack_cases)
    case (refused e)
    then show ?thesis using store cons by simp
  next
    case (ran m r1)
    let ?raise = "raise_to (cc_topic c, cc_partition c) (km_offset m + 1)"
    have in_log: "m \<in> set log" and later: "m \<notin> set (to_come (cc_topic c) (cc_partition c) (al_inner a) stream)"
      using cons ran(1,2) by (auto simp: consumer_inv_def alo_session_inv_def)
    note m = partition_messages_set [OF log in_log]
    have commit: "file_commit path w (cc_topic c) (cc_partition c) (km_offset m) = (r1, w')"
      using ran(4) m(1,2) by simp
    have up: "?raise ` sound log c n0 tried confirmed \<subseteq> sound log c n0 (insert m tried) (insert m confirmed)"
      using sound_raise [OF _ cons ran(1,2) log] by (intro image_subsetI)
    note kept = healthy_commit [OF store clean m(3) commit, of "sound log c n0 (insert m tried) confirmed"]
    have to: "sound log c n0 tried confirmed \<subseteq> sound log c n0 (insert m tried) confirmed"
      "?raise ` sound log c n0 tried confirmed \<subseteq> sound log c n0 (insert m tried) confirmed"
      using sound_mono [of tried "insert m tried"] order_trans [OF up sound_anti [of confirmed "insert m confirmed"]]
      by (simp_all add: subset_insertI)
    show ?thesis
    proof (cases r1)
      case (Inl e)
      then show ?thesis using kept(1,2) [OF to] consumer_inv_mono [OF cons, of "insert m tried"] ran(3,5,6) by auto
    next
      case (Inr u)
      have "healthy path (sound log c n0 (insert m tried) (insert m confirmed)) w'"
        using healthy_mono [OF kept(3) [OF to] up] Inr by simp
      moreover have "consumer_inv api log c n0 (insert m tried) (insert m confirmed) stream (a\<lparr>al_pending := None\<rparr>)"
        using cons ran(1,2) later by (auto simp: consumer_inv_def alo_session_inv_def ahead_def as_list_def)
      ultimately show ?thesis using kept(2) [OF to] ran(3,5,6) Inr by auto
    qed
  qed
  then show "healthy path (sound log c n0 (tried \<union> asked a) (confirmed \<union> (if r = Inr () then asked a else {}))) w'"
    and "consumer_inv api log c n0 (tried \<union> asked a) (confirmed \<union> (if r = Inr () then asked a else {})) stream a'"
    and "s \<in> set (w_trace w') \<Longrightarrow> s \<in> set (w_trace w) \<or> disk_in path (sound log c n0 (tried \<union> asked a) confirmed) s"
    by blast+
qed

text \<open>A connect: the session starts at the committed position, behind which everything was tried.\<close>

lemma start_from_log:
  "map (to_message topic part) (start_from records written start) =
   log_from (map (to_message topic part) records) written start"
  by (simp add: start_from_def log_from_def filter_map comp_def to_message_def drop_map split: start_offset.split)

lemma open_session_ok:
  "open_session api records written failure c stream = (Inr s, stream') \<longleftrightarrow>
   failure = None \<and> s = session_init api \<and> stream' = start_from records written (resolve_start_offset c)"
  by (auto simp: open_session_def split: option.splits)

lemma connect_as_list:
  assumes "alo_connect committed (open_session api records written failure) c st stream = (Inr a, st', stream')"
  shows "alo_connect committed (consume_log (partition_messages records c) written) c st () =
    (Inr (as_list c stream' a), st', ())" and "al_inner a = session_init api" and "al_pending a = None" and "\<not> al_terminated a"
proof -
  have topic: "trim (cc_topic c) \<noteq> []" "\<not> sint (cc_partition c) < 0"
    using assms by (auto simp: alo_connect_def split: if_splits)
  obtain x st1 where x: "committed st (cc_topic c) (cc_partition c) = (x, st1)" by fastforce
  with assms topic obtain found where found: "x = Inr found" by (cases x) (simp_all add: alo_connect_def)
  define c' where
    "c' = (case found of Some n \<Rightarrow> c\<lparr>cc_start_offset := Some n, cc_from_beginning := False\<rparr> | None \<Rightarrow> c)"
  obtain y stream1 where y: "open_session api records written failure c' stream = (y, stream1)" by fastforce
  with assms topic x found obtain s where s: "y = Inr s"
    by (cases y) (simp_all add: alo_connect_def c'_def [symmetric])
  with y have open_it: "s = session_init api" "stream1 = start_from records written (resolve_start_offset c')"
    by (simp_all add: open_session_ok)
  have a: "st' = st1" "stream' = stream1"
    "a = \<lparr>al_inner = session_init api, al_topic = cc_topic c, al_partition = cc_partition c, al_pending = None,
          al_terminated = False\<rparr>"
    using assms topic x found y s open_it by (simp_all add: alo_connect_def c'_def [symmetric])
  show "alo_connect committed (consume_log (partition_messages records c) written) c st () =
    (Inr (as_list c stream' a), st', ())"
    using topic x found
    by (simp add: alo_connect_def c'_def [symmetric] consume_log_def as_list_def a open_it to_come_init
        start_from_log partition_messages_def)
  show "al_inner a = session_init api" "al_pending a = None" "\<not> al_terminated a" by (simp_all add: a)
qed

lemma alo_connect_store:
  assumes "alo_connect committed consume c st w = (r, st', w')"
  shows "st' = st \<or> (\<exists>x. committed st (cc_topic c) (cc_partition c) = (x, st'))"
proof (cases "committed st (cc_topic c) (cc_partition c)")
  case (Pair x st1)
  with assms show ?thesis
    by (cases x) (auto simp: alo_connect_def Let_def split: if_splits prod.splits sum.splits)
qed

lemma connect_keeps:
  assumes api: "mpsc_laws api"
    and store: "healthy path (sound (partition_messages records c) c n0 tried confirmed) w"
    and log: "partition_log (cc_topic c) (cc_partition c) (partition_messages records c)"
    and run: "alo_connect (file_committed path) (open_session api records written failure) c w stream = (r, w', stream')"
  shows "healthy path (sound (partition_messages records c) c n0 tried confirmed) w'"
    and "r = Inr a \<Longrightarrow> consumer_inv api (partition_messages records c) c n0 tried confirmed stream' a"
    and "r = Inr a \<Longrightarrow> m \<in> set (partition_messages records c) \<Longrightarrow> wanted c n0 m \<Longrightarrow> m \<notin> tried \<Longrightarrow>
      m \<in> set (to_come (cc_topic c) (cc_partition c) (al_inner a) stream')"
proof -
  let ?log = "partition_messages records c" and ?k = "(cc_topic c, cc_partition c)"
  show "healthy path (sound ?log c n0 tried confirmed) w'"
    using alo_connect_store [OF run] healthy_committed(1) [OF store] store by blast
  have sound: "file_view path w \<in> sound ?log c n0 tried confirmed" using store by (rule healthy_view)
  then have inv: "file_provider.alo_store_inv path ?log c n0 tried w"
    using healthy_inv [OF store] by (simp add: file_provider.alo_store_inv_def sound_def)
  assume "r = Inr a"
  note con = connect_as_list [OF run [unfolded this]]
  note session = file_provider.connect_session [OF con(1) inv log]
  show "m \<in> set (to_come (cc_topic c) (cc_partition c) (al_inner a) stream')"
    if "m \<in> set ?log" "wanted c n0 m" "m \<notin> tried"
    using session(2) [OF that(1,2)] that(3) by simp
  have none: "confirmed \<inter> ahead c stream' a = {}"
  proof -
    obtain found st1 where found: "file_committed path w (cc_topic c) (cc_partition c) = (Inr found, st1)"
      "al_inner (as_list c stream' a) = log_from ?log written (resolve_start_offset
        (case found of Some n \<Rightarrow> c\<lparr>cc_start_offset := Some n, cc_from_beginning := False\<rparr> | None \<Rightarrow> c))"
      using alo_connect_ok [OF con(1)] by blast
    have view: "found = file_view path w ?k" using healthy_committed(2) [OF store found(1)] by simp
    have "x \<notin> set (to_come (cc_topic c) (cc_partition c) (al_inner a) stream')" if "x \<in> confirmed" for x
    proof -
      obtain n where "file_view path w ?k = Some n" "sint (km_offset x) < sint n"
        using soundD(1) [OF sound] \<open>x \<in> confirmed\<close> by blast
      then show ?thesis
        using found(2) view by (simp add: log_from_def resolve_start_offset_def)
    qed
    then show ?thesis using con(3) by (auto simp: ahead_def)
  qed
  have "session_inv api (cc_topic c) (cc_partition c) (al_inner a)"
    using session_inv_reachable [OF session_reachable.start api] by (simp add: con(2))
  with session(1) none show "consumer_inv api ?log c n0 tried confirmed stream' a"
    by (simp add: consumer_inv_def)
qed

text \<open>A commit for another partition.\<close>

lemma other_commit_keeps:
  assumes "healthy path (sound log c n0 tried confirmed) w" and "clean_topic t"
    and "(t, p) \<noteq> (cc_topic c, cc_partition c)" and "file_commit path w t p off = (r, w')"
  shows "healthy path (sound log c n0 tried confirmed) w'"
    and "f \<in> set (w_trace w') \<Longrightarrow> f \<in> set (w_trace w) \<or> disk_in path (sound log c n0 tried confirmed) f"
proof -
  have "healthy path (sound log c n0 tried confirmed) w' \<and>
    (f \<in> set (w_trace w') \<longrightarrow> f \<in> set (w_trace w) \<or> disk_in path (sound log c n0 tried confirmed) f)"
  proof (cases "committable off")
    case True
    have "raise_to (t, p) (off + 1) ` sound log c n0 tried confirmed \<subseteq> sound log c n0 tried confirmed"
      using assms(3) by (auto simp: sound_def raise_to_def)
    then show ?thesis using healthy_commit(1,2) [OF assms(1,2) True assms(4)] by blast
  next
    case False
    then show ?thesis using committable_or_rejected [of off path w t p] assms(1,4) by auto
  qed
  then show "healthy path (sound log c n0 tried confirmed) w'"
    and "f \<in> set (w_trace w') \<Longrightarrow> f \<in> set (w_trace w) \<or> disk_in path (sound log c n0 tried confirmed) f"
    by blast+
qed

lemma dv_inv_step:
  assumes "dv_step api path records c s s'" and "dv_inv api path records c n0 s" and api: "mpsc_laws api"
    and log: "partition_log (cc_topic c) (cc_partition c) (partition_messages records c)"
    and clean: "clean_topic (cc_topic c)"
  shows "dv_inv api path records c n0 s'"
proof -
  let ?log = "partition_messages records c"
  have store: "healthy path (sound ?log c n0 (dv_tried s) (dv_acked s)) (dv_world s)"
    using assms(2) by (simp add: dv_inv_def)
  have cons: "consumer_inv api ?log c n0 (dv_tried s) (dv_acked s) (dv_stream s) a" if "dv_consumer s = Some a" for a
    using assms(2) that by (simp add: dv_inv_def)
  from assms(1) show ?thesis
  proof (cases rule: dv_step.cases)
    case (connects written failure r w stream)
    then show ?thesis using connect_keeps(1,2) [OF api store log connects(2)]
      by (simp add: dv_inv_def split: sum.split)
  next
    case (background a i stream)
    have inv: "session_inv api (cc_topic c) (cc_partition c) (al_inner a)"
      using cons [OF background(2)] by (simp add: consumer_inv_def)
    from consumer_inv_inner [OF cons [OF background(2)] session_inv_step [OF background(3) api inv]
        to_come_background [OF inv background(4,5)]]
    show ?thesis using store by (simp add: dv_inv_def background(1))
  next
    case (receives a r a')
    from alo_recv_inv [OF api cons [OF receives(2)] receives(3)] store show ?thesis
      by (simp add: dv_inv_def receives(1))
  next
    case (receives_in_time a d r a')
    from alo_recv_timeout_inv [OF api cons [OF receives_in_time(2)] receives_in_time(3)] store show ?thesis
      by (simp add: dv_inv_def receives_in_time(1))
  next
    case (acknowledges a r w a')
    from ack_keeps(1,2) [OF store cons [OF acknowledges(2)] log clean acknowledges(3)] show ?thesis
      by (simp add: dv_inv_def acknowledges(1))
  next
    case (ack_abandoned a r w a')
    have "sound ?log c n0 (dv_tried s \<union> asked a) confirmed \<subseteq> sound ?log c n0 (dv_tried s \<union> asked a) (dv_acked s)"
      if "dv_acked s \<subseteq> confirmed" for confirmed
      using that by (rule sound_anti)
    from healthy_mono [OF ack_keeps(1) [OF store cons [OF ack_abandoned(2)] log clean ack_abandoned(3)] this]
      consumer_inv_mono [OF cons [OF ack_abandoned(2)], of "dv_tried s \<union> asked a"]
    show ?thesis by (simp add: dv_inv_def ack_abandoned(1,2))
  next
    case (keeps_pending a)
    then show ?thesis using store cons by (simp add: dv_inv_def nack_keep_pending_def)
  next
    case (drops_pending a)
    then show ?thesis using store cons [OF drops_pending(2)]
      by (simp add: dv_inv_def drop_pending_unacked_def consumer_inv_def alo_session_inv_def)
  next
    case gives_up
    then show ?thesis using store by (simp add: dv_inv_def)
  next
    case (other_owner t p off r w)
    from other_commit_keeps(1) [OF store other_owner(3,2,4)] cons show ?thesis
      by (simp add: dv_inv_def other_owner(1) split: option.split)
  next
    case (power_loss x faults joins)
    then show ?thesis
      using healthy_restarted [OF disk_in_crash [OF healthy_disk [OF store]]] by (simp add: dv_inv_def)
  next
    case (power_loss_in_ack a r w a' f x faults joins)
    have "healthy path (sound ?log c n0 (dv_tried s) (dv_acked s)) ((dv_world s)\<lparr>w_trace := []\<rparr>)"
      using store by (simp add: healthy_def)
    from ack_keeps(3) [OF this cons [OF power_loss_in_ack(2)] log clean power_loss_in_ack(3,4)]
    have "disk_in path (sound ?log c n0 (dv_tried s \<union> asked a) (dv_acked s)) f" by simp
    then show ?thesis
      using healthy_restarted [OF disk_in_crash] by (simp add: dv_inv_def power_loss_in_ack(1))
  next
    case (power_loss_in_commit t p off r w f x faults joins)
    have "healthy path (sound ?log c n0 (dv_tried s) (dv_acked s)) ((dv_world s)\<lparr>w_trace := []\<rparr>)"
      using store by (simp add: healthy_def)
    from other_commit_keeps(2) [OF this power_loss_in_commit(3,2,4,5)]
    have "disk_in path (sound ?log c n0 (dv_tried s) (dv_acked s)) f" by simp
    then show ?thesis
      using healthy_restarted [OF disk_in_crash] by (simp add: dv_inv_def power_loss_in_commit(1))
  next
    case (weather faults joins)
    then show ?thesis using store cons by (simp add: dv_inv_def healthy_def split: option.split)
  qed
qed

lemma dv_inv_reachable:
  assumes "dv_reachable api path records c w s" and "settled_store path w" and "mpsc_laws api"
    and "partition_log (cc_topic c) (cc_partition c) (partition_messages records c)"
    and "clean_topic (cc_topic c)"
  shows "dv_inv api path records c (file_view path w (cc_topic c, cc_partition c)) s"
  using assms(1)
proof (induction rule: rtranclp_induct)
  case base
  have "{file_view path w} \<subseteq> sound (partition_messages records c) c
      (file_view path w (cc_topic c, cc_partition c)) {} {}"
    by (auto simp: sound_def wanted_def)
  from healthy_mono [OF settled_healthy [OF assms(2)] this] show ?case
    by (simp add: dv_inv_def dv_start_def)
next
  case (step s s')
  then show ?case using dv_inv_step [OF _ _ assms(3-5)] by blast
qed

end
