(* ===== verification/Delivery_Guarantees.thy ===== *)
theory Delivery_Guarantees
  imports Delivery Ack_Retry
begin

text \<open>
  What the system of \<open>Delivery\<close> guarantees for one message: it is not lost while nobody
  acknowledged it, it does not come back once it was acknowledged, and from every state it can still
  be received and acknowledged. The first part gives the way to the last one.
\<close>

section \<open>Calls without faults\<close>

lemma committed_faultless:
  assumes "file_inv path w" and "faults_left w = 0"
  shows "\<exists>found w'. file_committed path w t p = (Inr found, w')"
proof -
  obtain r w' where run: "file_committed path w t p = (r, w')" by fastforce
  with committed_faults [OF assms(1) run] assms(2) show ?thesis by (cases r) auto
qed

lemma commit_faultless:
  assumes "file_inv path w" and "committable off" and "pb_parent path \<noteq> []" and "faults_left w = 0"
  shows "\<exists>w'. file_commit path w t p off = (Inr (), w')"
proof -
  obtain r w' where run: "file_commit path w t p off = (r, w')" by fastforce
  with failed_commit_faults [OF assms(1-3)] assms(4) show ?thesis by (cases r) auto
qed

section \<open>One message through an idle session\<close>

text \<open>A session that has delivered everything it pulled, and can go on.\<close>

definition idle_session :: "(kafka_message kafka_result, 'q) mpsc_api \<Rightarrow> 'q session \<Rightarrow> bool" where
  "idle_session api s =
     (\<not> ss_closed s \<and> \<not> ss_signal s \<and> ss_task s = TaskPull \<and> mq_items api (ss_queue s) = [] \<and>
      mq_capacity api (ss_queue s) = consumer_buffer_capacity)"

definition idle_consumer :: "(kafka_message kafka_result, 'q) mpsc_api \<Rightarrow> 'q session alo \<Rightarrow> bool" where
  "idle_consumer api a = (\<not> al_terminated a \<and> al_pending a = None \<and> idle_session api (al_inner a))"

lemma idle_init: "mpsc_laws api \<Longrightarrow> idle_session api (session_init api)"
  by (simp add: idle_session_def session_init_def mpsc_lawsD)

text \<open>The task pulls the next record and sends it, \<open>recv\<close> returns it.\<close>

lemma idle_receives:
  assumes api: "mpsc_laws api" and cons: "dv_consumer s = Some a" and idle: "idle_consumer api a"
    and stream: "dv_stream s = r # rs"
  shows "\<exists>s' a'. (dv_step api path records c)\<^sup>*\<^sup>* s s' \<and> dv_consumer s' = Some a' \<and> dv_stream s' = rs \<and>
    \<not> al_terminated a' \<and> al_pending a' = Some (to_message (cc_topic c) (cc_partition c) r) \<and>
    idle_session api (al_inner a') \<and> dv_world s' = dv_world s \<and> dv_tried s' = dv_tried s \<and> dv_acked s' = dv_acked s"
proof -
  let ?i = "al_inner a" and ?m = "to_message (cc_topic c) (cc_partition c) r"
  have a: "\<not> al_terminated a" "al_pending a = None" and i: "\<not> ss_closed ?i" "\<not> ss_signal ?i" "ss_task ?i = TaskPull"
    "mq_items api (ss_queue ?i) = []" "mq_capacity api (ss_queue ?i) = consumer_buffer_capacity"
    using idle by (simp_all add: idle_consumer_def idle_session_def)
  define i1 where "i1 = ?i\<lparr>ss_task := TaskSend (Inr ?m), ss_pulled := ss_pulled ?i @ [Inr (r, 0)]\<rparr>"
  define s1 where "s1 = s\<lparr>dv_consumer := Some (a\<lparr>al_inner := i1\<rparr>), dv_stream := rs\<rparr>"
  have pull: "session_step api (cc_topic c) (cc_partition c) ?i i1"
    using session_step.pull_item [OF i(3,2), of api "cc_topic c" "cc_partition c" "Inr (r, 0)"]
    by (simp add: i1_def to_output_def)
  have 1: "dv_step api path records c s s1"
    unfolding s1_def using cons pull
    by (rule dv_step.background) (auto simp: i1_def stream_moves_def stream)
  obtain q where q: "mq_send api (Inr ?m) (ss_queue ?i) = Some q"
    using mpsc_lawsD(6) [OF api, of "Inr ?m" "ss_queue ?i"] i(4,5)
    by (cases "mq_send api (Inr ?m) (ss_queue ?i)") (auto simp: consumer_buffer_capacity_def)
  then have items: "mq_items api q = [Inr ?m]" "mq_capacity api q = consumer_buffer_capacity"
    using mpsc_lawsD(3) [OF api q] i(4,5) by simp_all
  define i2 where "i2 = i1\<lparr>ss_task := TaskPull, ss_queue := q\<rparr>"
  define s2 where "s2 = s1\<lparr>dv_consumer := Some (a\<lparr>al_inner := i2\<rparr>), dv_stream := rs\<rparr>"
  have send: "session_step api (cc_topic c) (cc_partition c) i1 i2"
    using session_step.send_item [of i1 "Inr ?m" api q "cc_topic c" "cc_partition c"] q i(2)
    by (simp add: i1_def i2_def)
  have "dv_step api path records c s1 (s1\<lparr>dv_consumer := Some ((a\<lparr>al_inner := i1\<rparr>)\<lparr>al_inner := i2\<rparr>), dv_stream := rs\<rparr>)"
    by (rule dv_step.background) (use send in \<open>simp_all add: s1_def i2_def stream_moves_def\<close>)
  then have 2: "dv_step api path records c s1 s2" by (simp add: s1_def s2_def)
  obtain q' where q': "mq_recv api q = Some (Inr ?m, q')"
    using mpsc_lawsD(4,5) [OF api, of q] items by (cases "mq_recv api q") auto
  then have items': "mq_items api q' = []" "mq_capacity api q' = consumer_buffer_capacity"
    using mpsc_lawsD(4) [OF api q'] items by simp_all
  define a3 where "a3 = a\<lparr>al_inner := take_item i2 (Some (Inr ?m)) q', al_pending := Some ?m\<rparr>"
  define s3 where "s3 = s2\<lparr>dv_consumer := Some a3\<rparr>"
  have "session_check i2 = Inr ()" using i(1) by (simp add: session_check_def i2_def i1_def)
  then have "session_recv api i2 = Some (Some (Inr ?m), take_item i2 (Some (Inr ?m)) q')"
    using q' by (simp add: session_recv_def recv_def consumer_recv_def i2_def)
  then have "alo_recv (session_recv api) (a\<lparr>al_inner := i2\<rparr>) = Some (Some (Inr ?m), a3)"
    using a by (simp add: alo_recv_def ensure_active_def a3_def)
  then have 3: "dv_step api path records c s2 s3"
    unfolding s3_def by (intro dv_step.receives) (simp_all add: s2_def)
  have "(dv_step api path records c)\<^sup>*\<^sup>* s s3"
    using 1 2 3 by (meson rtranclp.rtrancl_refl rtranclp.rtrancl_into_rtrancl)
  moreover have "idle_session api (al_inner a3)"
    using i items' by (simp add: a3_def take_item_def i2_def i1_def idle_session_def)
  ultimately show ?thesis using a(1) by (intro exI [of _ s3] exI [of _ a3]) (simp add: s3_def s2_def s1_def a3_def)
qed

lemma dv_inv_steps:
  assumes "(dv_step api path records c)\<^sup>*\<^sup>* s s'" and "dv_inv api path records c n0 s" and "mpsc_laws api"
    and "partition_log (cc_topic c) (cc_partition c) (partition_messages records c)" and "clean_topic (cc_topic c)"
  shows "dv_inv api path records c n0 s'"
  using assms(1)
proof (induction rule: rtranclp_induct)
  case (step t u)
  then show ?case using dv_inv_step [OF _ _ assms(3-5)] by blast
qed (rule assms(2))

text \<open>With the environment calm, \<open>ack\<close> commits the pending message.\<close>

lemma idle_acks:
  assumes inv: "dv_inv api path records c n0 s" and parent: "pb_parent path \<noteq> []"
    and log: "partition_log (cc_topic c) (cc_partition c) (partition_messages records c)"
    and cons: "dv_consumer s = Some a" and active: "\<not> al_terminated a" and m: "al_pending a = Some m"
  shows "\<exists>s'. (dv_step api path records c)\<^sup>*\<^sup>* s s' \<and> dv_consumer s' = Some (a\<lparr>al_pending := None\<rparr>) \<and>
    dv_stream s' = dv_stream s \<and> m \<in> dv_acked s'"
proof -
  define w where "w = (dv_world s)\<lparr>w_faults := [], w_joins := []\<rparr>"
  define s1 where "s1 = s\<lparr>dv_world := w\<rparr>"
  have 1: "dv_step api path records c s s1" unfolding s1_def w_def by (rule dv_step.weather)
  have "file_inv path (dv_world s)" using inv healthy_inv by (auto simp: dv_inv_def)
  then have calm: "file_inv path w" "faults_left w = 0"
    by (simp_all add: w_def file_inv_def file_table_def faults_left_def)
  have "m \<in> set (partition_messages records c)"
    using inv cons active m by (auto simp: dv_inv_def consumer_inv_def alo_session_inv_def)
  from partition_messages_set(3) [OF log this]
  obtain w' where run: "file_commit path w (km_topic m) (km_partition m) (km_offset m) = (Inr (), w')"
    using commit_faultless [OF calm(1) _ parent calm(2)] by blast
  have ack: "alo_ack (file_commit path) w a = (Inr (), w', a\<lparr>al_pending := None\<rparr>)"
    using alo_ack_pending [OF m active, of "file_commit path" w] run by simp
  define s2 where
    "s2 = s1\<lparr>dv_world := w', dv_consumer := Some (a\<lparr>al_pending := None\<rparr>), dv_tried := dv_tried s1 \<union> asked a,
       dv_acked := dv_acked s1 \<union> asked a\<rparr>"
  have "dv_step api path records c s1 s2"
    using dv_step.acknowledges [of s1 a path "Inr ()" w' "a\<lparr>al_pending := None\<rparr>" api records c] ack cons
    by (simp add: s1_def s2_def)
  with 1 have "(dv_step api path records c)\<^sup>*\<^sup>* s s2" by auto
  then show ?thesis
    by (intro exI [of _ s2]) (simp add: s2_def s1_def asked_def active m)
qed

text \<open>Every message of the stream of an idle consumer can be acknowledged, one after the other.\<close>

lemma stream_gets_through:
  assumes api: "mpsc_laws api" and parent: "pb_parent path \<noteq> []"
    and log: "partition_log (cc_topic c) (cc_partition c) (partition_messages records c)"
    and clean: "clean_topic (cc_topic c)"
  shows "dv_inv api path records c n0 s \<Longrightarrow> dv_consumer s = Some a \<Longrightarrow> idle_consumer api a \<Longrightarrow>
    dv_stream s = stream \<Longrightarrow> m \<in> set (map (to_message (cc_topic c) (cc_partition c)) stream) \<Longrightarrow>
    \<exists>s'. (dv_step api path records c)\<^sup>*\<^sup>* s s' \<and> m \<in> dv_acked s'"
proof (induction stream arbitrary: s a)
  case (Cons r rs)
  let ?m = "to_message (cc_topic c) (cc_partition c) r"
  from idle_receives [OF api Cons.prems(2,3,4), of path records c] obtain s1 a1
    where s1: "(dv_step api path records c)\<^sup>*\<^sup>* s s1" "dv_consumer s1 = Some a1" "dv_stream s1 = rs"
      "\<not> al_terminated a1" "al_pending a1 = Some ?m" "idle_session api (al_inner a1)" by blast
  have inv1: "dv_inv api path records c n0 s1" by (rule dv_inv_steps [OF s1(1) Cons.prems(1) api log clean])
  from idle_acks [OF inv1 parent log s1(2,4,5)] obtain s2
    where s2: "(dv_step api path records c)\<^sup>*\<^sup>* s1 s2" "dv_consumer s2 = Some (a1\<lparr>al_pending := None\<rparr>)"
      "dv_stream s2 = rs" "?m \<in> dv_acked s2" using s1(3) by auto
  have steps: "(dv_step api path records c)\<^sup>*\<^sup>* s s2" using s1(1) s2(1) by (rule rtranclp_trans)
  show ?case
  proof (cases "m = ?m")
    case True
    with steps s2(4) show ?thesis by blast
  next
    case False
    then have "m \<in> set (map (to_message (cc_topic c) (cc_partition c)) rs)" using Cons.prems(5) by simp
    moreover have "idle_consumer api (a1\<lparr>al_pending := None\<rparr>)" using s1(4,6) by (simp add: idle_consumer_def)
    ultimately obtain s' where "(dv_step api path records c)\<^sup>*\<^sup>* s2 s'" "m \<in> dv_acked s'"
      using Cons.IH [OF dv_inv_steps [OF s2(1) inv1 api log clean] s2(2) _ s2(3)] by blast
    with steps rtranclp_trans show ?thesis by meson
  qed
qed simp

text \<open>With the environment calm, \<open>connect\<close> opens an idle session.\<close>

lemma calm_connect:
  assumes "file_inv path w" and "faults_left w = 0" and "trim (cc_topic c) \<noteq> []" and "0 \<le> sint (cc_partition c)"
  shows "\<exists>a w' stream'. alo_connect (file_committed path) (open_session api records written None) c w stream =
      (Inr a, w', stream') \<and> al_pending a = None \<and> \<not> al_terminated a \<and> al_inner a = session_init api"
proof -
  obtain found w' where "file_committed path w (cc_topic c) (cc_partition c) = (Inr found, w')"
    using committed_faultless [OF assms(1,2)] by blast
  then show ?thesis using assms(3,4) by (simp add: alo_connect_def open_session_def Let_def)
qed

lemma wanted_gets_through:
  assumes inv: "dv_inv api path records c n0 s" and api: "mpsc_laws api" and parent: "pb_parent path \<noteq> []"
    and log: "partition_log (cc_topic c) (cc_partition c) (partition_messages records c)"
    and clean: "clean_topic (cc_topic c)" and topic: "trim (cc_topic c) \<noteq> []" "0 \<le> sint (cc_partition c)"
    and m: "m \<in> set (partition_messages records c)" "wanted c n0 m" "m \<notin> dv_tried s"
  shows "\<exists>s'. (dv_step api path records c)\<^sup>*\<^sup>* s s' \<and> m \<in> dv_acked s'"
proof -
  define w where "w = (dv_world s)\<lparr>w_faults := [], w_joins := []\<rparr>"
  define s1 where "s1 = s\<lparr>dv_world := w\<rparr>"
  have 1: "dv_step api path records c s s1" unfolding s1_def w_def by (rule dv_step.weather)
  have store: "healthy path (sound (partition_messages records c) c n0 (dv_tried s) (dv_acked s)) w"
    using inv by (simp add: dv_inv_def healthy_def w_def)
  then have calm: "file_inv path w" "faults_left w = 0"
    using healthy_inv [OF store] by (simp_all add: w_def faults_left_def)
  from calm_connect [OF calm topic, of api records 0 "dv_stream s"] obtain a w' stream'
    where con: "alo_connect (file_committed path) (open_session api records 0 None) c w (dv_stream s) = (Inr a, w', stream')"
      and a: "al_pending a = None" "\<not> al_terminated a" "al_inner a = session_init api" by blast
  define s2 where "s2 = s1\<lparr>dv_world := w', dv_stream := stream', dv_consumer := Some a\<rparr>"
  have "dv_step api path records c s1 s2"
    using dv_step.connects [of path api records 0 None c s1 "Inr a" w' stream'] con by (simp add: s1_def s2_def)
  with 1 have steps: "(dv_step api path records c)\<^sup>*\<^sup>* s s2" by auto
  have "m \<in> set (map (to_message (cc_topic c) (cc_partition c)) stream')"
    using connect_keeps(3) [OF api store log con refl m] by (simp add: a(3) to_come_init)
  moreover have "idle_consumer api a" using a idle_init [OF api] by (simp add: idle_consumer_def)
  ultimately obtain s' where "(dv_step api path records c)\<^sup>*\<^sup>* s2 s'" "m \<in> dv_acked s'"
    using stream_gets_through [OF api parent log clean dv_inv_steps [OF steps inv api log clean], of a stream' m]
    by (auto simp: s2_def)
  with steps rtranclp_trans show ?thesis by meson
qed

section \<open>A concrete partition\<close>

definition sample_record :: "i64 \<Rightarrow> fetched" where
  "sample_record off =
     \<lparr>fe_offset = off, fe_key = None, fe_value = Some [1, 2], fe_headers = Map.empty, fe_timestamp = 1000\<rparr>"

definition sample_records :: "fetched list" where
  "sample_records = [sample_record 99, sample_record 100, sample_record 103]"

definition orders_config :: consumer_config where
  "orders_config = assign ''orders'' 2"

definition outage :: crash_choice where
  "outage = \<lparr>cc_version = 0, cc_garbage = \<lambda>_. ''junk'', cc_lose_directory = True\<rparr>"

definition after_outage :: "'q dv_state" where
  "after_outage = (dv_start (quiet_world sample_fs))\<lparr>
     dv_world := restarted (fs_crash outage sample_fs)
       [None, Some \<lparr>flt_error = IoError StorageFull [], flt_written = 0\<rparr>] [],
     dv_consumer := None\<rparr>"

lemma orders_simps [simp]: "cc_topic orders_config = ''orders''" "cc_partition orders_config = 2"
  by (simp_all add: orders_config_def assign_def)

lemma orders_records:
  "partition_log ''orders'' 2 (partition_messages sample_records orders_config)"
  "to_message ''orders'' 2 (sample_record 103) \<in> set (partition_messages sample_records orders_config)"
  by (simp_all add: partition_messages_def sample_records_def sample_record_def partition_log_def to_message_def
      committable_def i64_max_def)

lemma orders_start:
  "settled_store sample_path (quiet_world sample_fs)"
  "wanted orders_config (file_view sample_path (quiet_world sample_fs) (''orders'', 2))
     (to_message ''orders'' 2 (sample_record 103))"
proof -
  show "settled_store sample_path (quiet_world sample_fs)"
    using sample_inv by (simp add: settled_store_def) (simp add: quiet_world_def sample_fs_def)
  have "file_view sample_path (quiet_world sample_fs) (''orders'', 2) = Some 100"
    by (simp add: file_view_def sample_table)
  then show "wanted orders_config (file_view sample_path (quiet_world sample_fs) (''orders'', 2))
     (to_message ''orders'' 2 (sample_record 103))"
    by (simp add: wanted_def to_message_def sample_record_def)
qed

lemma outage_reachable:
  fixes api :: "(kafka_message kafka_result, 'q) mpsc_api"
  shows "dv_reachable api sample_path sample_records orders_config (quiet_world sample_fs) after_outage"
proof -
  let ?s = "dv_start (quiet_world sample_fs) :: 'q dv_state"
  have "dv_step api sample_path sample_records orders_config ?s
    (?s\<lparr>dv_world := restarted (fs_crash outage (w_fs (dv_world ?s)))
         [None, Some \<lparr>flt_error = IoError StorageFull [], flt_written = 0\<rparr>] [], dv_consumer := None\<rparr>)"
    by (rule dv_step.power_loss)
  moreover have "w_fs (dv_world ?s) = sample_fs" by (simp add: dv_start_def quiet_world_def)
  ultimately show ?thesis unfolding after_outage_def by (intro r_into_rtranclp) simp
qed

section \<open>Properties\<close>

text \<open>C4. Nothing is lost from the broker to the offset file: after any run of connects, background
  work, receives with and without deadline, acks, drops, reconnects, commits of other partitions'
  owners, failing system calls (all but the query of the file's existence) and power losses (in the
  middle of an \<open>ack\<close> or of another owner's commit too), a wanted message for which \<open>ack\<close> was never called is not behind the committed
  position, now or after a crash; every session that connects has it in its stream, and a session
  that is not terminated has it pending or before it.\<close>

theorem nothing_is_lost:
  assumes "dv_reachable api path records c w s" and "settled_store path w" and "mpsc_laws api"
    and "partition_log (cc_topic c) (cc_partition c) (partition_messages records c)" and "clean_topic (cc_topic c)"
    and "m \<in> set (partition_messages records c)"
    and "wanted c (file_view path w (cc_topic c, cc_partition c)) m" and "m \<notin> dv_tried s"
  shows "(case file_view path (dv_world s) (cc_topic c, cc_partition c) of
        None \<Rightarrow> True | Some n \<Rightarrow> sint n \<le> sint (km_offset m)) \<and>
    (case file_view path (restarted (fs_crash x (w_fs (dv_world s))) faults joins) (cc_topic c, cc_partition c) of
        None \<Rightarrow> True | Some n \<Rightarrow> sint n \<le> sint (km_offset m)) \<and>
    (\<forall>written failure a w' stream.
       alo_connect (file_committed path) (open_session api records written failure) c (dv_world s) (dv_stream s) =
         (Inr a, w', stream) \<longrightarrow> m \<in> set (map (to_message (cc_topic c) (cc_partition c)) stream)) \<and>
    (\<forall>a. dv_consumer s = Some a \<and> \<not> al_terminated a \<longrightarrow>
       al_pending a = Some m \<or> m \<in> set (to_come (cc_topic c) (cc_partition c) (al_inner a) (dv_stream s)))"
proof -
  let ?n0 = "file_view path w (cc_topic c, cc_partition c)"
  have inv: "dv_inv api path records c ?n0 s" by (rule dv_inv_reachable [OF assms(1-5)])
  then have store: "healthy path (sound (partition_messages records c) c ?n0 (dv_tried s) (dv_acked s)) (dv_world s)"
    by (simp add: dv_inv_def)
  note crashed = healthy_restarted [OF disk_in_crash [OF healthy_disk [OF store]], of x faults joins]
  note before = soundD(2) [OF healthy_view assms(6-8)]
  have "\<forall>a. dv_consumer s = Some a \<and> \<not> al_terminated a \<longrightarrow>
       al_pending a = Some m \<or> m \<in> set (to_come (cc_topic c) (cc_partition c) (al_inner a) (dv_stream s))"
    using inv assms(6-8) by (auto simp: dv_inv_def consumer_inv_def alo_session_inv_def)
  moreover have "m \<in> set (map (to_message (cc_topic c) (cc_partition c)) stream)"
    if "alo_connect (file_committed path) (open_session api records written failure) c (dv_world s) (dv_stream s) =
         (Inr a, w', stream)" for written failure a w' stream
    using connect_keeps(3) [OF assms(3) store assms(4) that refl assms(6-8)] connect_as_list(2) [OF that]
    by (simp add: to_come_init)
  ultimately show ?thesis using before [OF store] before [OF crashed] by (simp split: option.split)
qed

theorem nothing_is_lost_witness:
  "\<not> (\<exists>n. file_view sample_path (dv_world after_outage) (''orders'', 2) = Some n \<and> sint (103 :: i64) < sint n)"
  using nothing_is_lost [OF outage_reachable orders_start(1) list_mpsc_laws, unfolded orders_simps,
      OF orders_records(1) sample_clean orders_records(2) orders_start(2)]
  by (auto simp: after_outage_def dv_start_def to_message_def sample_record_def split: option.splits)

text \<open>C12. Acknowledged is done: in every such run, a message for which \<open>ack\<close> returned \<open>Ok\<close> is behind the
  committed position, now and after a crash at any later moment; no session that connects gets it
  from its stream again, and none has it pending or before it.\<close>

theorem acknowledged_is_done:
  assumes "dv_reachable api path records c w s" and "settled_store path w" and "mpsc_laws api"
    and "partition_log (cc_topic c) (cc_partition c) (partition_messages records c)" and "clean_topic (cc_topic c)"
    and "m \<in> dv_acked s"
  shows "(\<exists>n. file_view path (dv_world s) (cc_topic c, cc_partition c) = Some n \<and> sint (km_offset m) < sint n) \<and>
    (\<exists>n. file_view path (restarted (fs_crash x (w_fs (dv_world s))) faults joins) (cc_topic c, cc_partition c) = Some n \<and>
       sint (km_offset m) < sint n) \<and>
    (\<forall>written failure a w' stream.
       alo_connect (file_committed path) (open_session api records written failure) c (dv_world s) (dv_stream s) =
         (Inr a, w', stream) \<longrightarrow> m \<notin> set (map (to_message (cc_topic c) (cc_partition c)) stream)) \<and>
    (\<forall>a. dv_consumer s = Some a \<and> \<not> al_terminated a \<longrightarrow>
       al_pending a \<noteq> Some m \<and> m \<notin> set (to_come (cc_topic c) (cc_partition c) (al_inner a) (dv_stream s)))"
proof -
  let ?n0 = "file_view path w (cc_topic c, cc_partition c)"
  have inv: "dv_inv api path records c ?n0 s" by (rule dv_inv_reachable [OF assms(1-5)])
  then have store: "healthy path (sound (partition_messages records c) c ?n0 (dv_tried s) (dv_acked s)) (dv_world s)"
    by (simp add: dv_inv_def)
  note crashed = healthy_restarted [OF disk_in_crash [OF healthy_disk [OF store]], of x faults joins]
  note behind = soundD(1) [OF healthy_view assms(6)]
  have "\<forall>a. dv_consumer s = Some a \<and> \<not> al_terminated a \<longrightarrow>
       al_pending a \<noteq> Some m \<and> m \<notin> set (to_come (cc_topic c) (cc_partition c) (al_inner a) (dv_stream s))"
    using inv assms(6) by (auto simp: dv_inv_def consumer_inv_def ahead_def)
  moreover have "m \<notin> set (map (to_message (cc_topic c) (cc_partition c)) stream)"
    if con: "alo_connect (file_committed path) (open_session api records written failure) c (dv_world s) (dv_stream s) =
         (Inr a, w', stream)" for written failure a w' stream
    using connect_keeps(2) [OF assms(3) store assms(4) con refl] connect_as_list(2,4) [OF con] assms(6)
    by (auto simp: consumer_inv_def ahead_def to_come_init)
  ultimately show ?thesis using behind [OF store] behind [OF crashed] by blast
qed

theorem acknowledged_is_done_witness:
  "\<exists>(s :: (kafka_message kafka_result list \<times> nat) dv_state) n.
     to_message ''orders'' 2 (sample_record 103) \<in> dv_acked s \<and>
     file_view sample_path (restarted
       (fs_crash outage (w_fs (dv_world s))) [] [])
       (''orders'', 2) = Some n \<and> 103 < sint n"
proof -
  let ?m = "to_message ''orders'' 2 (sample_record 103)"
  have inv: "dv_inv list_mpsc sample_path sample_records orders_config
      (file_view sample_path (quiet_world sample_fs) (''orders'', 2)) after_outage"
    using dv_inv_reachable [OF outage_reachable orders_start(1) list_mpsc_laws, unfolded orders_simps,
        OF orders_records(1) sample_clean] .
  have "?m \<notin> dv_tried after_outage" by (simp add: after_outage_def dv_start_def)
  from wanted_gets_through [OF inv list_mpsc_laws, unfolded orders_simps, OF _ orders_records(1) sample_clean _ _
      orders_records(2) orders_start(2) this] obtain s
    where s: "(dv_step list_mpsc sample_path sample_records orders_config)\<^sup>*\<^sup>* after_outage s" "?m \<in> dv_acked s"
    by (auto simp: sample_path_def orders_trim)
  from acknowledged_is_done [OF rtranclp_trans [OF outage_reachable s(1)] orders_start(1) list_mpsc_laws,
      unfolded orders_simps, OF orders_records(1) sample_clean s(2)] s(2)
  show ?thesis by (fastforce simp: to_message_def sample_record_def)
qed

text \<open>C13. Every message gets through: in whatever state a run has ended, with a broken session, a full disk
  or after a power loss, a wanted message for which \<open>ack\<close> was not called yet can still be received
  and acknowledged: once system calls succeed, the owner reconnects and receives and acknowledges
  what its session delivers until it is done.\<close>

theorem every_message_gets_through:
  assumes "dv_reachable api path records c w s" and "settled_store path w" and "mpsc_laws api"
    and "partition_log (cc_topic c) (cc_partition c) (partition_messages records c)" and "clean_topic (cc_topic c)"
    and "trim (cc_topic c) \<noteq> []" and "0 \<le> sint (cc_partition c)" and "pb_parent path \<noteq> []"
    and "m \<in> set (partition_messages records c)"
    and "wanted c (file_view path w (cc_topic c, cc_partition c)) m" and "m \<notin> dv_tried s"
  shows "\<exists>s'. (dv_step api path records c)\<^sup>*\<^sup>* s s' \<and> m \<in> dv_acked s'"
  by (rule wanted_gets_through [OF dv_inv_reachable [OF assms(1-5)] assms(3,8,4-7,9-11)])

theorem every_message_gets_through_witness:
  "\<exists>s'. (dv_step list_mpsc sample_path sample_records orders_config)\<^sup>*\<^sup>* after_outage s' \<and>
     to_message ''orders'' 2 (sample_record 103) \<in> dv_acked s'"
  using every_message_gets_through [OF outage_reachable orders_start(1) list_mpsc_laws, unfolded orders_simps,
      OF orders_records(1) sample_clean _ _ _ orders_records(2) orders_start(2)]
  by (simp add: sample_path_def orders_trim after_outage_def dv_start_def)

end
