(* ===== verification/Spec2Isabelle.thy ===== *)
theory Spec2Isabelle
  imports Error_Map Message File_Contract Rust_Atomics Lifecycle Lifecycle_Tasks Lifecycle_Orderings Config Connect Producer
    Consumer At_Least_Once Client File_Locking File_Crash File_Recovery File_Refinement Shutdown Well_Formed Ack_Retry
    Delivery Delivery_Guarantees Unit_Tests
begin

text \<open>
  Verification library of the Rust crate \<open>kafkax\<close>, a client for Kafka brokers on top of the driver
  \<open>rskafka\<close> and the runtime \<open>tokio\<close>.

  \<^bold>\<open>The program.\<close> A \<open>KafkaPool\<close> (\<open>src/connection.rs\<close> and \<open>src/connection/\<close>) owns the driver's client,
  six counters and a \<open>Lifecycle\<close>. It is built from a validated \<open>KafkaConfig\<close> (\<open>src/config.rs\<close> and
  \<open>src/config/\<close>). Every operation that talks to the broker takes an operation guard from the lifecycle
  (\<open>src/lifecycle.rs\<close>), waits for the driver under a deadline and under the shutdown signal, maps the
  driver's error (\<open>src/error_map.rs\<close>) to the public error (\<open>src/error.rs\<close>) and drops the guard.
  A \<open>KafkaProducer\<close> (\<open>src/producer.rs\<close>) publishes single records; a \<open>KafkaConsumer\<close> (\<open>src/consumer.rs\<close>)
  runs a background task that pulls from the driver's stream into a bounded queue; the
  \<open>AtLeastOnceConsumer\<close> (\<open>src/at_least_once.rs\<close>) adds acknowledgements that advance a position in an
  offset store (\<open>src/offset.rs\<close>: in memory, or a text file replaced atomically). \<open>close\<close> refuses new
  operations, broadcasts the signal and waits until all guards are gone.

  \<^bold>\<open>Theories and sources.\<close>
  \<^item> \<open>Prelude\<close>, \<open>Rust_Str\<close>, \<open>Rust_Num\<close>, \<open>Rust_Net\<close>: what the code uses of the standard library. A string
    is the list of its UTF-8 bytes; trimming, splitting, ASCII case, \<open>FromStr\<close> and \<open>Display\<close> of
    integers, IP addresses. Machine integers are words.
  \<^item> \<open>Messages\<close>: the literals of the error texts, as UTF-8 bytes, used by every component.
  \<^item> \<open>Errors\<close>: \<open>src/error.rs\<close>. \<open>Error_Map\<close>: \<open>src/error_map.rs\<close>. \<open>Message\<close>: \<open>src/message.rs\<close>.
  \<^item> \<open>Offset_Store\<close>: the positions, \<open>next_offset_of\<close>, the in-memory store of \<open>src/offset.rs\<close> and the locale
    \<open>offset_store\<close>, the contract of a store. \<open>Offset_Text\<close>: the text format of the file store.
    \<open>Rust_Fs\<close>: a file system with inodes, versions of one directory, unsynced data, failing system
    calls and crashes. \<open>File_Store\<close>: \<open>load_map\<close>, \<open>save_map\<close>, \<open>committed\<close>, \<open>commit\<close> as sequences of system
    calls. \<open>File_Contract\<close>: the file store is an \<open>offset_store\<close>, and its crash properties.
    \<open>File_Locking\<close>: concurrent callers of one file store, which interleave at these system calls, with
    the store's lock, the blocking tasks that own its guard and dropped futures, as \<open>store_step\<close>.
    \<open>File_Crash\<close>: crashes in the middle of such runs. \<open>File_Recovery\<close>: a store that is used again after a
    crash, as often as it happens. \<open>File_Refinement\<close>: sequences of calls on the file store, with faults,
    beside the same calls on the in-memory store.
  \<^item> \<open>Async\<close>: watch channels, futures as completion instants, \<open>timeout\<close>, biased \<open>select!\<close>.
    \<open>Rust_Atomics\<close>: \<open>Acquire\<close>, \<open>Release\<close> and \<open>AcqRel\<close> accesses to a memory of messages and views.
    \<open>Lifecycle\<close>: \<open>src/lifecycle.rs\<close>, each function with the interference of other tasks as an argument.
    \<open>Lifecycle_Tasks\<close>: all tasks together, as the step relation \<open>task_step\<close> on single accesses with the
    orderings that the code asks for. \<open>Lifecycle_Orderings\<close>: the race of one operation and one
    \<open>close\<close> alone, with these orderings and with sequentially consistent ones.
  \<^item> \<open>Config\<close>: \<open>src/config.rs\<close>, \<open>validate.rs\<close>, \<open>envvars.rs\<close>, \<open>tomlfile.rs\<close>, \<open>builder.rs\<close>.
  \<^item> \<open>Pool\<close>: \<open>src/connection.rs\<close>, \<open>observe.rs\<close>, \<open>runtime.rs\<close>, \<open>topic.rs\<close>. \<open>Connect\<close>: \<open>connect.rs\<close>.
  \<^item> \<open>Producer\<close>: \<open>src/producer.rs\<close>. \<open>Consumer\<close>: \<open>src/consumer.rs\<close> and the factory of \<open>src/pool.rs\<close>; the
    background task, its queue and the receiver are the step relation \<open>session_step\<close>.
    \<open>Shutdown\<close>: the lifecycle as a refinement of a gate, and any number of operations, \<open>close\<close> calls and
    consumer sessions in one pool as \<open>system_step\<close>, where the guard of a session is owned by its task
    and \<open>recv\<close> may read an old value of the flag.
  \<^item> \<open>At_Least_Once\<close>: \<open>src/at_least_once.rs\<close>, and whole runs (connect, receive, ack, lose the session,
    reconnect) as \<open>alo_step\<close>, over any store that meets \<open>offset_store\<close>. \<open>Ack_Retry\<close>: a caller that repeats a
    failed \<open>ack\<close>.
  \<^item> \<open>Delivery\<close>: the components on the way of a message put together as \<open>dv_step\<close>: the driver's stream, the
    background task and the queue of \<open>session_step\<close>, \<open>recv\<close> and \<open>recv_timeout\<close> of both consumers, \<open>ack\<close>, the
    system calls of the file store, and a machine that loses power at any moment, in the middle of an
    \<open>ack\<close> or of another owner's commit too. \<open>Delivery_Guarantees\<close>: what this system guarantees for a message.
  \<^item> \<open>Client\<close>: sequences of public calls on one pool. The locale \<open>pool_operation\<close> is what the operations
    share (how they account for guards and counters); every operation is an instance.
    \<open>Well_Formed\<close>: the invariant of a pool under all of them.
  \<^item> \<open>Unit_Tests\<close>: the unit tests inside \<open>src/\<close>, each as a Boolean over the modelled operations and
    evaluated: the model answers as the authors expect of the code.

  A record of the model has the fields of the struct it stands for; an operation that changes state
  returns the new state; an error is the left side of a sum. An operation that awaits takes the
  driver's future as the instant and value of its completion, the instant of the shutdown signal, and
  a function for what other tasks do to the shared state meanwhile (\<open>interference\<close>; \<open>quiet\<close> when it
  leaves the counters and guards under consideration alone).

  \<^bold>\<open>What is shown.\<close>
  \<^item> Shutdown, with the memory orderings of the code: after \<open>close\<close> returned \<open>Ok\<close> every operation it has
    seen being counted is over, whoever has learned of the closing is refused for good, and no session
    pulls another record. No wake-up is missed, the count is the number of guards, and \<open>close\<close> can
    always finish, with any number of live consumer sessions, full queues included. After the signal,
    operations and sessions take a bounded number of steps, apart from callers that still read the
    old flag. These exist: a caller that has learned nothing can get a guard after \<open>close\<close> returned
    (\<open>Lifecycle_Orderings\<close>). Under \<open>latest\<close>, where every load reads the last value, which is what
    sequentially consistent accesses would give, nobody holds a guard then. A closing pool does nothing
    for any sequence of calls.
  \<^item> Guards and statistics: no sequence of calls leaks a guard; successes are counted exactly; an \<open>Ok\<close>
    of \<open>publish\<close> is an acknowledgement of exactly this record within the deadline. A pool keeps its
    valid configuration, its client and counters that fit together.
  \<^item> Offsets: the file store refines the in-memory store over any sequence of calls, is atomic under
    crashes and durable, never moves a position back; its concurrent callers are serializable, an acknowledged commit survives a
    crash in the middle of another one, the lock is always released; a repeated \<open>ack\<close> succeeds when
    the faults end.
  \<^item> Delivery: over any run of the whole system, power losses and restarts included, a message that
    nobody acknowledged is never passed by the committed position and is in the stream of every later
    session; one whose \<open>ack\<close> returned \<open>Ok\<close> never comes back; and from every state each message can still
    be received and acknowledged once system calls succeed. The invariant \<open>dv_inv\<close> is made of the one of
    the session, the one of the consumer over any store, and \<open>healthy\<close>: whatever a crash leaves in the
    file now is a table whose positions are sound for the messages.
  \<^item> Configuration: \<open>validate\<close> is exact, no constructor goes around it, plain text reaches loopback hosts
    only, and neither \<open>Debug\<close>, error texts nor TOML carry secrets.
  \<^item> Errors and formats: no driver text in public errors, retry verdicts, bus ids, the offset file.

  \<^bold>\<open>Bounds.\<close> There is no fuel: loops are recursions over lists, and waiting is a step relation. The
  number of tasks, closes, callers, calls and messages is arbitrary; the queue holds 64 items as in the
  code. The holder of the file lock makes at most ten system calls, after the shutdown signal \<open>n\<close>
  operations and their sessions make at most \<open>5 * n\<close> more steps, and six for each first check that reads
  an old flag: both are proved.

  \<^bold>\<open>Assumptions.\<close> Third-party code is a parameter: the driver (\<open>driver\<close>, its stream and its client
  builder), \<open>Url::parse\<close>, the TOML deserializer (\<open>toml_laws\<close>: an absent key has its default), \<open>rustls\<close> and
  the PEM reader, watch channels (\<open>watch_laws\<close>) and the bounded queue (\<open>mpsc_laws\<close>), each with a concrete
  instance that meets its laws. The atomics are those of \<open>Rust_Atomics\<close>: an acquire load may read any
  message that the thread's view allows, a read-modify-write reads the last one; there are no fences
  and no loads that read from the future. Whoever sends on a watch channel or finds a change
  synchronizes with the senders before, as the lock inside the channel does. The SipHash value of a key is a parameter of the routing function. In \<open>Delivery\<close> the
  partition is one log in the order of its offsets and the store starts settled on disk. In all
  theories on the file store a \<open>healthy\<close> or settled store is one whose existence queries do not fail: with one that
  fails a commit can drop positions (\<open>failed_existence_query_drops_positions\<close>).

  \<^bold>\<open>Not modelled.\<close> \<open>src/lib.rs\<close> (declarations and re-exports), tracing events, the clone of the pool
  handle in \<open>KafkaPool::producer\<close>, accessors that only return a field, \<open>Debug\<close> layout beyond the fields
  shown, the TOML text of one unit test (its parser is a parameter), and the tests and benchmarks
  outside \<open>src/\<close>.
\<close>

end
